(* ===== verification/Prelude.thy ===== *)
theory Prelude
  imports Main "HOL-Library.Word" "HOL-Library.Monad_Syntax"
begin

text \<open>
  Shared vocabulary of the development: the machine integer types of the C code, the host's
  view of a 32-bit integer as bytes, the host's shift instructions, the extraction of an
  instruction field, and the generic lemmas on words, lists and options that the component
  theories use.

  Behaviour the C text leaves open is \<open>None\<close>: an access outside every object of the program,
  or the use of an indeterminate (never initialised) value. Where C leaves an operation open
  but the host decides it (an x86-64 Linux machine, as the ELF core file kept in the source
  directory shows), the host's rule is written out: little-endian integers, two's complement
  arithmetic that wraps, and 32-bit shifts whose count is taken modulo 32.
\<close>

unbundle bit_operations_syntax

subsection \<open>Machine integers\<close>

type_synonym u8 = "8 word"
type_synonym u16 = "16 word"
type_synonym u32 = "32 word"
type_synonym u64 = "64 word"

named_theorems core_defs \<open>the operations of the simulated core, unfolded\<close>
named_theorems core_frame \<open>what an operation of the core leaves unchanged\<close>

subsection \<open>Host shifts\<close>

text \<open>
  The x86 shift instructions on a 32-bit operand use the low five bits of the count. The count
  is a C \<open>int\<close>, so it may be negative (\<open>32 - shift\<close> with a byte \<open>shift\<close> above 32).
\<close>

definition host_shl :: "u32 \<Rightarrow> int \<Rightarrow> u32" where
  "host_shl v k = push_bit (nat (k mod 32)) v"

definition host_shr :: "u32 \<Rightarrow> int \<Rightarrow> u32" where
  "host_shr v k = drop_bit (nat (k mod 32)) v"

lemma host_shl_in_range: "0 \<le> k \<Longrightarrow> k < 32 \<Longrightarrow> host_shl v k = push_bit (nat k) v"
  by (simp add: host_shl_def)

lemma host_shr_in_range: "0 \<le> k \<Longrightarrow> k < 32 \<Longrightarrow> host_shr v k = drop_bit (nat k) v"
  by (simp add: host_shr_def)

lemma host_shr_unat: "unat k < 32 \<Longrightarrow> host_shr v (uint k) = drop_bit (unat k) v"
  by (simp add: host_shr_def nat_mod_distrib)

lemma host_shl_unat: "unat k < 32 \<Longrightarrow> host_shl v (uint k) = push_bit (unat k) v"
  by (simp add: host_shl_def nat_mod_distrib)

lemma host_count_complement: "0 < n \<Longrightarrow> n < 32 \<Longrightarrow> nat ((32 - int n) mod 32) = 32 - n"
proof -
  assume "0 < n" "n < 32"
  then have "(32 - int n) mod 32 = 32 - int n"
    by (intro mod_pos_pos_trivial) auto
  then show ?thesis
    by simp
qed

lemma uint_int_unat: "uint k = int (unat k)"
  by simp

lemma host_shl_complement:
  "0 < unat k \<Longrightarrow> unat k < 32 \<Longrightarrow> host_shl v (32 - uint k) = push_bit (32 - unat k) v"
  unfolding host_shl_def uint_int_unat by (simp only: host_count_complement)

lemma host_shr_complement:
  "0 < unat k \<Longrightarrow> unat k < 32 \<Longrightarrow> host_shr v (32 - uint k) = drop_bit (32 - unat k) v"
  unfolding host_shr_def uint_int_unat by (simp only: host_count_complement)

subsection \<open>Masks\<close>

lemma and_255: "(w :: 'a::len word) AND 255 = take_bit 8 w"
  by (simp add: take_bit_eq_mask mask_eq_exp_minus_1)

lemma and_65535: "(w :: 'a::len word) AND 65535 = take_bit 16 w"
  by (simp add: take_bit_eq_mask mask_eq_exp_minus_1)

lemma low_byte: "ucast (v AND 0xFF :: u32) = (ucast v :: u8)"
  by (rule bit_word_eqI) (auto simp: bit_simps and_255)

lemma low_half: "ucast (v AND 0xFFFF :: u32) = (ucast v :: u16)"
  by (rule bit_word_eqI) (auto simp: bit_simps and_65535)

subsection \<open>Instruction fields\<close>

text \<open>\<open>(uint8_t) ((w >> n) & m)\<close>, the idiom of every decoder of the program.\<close>

definition field :: "u32 \<Rightarrow> nat \<Rightarrow> u32 \<Rightarrow> u8" where
  "field w n m = ucast (drop_bit n w AND m)"

lemma field_less: "m \<le> 8 \<Longrightarrow> unat (field w n (mask m)) < 2 ^ m"
proof -
  assume m: "m \<le> 8"
  have "field w n (mask m) = take_bit m (ucast (drop_bit n w))"
    by (rule bit_word_eqI) (auto simp: field_def bit_simps)
  then have "unat (field w n (mask m)) = take_bit m (unat (ucast (drop_bit n w) :: u8))"
    by (simp add: unsigned_take_bit_eq)
  then show ?thesis using take_bit_nat_less_exp [of m] by simp
qed

lemma field_3: "unat (field w n 3) < 4"
  using field_less [of 2 w n] by (simp add: mask_eq_exp_minus_1)

lemma field_31: "unat (field w n 31) < 32"
  using field_less [of 5 w n] by (simp add: mask_eq_exp_minus_1)

lemma field_nibble: "unat (field w n 15) < 16"
  using field_less [of 4 w n] by (simp add: mask_eq_exp_minus_1)

lemma field_bit: "field w n 1 = of_bool (bit w n)"
  by (rule bit_word_eqI) (auto simp: field_def bit_simps)

lemma field_bit_eq_0 [simp]: "field w n 1 = 0 \<longleftrightarrow> \<not> bit w n"
  by (simp add: field_bit)

subsection \<open>The host's bytes of an integer\<close>

definition host_bytes :: "u32 \<Rightarrow> u8 list" where
  "host_bytes w = [ucast w, ucast (drop_bit 8 w), ucast (drop_bit 16 w), ucast (drop_bit 24 w)]"

fun host_word :: "u8 list \<Rightarrow> u32" where
  "host_word [] = 0"
| "host_word (b # bs) = ucast b OR push_bit 8 (host_word bs)"

lemma length_host_bytes [simp]: "length (host_bytes w) = 4"
  by (simp add: host_bytes_def)

lemma host_word_bytes [simp]: "host_word (host_bytes w) = w"
proof (rule bit_word_eqI)
  fix n
  assume "n < LENGTH(32)"
  then consider "n < 8" | "8 \<le> n" "n < 16" | "16 \<le> n" "n < 24" | "24 \<le> n" "n < 32"
    by fastforce
  then show "bit (host_word (host_bytes w)) n \<longleftrightarrow> bit w n"
    by cases (auto simp: host_bytes_def bit_simps)
qed

lemma host_bytes_of_four [simp]:
  "host_bytes (host_word [a, b, c, d]) = [a, b, c, d]"
proof -
  have "ucast (host_word [a, b, c, d]) = a"
    by (rule bit_word_eqI) (simp add: bit_simps)
  moreover have "ucast (drop_bit 8 (host_word [a, b, c, d])) = b"
    by (rule bit_word_eqI) (auto simp: bit_simps dest: bit_imp_le_length)
  moreover have "ucast (drop_bit 16 (host_word [a, b, c, d])) = c"
    by (rule bit_word_eqI) (auto simp: bit_simps dest: bit_imp_le_length)
  moreover have "ucast (drop_bit 24 (host_word [a, b, c, d])) = d"
    by (rule bit_word_eqI) (auto simp: bit_simps dest: bit_imp_le_length)
  ultimately show ?thesis
    by (simp only: host_bytes_def)
qed

lemma host_bytes_word [simp]:
  assumes "length bs = 4"
  shows "host_bytes (host_word bs) = bs"
proof -
  from assms obtain a b c d where "bs = [a, b, c, d]"
    by (auto simp: numeral_eq_Suc length_Suc_conv)
  then show ?thesis by (simp del: host_word.simps)
qed

lemma host_word_eq_iff:
  "length xs = 4 \<Longrightarrow> length ys = 4 \<Longrightarrow> host_word xs = host_word ys \<longleftrightarrow> xs = ys"
  by (metis host_bytes_word)

end
