(* ===== verification/Constants.thy ===== *)
theory Constants
  imports Prelude
begin

text \<open>
  \<open>arm_constants.h\<close> and \<open>arm_constants.c\<close>: the exception numbers, the modes, the positions of
  the condition flags in the CPSR, and the name tables with their lookups. A lookup is \<open>None\<close>
  when it indexes past its table and \<open>Some None\<close> when the entry is a null pointer.
\<close>

definition USR :: u8 where "USR = 0x10"
definition FIQ :: u8 where "FIQ = 0x11"
definition IRQ :: u8 where "IRQ = 0x12"
definition SVC :: u8 where "SVC = 0x13"
definition ABT :: u8 where "ABT = 0x17"
definition UND :: u8 where "UND = 0x1b"
definition SYS :: u8 where "SYS = 0x1f"

definition RESET :: int where "RESET = 1"
definition UNDEFINED_INSTRUCTION :: int where "UNDEFINED_INSTRUCTION = 2"
definition SOFTWARE_INTERRUPT :: int where "SOFTWARE_INTERRUPT = 3"
definition PREFETCH_ABORT :: int where "PREFETCH_ABORT = 4"
definition DATA_ABORT :: int where "DATA_ABORT = 5"
definition INTERRUPT :: int where "INTERRUPT = 6"
definition FAST_INTERRUPT :: int where "FAST_INTERRUPT = 7"

definition flag_N_bit :: nat where "flag_N_bit = 31"
definition flag_Z_bit :: nat where "flag_Z_bit = 30"
definition flag_C_bit :: nat where "flag_C_bit = 29"
definition flag_V_bit :: nat where "flag_V_bit = 28"

lemmas exception_numbers [simp] =
  RESET_def UNDEFINED_INSTRUCTION_def SOFTWARE_INTERRUPT_def PREFETCH_ABORT_def DATA_ABORT_def
  INTERRUPT_def FAST_INTERRUPT_def

lemmas flag_bits [simp] = flag_N_bit_def flag_Z_bit_def flag_C_bit_def flag_V_bit_def

definition arm_mode_names :: "string option list" where
  "arm_mode_names =
     [None, None, None, None, None, None, None, None, None, None, None, None, None, None, None,
      None, Some ''USR'', Some ''FIQ'', Some ''IRQ'', Some ''SVC'', None, None, None,
      Some ''ABT'', None, None, None, Some ''UND'', None, None, None, Some ''SYS'']"

definition arm_register_names :: "string list" where
  "arm_register_names =
     [''R00'', ''R01'', ''R02'', ''R03'', ''R04'', ''R05'',
      ''R06'', ''R07'', ''R08'', ''R09'', ''R10'', ''R11'',
      ''R12'', ''SP'', ''LR'', ''PC'', ''CPSR'', ''SPSR'']"

definition arm_exception_names :: "string option list" where
  "arm_exception_names =
     [None, Some ''reset'', Some ''undefined instruction'',
      Some ''software interrupt'', Some ''prefetch abort'',
      Some ''data abort'', Some ''interrupt'',
      Some ''fast interrupt'']"

definition arm_get_exception_name :: "u8 \<Rightarrow> string option" where
  "arm_get_exception_name exception =
     (if exception < 8 then arm_exception_names ! unat exception else None)"

definition arm_get_mode_name :: "u8 \<Rightarrow> string option option" where
  "arm_get_mode_name mode =
     (if unat mode < length arm_mode_names then Some (arm_mode_names ! unat mode) else None)"

definition arm_get_register_name :: "u8 \<Rightarrow> string option" where
  "arm_get_register_name reg =
     (if unat reg < length arm_register_names then Some (arm_register_names ! unat reg) else None)"

lemma exception_names_length: "length arm_exception_names = 8"
  by (simp add: arm_exception_names_def)

text \<open>The exceptions that have a name are those numbered 1 to 7.\<close>

lemma exception_name_iff:
  "(\<exists>n. arm_get_exception_name e = Some n) \<longleftrightarrow> 1 \<le> unat e \<and> unat e \<le> 7"
proof -
  have "unat e = 0 \<or> unat e = 1 \<or> unat e = 2 \<or> unat e = 3 \<or> unat e = 4 \<or> unat e = 5 \<or>
      unat e = 6 \<or> unat e = 7 \<or> 8 \<le> unat e" by arith
  then show ?thesis
    by (elim disjE)
      (auto simp: arm_get_exception_name_def arm_exception_names_def word_less_nat_alt)
qed

end
