(* ===== verification/Interfaces.thy ===== *)
theory Interfaces
  imports Prelude
begin

text \<open>
  The contracts between components, as locales: addressable cells (the simulated memory as the
  core and the debugger use it, at each access width), a register file, a machine whose
  steps keep an invariant, and operations made in small steps. Each is interpreted, in the
  theory of the component that provides it, on the model's own operations.
\<close>

subsection \<open>Addressable cells\<close>

text \<open>A sequence of stores, stopping at the first that fails.\<close>

fun store_all :: "('m \<Rightarrow> u32 \<Rightarrow> 'v \<Rightarrow> (int \<times> 'm) option) \<Rightarrow> 'm \<Rightarrow> (u32 \<times> 'v) list \<Rightarrow> 'm option" where
  "store_all wr m [] = Some m"
| "store_all wr m ((a, v) # avs) =
     do { (r, m') \<leftarrow> wr m a v; if r = 0 then store_all wr m' avs else None }"

locale cell_access =
  fixes rd :: "'m \<Rightarrow> u32 \<Rightarrow> 'v option \<Rightarrow> (int \<times> 'v option) option"
    and wr :: "'m \<Rightarrow> u32 \<Rightarrow> 'v \<Rightarrow> (int \<times> 'm) option"
    and ok :: "'m \<Rightarrow> u32 \<Rightarrow> bool"
    and apart :: "u32 \<Rightarrow> u32 \<Rightarrow> bool"
  assumes wr_succeeds: "ok m a \<Longrightarrow> \<exists>m'. wr m a v = Some (0, m')"
    and ok_wr: "ok m a \<Longrightarrow> wr m a v = Some (0, m') \<Longrightarrow> ok m' b = ok m b"
    and rd_same: "ok m a \<Longrightarrow> wr m a v = Some (0, m') \<Longrightarrow> rd m' a x = Some (0, Some v)"
    and rd_apart: "ok m a \<Longrightarrow> ok m b \<Longrightarrow> apart a b \<Longrightarrow> wr m a v = Some (0, m') \<Longrightarrow>
      rd m' b x = rd m b x"
begin

lemma store_load:
  assumes "ok m a"
  shows "\<exists>m'. wr m a v = Some (0, m') \<and> rd m' a x = Some (0, Some v)"
  using wr_succeeds [OF assms] rd_same [OF assms] by blast

lemma last_store_wins:
  assumes "ok m a" "wr m a v = Some (0, m1)"
  shows "\<exists>m2. wr m1 a w = Some (0, m2) \<and> rd m2 a x = Some (0, Some w)"
  using assms ok_wr store_load by blast

lemma store_all_succeeds:
  assumes "\<forall>(a, v) \<in> set avs. ok m a"
  shows "\<exists>m'. store_all wr m avs = Some m' \<and> (\<forall>b. ok m' b = ok m b)"
  using assms
proof (induction avs arbitrary: m)
  case Nil
  then show ?case by simp
next
  case (Cons av avs)
  obtain a v where av: "av = (a, v)" by (cases av)
  with Cons.prems obtain m1 where m1: "wr m a v = Some (0, m1)"
    using wr_succeeds by fastforce
  with Cons.prems av have ok1: "ok m1 b = ok m b" for b
    using ok_wr by fastforce
  with Cons.prems have "\<forall>(a, v) \<in> set avs. ok m1 a" by auto
  from Cons.IH [OF this] ok1 m1 av show ?case by simp
qed

lemma store_all_untouched:
  assumes "\<forall>(a, v) \<in> set avs. ok m a \<and> apart a b" "ok m b" "store_all wr m avs = Some m'"
  shows "rd m' b x = rd m b x"
  using assms
proof (induction avs arbitrary: m)
  case Nil
  then show ?case by simp
next
  case (Cons av avs)
  obtain a v where av: "av = (a, v)" by (cases av)
  with Cons.prems obtain m1 where m1: "wr m a v = Some (0, m1)"
    using wr_succeeds by fastforce
  with Cons.prems av have ok1: "ok m1 c = ok m c" for c
    using ok_wr by fastforce
  have "rd m' b x = rd m1 b x"
    using Cons.prems ok1 m1 av by (intro Cons.IH) auto
  also have "\<dots> = rd m b x"
    using Cons.prems av m1 by (auto intro: rd_apart)
  finally show ?case .
qed

lemma store_all_load:
  assumes "sorted_wrt (\<lambda>p q. apart (fst q) (fst p)) avs"
    and "\<forall>(a, v) \<in> set avs. ok m a" "store_all wr m avs = Some m'" "(a, v) \<in> set avs"
  shows "rd m' a x = Some (0, Some v)"
  using assms
proof (induction avs arbitrary: m)
  case Nil
  then show ?case by simp
next
  case (Cons av avs)
  obtain b w where av: "av = (b, w)" by (cases av)
  with Cons.prems(2) have okb: "ok m b" by simp
  then obtain m1 where m1: "wr m b w = Some (0, m1)"
    using wr_succeeds by blast
  with okb have ok1: "ok m1 c = ok m c" for c
    using ok_wr by blast
  have rest: "store_all wr m1 avs = Some m'" "\<forall>(a, v) \<in> set avs. ok m1 a"
    using Cons.prems(2,3) av m1 by (auto simp: ok1)
  show ?case
  proof (cases "(a, v) \<in> set avs")
    case True
    with Cons.prems(1) rest show ?thesis by (intro Cons.IH [of m1]) simp_all
  next
    case False
    with Cons.prems(4) av have eq: "b = a" "w = v" by simp_all
    have "\<forall>(c, u) \<in> set avs. ok m1 c \<and> apart c a"
      using Cons.prems(1) rest(2) av eq by auto
    then have "rd m' a x = rd m1 a x"
      using okb eq rest(1) ok1 by (intro store_all_untouched [of avs]) simp_all
    also have "\<dots> = Some (0, Some v)"
      using okb m1 eq rd_same by simp
    finally show ?thesis .
  qed
qed

end

subsection \<open>Register files\<close>

locale register_file =
  fixes rd :: "'s \<Rightarrow> u8 \<Rightarrow> u32 option"
    and wr :: "'s \<Rightarrow> u8 \<Rightarrow> u32 \<Rightarrow> 's option"
    and wf :: "'s \<Rightarrow> bool"
    and ok :: "u8 \<Rightarrow> bool"
  assumes rd_defined: "wf s \<Longrightarrow> ok r \<Longrightarrow> \<exists>v. rd s r = Some v"
    and wr_defined: "wf s \<Longrightarrow> ok r \<Longrightarrow> \<exists>s'. wr s r v = Some s'"
    and wf_wr: "wf s \<Longrightarrow> wr s r v = Some s' \<Longrightarrow> wf s'"
    and rd_wr: "wf s \<Longrightarrow> ok r \<Longrightarrow> ok q \<Longrightarrow> wr s r v = Some s' \<Longrightarrow>
      rd s' q = (if q = r then Some v else rd s q)"
begin

lemma write_read: "wf s \<Longrightarrow> ok r \<Longrightarrow> \<exists>s'. wr s r v = Some s' \<and> rd s' r = Some v"
  using wr_defined rd_wr by metis

lemma write_write_read:
  assumes "wf s" "ok r" "ok q" "r \<noteq> q"
  shows "\<exists>s1 s2. wr s r v = Some s1 \<and> wr s1 q w = Some s2 \<and> rd s2 r = Some v \<and> rd s2 q = Some w"
proof -
  obtain s1 where s1: "wr s r v = Some s1" using wr_defined assms by blast
  then have wf1: "wf s1" using wf_wr assms by blast
  then obtain s2 where s2: "wr s1 q w = Some s2" using wr_defined assms by blast
  then show ?thesis
    using s1 wf1 assms rd_wr by (metis (no_types, lifting))
qed

end

subsection \<open>Machines with an invariant\<close>

fun run :: "('s \<Rightarrow> 's option) \<Rightarrow> nat \<Rightarrow> 's \<Rightarrow> 's option" where
  "run step 0 s = Some s"
| "run step (Suc n) s = do { s' \<leftarrow> step s; run step n s' }"

lemma run_add: "run step (m + n) s = do { s' \<leftarrow> run step m s; run step n s' }"
  by (induction m arbitrary: s) (auto split: Option.bind_splits)

locale invariant_machine =
  fixes step :: "'s \<Rightarrow> 's option"
    and inv :: "'s \<Rightarrow> bool"
  assumes step_inv: "inv s \<Longrightarrow> step s = Some s' \<Longrightarrow> inv s'"
begin

lemma run_inv: "inv s \<Longrightarrow> run step n s = Some s' \<Longrightarrow> inv s'"
  by (induction n arbitrary: s) (auto split: Option.bind_splits dest: step_inv)

end

text \<open>A quantity every step preserves, such as the geometry of the memory.\<close>

locale frame_machine = invariant_machine +
  fixes frame :: "'s \<Rightarrow> 'f"
  assumes step_frame: "inv s \<Longrightarrow> step s = Some s' \<Longrightarrow> frame s' = frame s"
begin

lemma run_frame: "inv s \<Longrightarrow> run step n s = Some s' \<Longrightarrow> frame s' = frame s"
proof (induction n arbitrary: s)
  case 0
  then show ?case by simp
next
  case (Suc n)
  then obtain s1 where "step s = Some s1" "run step n s1 = Some s'"
    by (auto split: Option.bind_splits)
  with Suc show ?case using step_inv step_frame by metis
qed

end

text \<open>
  A forward simulation of an abstract machine: as long as the abstract states stay within the
  limits, the machine makes the abstract machine's steps.
\<close>

fun stays :: "('a \<Rightarrow> 'a option) \<Rightarrow> ('a \<Rightarrow> bool) \<Rightarrow> nat \<Rightarrow> 'a \<Rightarrow> bool" where
  "stays astep within 0 a = True"
| "stays astep within (Suc n) a \<longleftrightarrow>
     within a \<and> (case astep a of None \<Rightarrow> True | Some a' \<Rightarrow> stays astep within n a')"

locale simulation = invariant_machine +
  fixes abs :: "'a \<Rightarrow> 'b"
    and astep :: "'b \<Rightarrow> 'b option"
    and within :: "'b \<Rightarrow> bool"
  assumes step_simulates: "inv s \<Longrightarrow> within (abs s) \<Longrightarrow> astep (abs s) = Some t \<Longrightarrow>
    \<exists>s'. step s = Some s' \<and> abs s' = t"
begin

lemma run_simulates:
  "inv s \<Longrightarrow> stays astep within n (abs s) \<Longrightarrow> run astep n (abs s) = Some t \<Longrightarrow>
     \<exists>s'. run step n s = Some s' \<and> abs s' = t \<and> inv s'"
proof (induction n arbitrary: s)
  case 0
  then show ?case by simp
next
  case (Suc n)
  then obtain a where a: "astep (abs s) = Some a" "run astep n a = Some t"
    by (auto split: Option.bind_splits)
  with Suc.prems obtain s1 where s1: "step s = Some s1" "abs s1 = a"
    using step_simulates by auto
  with Suc.prems a have "inv s1" "stays astep within n (abs s1)" "run astep n (abs s1) = Some t"
    using step_inv by auto
  from Suc.IH [OF this] s1 show ?case by simp
qed

end

subsection \<open>Operations in small steps\<close>

text \<open>
  An operation made in small steps on a shared state: each gives the new state and what is left
  of the operation, nothing after the last.
\<close>

inductive finishes :: "('c \<Rightarrow> 'g \<Rightarrow> ('g \<times> 'c option) option) \<Rightarrow> 'c \<Rightarrow> 'g \<Rightarrow> 'g \<Rightarrow> bool" for tick where
  last_tick: "tick c g = Some (g', None) \<Longrightarrow> finishes tick c g g'"
| next_tick: "tick c g = Some (g1, Some c1) \<Longrightarrow> finishes tick c1 g1 g' \<Longrightarrow> finishes tick c g g'"

inductive_cases finishesE: "finishes tick c g g'"

inductive ticks :: "('c \<Rightarrow> 'g \<Rightarrow> ('g \<times> 'c option) option) \<Rightarrow> 'c \<Rightarrow> 'g \<Rightarrow> 'c \<Rightarrow> 'g \<Rightarrow> bool" for tick c g where
  no_tick: "ticks tick c g c g"
| one_more_tick: "ticks tick c g c1 g1 \<Longrightarrow> tick c1 g1 = Some (g2, Some c2) \<Longrightarrow> ticks tick c g c2 g2"

lemma ticks_finish: "ticks tick c g c1 g1 \<Longrightarrow> finishes tick c1 g1 g' \<Longrightarrow> finishes tick c g g'"
  by (induction rule: ticks.induct) (auto intro: next_tick)

lemma ticks_before: "ticks tick c1 g1 c2 g2 \<Longrightarrow> tick c g = Some (g1, Some c1) \<Longrightarrow> ticks tick c g c2 g2"
  by (induction rule: ticks.induct) (auto intro: ticks.intros)

lemma finishes_ticks:
  "finishes tick c g g' \<Longrightarrow> \<exists>c1 g1. ticks tick c g c1 g1 \<and> tick c1 g1 = Some (g', None)"
  by (induction rule: finishes.induct) (blast intro: no_tick ticks_before)+

text \<open>A function of the state and of what is left, that follows the small steps to a finish.\<close>

lemma finishes_value:
  assumes "\<And>c g. whole c g = (case tick c g of None \<Rightarrow> None
      | Some (g1, None) \<Rightarrow> Some g1 | Some (g1, Some c1) \<Rightarrow> whole c1 g1)"
  shows "finishes tick c g g' \<Longrightarrow> whole c g = Some g'"
  by (induction rule: finishes.induct) (simp_all add: assms)

locale small_steps =
  fixes tick :: "'c \<Rightarrow> 'g \<Rightarrow> ('g \<times> 'c option) option"
    and enter :: "'op \<Rightarrow> 'g \<Rightarrow> 'c option"
    and whole :: "'op \<Rightarrow> 'g \<Rightarrow> 'g option"
  assumes whole_iff: "whole op g = Some g' \<longleftrightarrow> (\<exists>c. enter op g = Some c \<and> finishes tick c g g')"
begin

lemma last_is_whole:
  assumes "enter op g = Some c" "ticks tick c g c1 g1" "tick c1 g1 = Some (g', None)"
  shows "whole op g = Some g'"
  using assms ticks_finish [OF assms(2) last_tick] by (auto simp: whole_iff)

lemma whole_in_steps:
  assumes "whole op g = Some g'"
  shows "\<exists>c c1 g1. enter op g = Some c \<and> ticks tick c g c1 g1 \<and> tick c1 g1 = Some (g', None)"
  using assms finishes_ticks by (fastforce simp: whole_iff)

end

subsection \<open>Tables of names\<close>

text \<open>A table that names are added to and looked up in, with room for so many.\<close>

fun add_all :: "('d \<Rightarrow> 'n \<Rightarrow> 'd option) \<Rightarrow> 'd \<Rightarrow> 'n list \<Rightarrow> 'd option" where
  "add_all add d [] = Some d"
| "add_all add d (x # xs) = do { d' \<leftarrow> add d x; add_all add d' xs }"

locale name_table =
  fixes add :: "'d \<Rightarrow> 'n \<Rightarrow> 'd option"
    and known :: "'d \<Rightarrow> 'n \<Rightarrow> bool"
    and wf :: "'d \<Rightarrow> bool"
    and room :: "'d \<Rightarrow> nat"
  assumes add_ok: "wf d \<Longrightarrow> 0 < room d \<Longrightarrow>
      \<exists>d'. add d x = Some d' \<and> wf d' \<and> room d' = room d - 1 \<and>
        (\<forall>y. known d' y = (y = x \<or> known d y))"
begin

lemma add_all_known:
  "wf d \<Longrightarrow> length xs \<le> room d \<Longrightarrow>
     \<exists>d'. add_all add d xs = Some d' \<and> wf d' \<and> (\<forall>y. known d' y = (y \<in> set xs \<or> known d y))"
proof (induction xs arbitrary: d)
  case Nil
  then show ?case by simp
next
  case (Cons x xs)
  then have "0 < room d" by simp
  with add_ok [OF Cons.prems(1) this, of x] obtain d1 where d1: "add d x = Some d1" "wf d1"
    "room d1 = room d - 1" "\<forall>y. known d1 y = (y = x \<or> known d y)" by blast
  with Cons.prems have "length xs \<le> room d1" by simp
  from Cons.IH [OF d1(2) this] d1 show ?case by auto
qed

end

end
