(* ===== verification/Registers.thy ===== *)
theory Registers
  imports Constants Interfaces
begin

text \<open>
  \<open>registers.c\<close>: the register file. \<open>struct registers_data\<close> is fifteen words \<open>regs\<close> followed
  by the word \<open>cpsr\<close>, with no padding, and every access is \<open>r->regs[reg]\<close> with \<open>reg\<close> a byte.
  On the host's layout index 15 is the word after the array, which is \<open>cpsr\<close>; a larger index
  is outside the object and the access is undefined (\<open>None\<close>). The program counter, register
  15, is therefore kept in the same word as the status register.
\<close>

record registers_data =
  regs :: "u32 list"
  cpsr :: u32

definition wf_registers :: "registers_data \<Rightarrow> bool" where
  "wf_registers r \<longleftrightarrow> length (regs r) = 15"

text \<open>\<open>fresh i\<close> is word \<open>i\<close> of the block \<open>malloc\<close> returned.\<close>

definition registers_create :: "(nat \<Rightarrow> u32) \<Rightarrow> registers_data" where
  "registers_create fresh = \<lparr>regs = map fresh [0..<15], cpsr = fresh 15\<rparr>"

definition registers_destroy :: "registers_data \<Rightarrow> registers_data option" where
  "registers_destroy r = None"

definition get_mode :: "registers_data \<Rightarrow> u8" where
  "get_mode r = 0"

definition current_mode_has_spsr :: "registers_data \<Rightarrow> int" where
  "current_mode_has_spsr r = 0"

definition in_a_privileged_mode :: "registers_data \<Rightarrow> int" where
  "in_a_privileged_mode r = 0"

definition read_usr_register :: "registers_data \<Rightarrow> u8 \<Rightarrow> u32 option" where
  "read_usr_register r k =
     (if unat k < 15 then Some (regs r ! unat k)
      else if unat k = 15 then Some (cpsr r)
      else None)"

definition read_register :: "registers_data \<Rightarrow> u8 \<Rightarrow> u32 option" where
  "read_register r k = read_usr_register r k"

definition read_cpsr :: "registers_data \<Rightarrow> u32" where
  "read_cpsr r = cpsr r"

definition read_spsr :: "registers_data \<Rightarrow> u32" where
  "read_spsr r = 0"

definition write_usr_register :: "registers_data \<Rightarrow> u8 \<Rightarrow> u32 \<Rightarrow> registers_data option" where
  "write_usr_register r k value =
     (if unat k < 15 then Some (r\<lparr>regs := (regs r)[unat k := value]\<rparr>)
      else if unat k = 15 then Some (r\<lparr>cpsr := value\<rparr>)
      else None)"

definition write_register :: "registers_data \<Rightarrow> u8 \<Rightarrow> u32 \<Rightarrow> registers_data option" where
  "write_register r k value = write_usr_register r k value"

definition write_cpsr :: "registers_data \<Rightarrow> u32 \<Rightarrow> registers_data" where
  "write_cpsr r value = r\<lparr>cpsr := value\<rparr>"

definition write_spsr :: "registers_data \<Rightarrow> u32 \<Rightarrow> registers_data" where
  "write_spsr r value = r"

subsection \<open>The register file contract\<close>

lemma wf_registers_create: "wf_registers (registers_create fresh)"
  by (simp add: wf_registers_def registers_create_def)

lemma wf_write_usr_register:
  "wf_registers r \<Longrightarrow> write_usr_register r k v = Some r' \<Longrightarrow> wf_registers r'"
  by (auto simp: wf_registers_def write_usr_register_def split: if_splits)

lemma wf_write_cpsr [simp]: "wf_registers (write_cpsr r v) = wf_registers r"
  by (simp add: wf_registers_def write_cpsr_def)

interpretation register_words: register_file
  read_usr_register write_usr_register wf_registers "\<lambda>k. unat k < 16"
  by unfold_locales
    (auto simp: read_usr_register_def write_usr_register_def wf_registers_def nth_list_update
      word_unat_eq_iff split: if_splits)

interpretation register_words_current: register_file
  read_register write_register wf_registers "\<lambda>k. unat k < 16"
  unfolding read_register_def [abs_def] write_register_def [abs_def]
  by (rule register_words.register_file_axioms)

text \<open>The word register 15 is kept in is the CPSR.\<close>

lemma read_15_is_cpsr: "read_usr_register r 15 = Some (read_cpsr r)"
  by (simp add: read_usr_register_def read_cpsr_def)

lemma write_15_is_cpsr: "write_usr_register r 15 v = Some (write_cpsr r v)"
  by (simp add: write_usr_register_def write_cpsr_def)

end
