(* ===== verification/Util.thy ===== *)
theory Util
  imports Prelude
begin

text \<open>
  \<open>util.h\<close> and \<open>util.c\<close>: the bit macros, the arithmetic shift and the rotation the decoders
  use, and the test of the host's byte order. The macros are functions here; their \<open>~0\<close> is
  the \<open>int\<close> -1, whose right shift by \<open>k\<close> is arithmetic.
\<close>

subsection \<open>Bit macros\<close>

definition get_bit :: "u32 \<Rightarrow> nat \<Rightarrow> u32" where
  "get_bit x i = drop_bit i x AND 1"

definition set_bit_macro :: "u32 \<Rightarrow> nat \<Rightarrow> u32" where
  "set_bit_macro x i = x OR push_bit i 1"

definition clr_bit :: "u32 \<Rightarrow> nat \<Rightarrow> u32" where
  "clr_bit x i = x AND NOT (push_bit i 1)"

definition ones_above :: "nat \<Rightarrow> u32" where
  "ones_above k = host_shl (signed_drop_bit (k mod 32) (NOT 0)) (int k)"

definition get_bits :: "u32 \<Rightarrow> nat \<Rightarrow> nat \<Rightarrow> u32" where
  "get_bits x h l = drop_bit l x AND NOT (ones_above (h - l + 1))"

definition set_bits :: "u32 \<Rightarrow> nat \<Rightarrow> nat \<Rightarrow> u32 \<Rightarrow> u32" where
  "set_bits x h l bits =
     (x AND NOT (ones_above l)) OR (x AND ones_above (h + 1)) OR push_bit l bits"

definition reverse_2 :: "u32 \<Rightarrow> u32" where
  "reverse_2 x = push_bit 8 (x AND 0xFF) OR (drop_bit 8 x AND 0xFF)"

definition reverse_4 :: "u32 \<Rightarrow> u32" where
  "reverse_4 x = push_bit 24 (x AND 0xFF) OR push_bit 16 (drop_bit 8 x AND 0xFF)
     OR push_bit 8 (drop_bit 16 x AND 0xFF) OR (drop_bit 24 x AND 0xFF)"

subsection \<open>util.c\<close>

definition asr :: "u32 \<Rightarrow> u8 \<Rightarrow> u32" where
  "asr value shift =
     host_shr value (uint shift) OR
     (if get_bit value 31 \<noteq> 0 then host_shl (NOT 0) (32 - uint shift) else 0)"

definition ror :: "u32 \<Rightarrow> u8 \<Rightarrow> u32" where
  "ror value rotation = host_shr value (uint rotation) OR host_shl value (32 - uint rotation)"

definition is_big_endian :: "int" where
  "is_big_endian = (if hd (host_bytes 1) = 0 then 1 else 0)"

lemma is_big_endian_host: "is_big_endian = 0"
  by (simp add: is_big_endian_def host_bytes_def)

subsection \<open>What the macros compute\<close>

lemma get_bit_eq: "get_bit x i = of_bool (bit x i)"
  by (rule bit_word_eqI) (auto simp: get_bit_def bit_simps)

lemma get_bit_eq_0 [simp]: "get_bit x i = 0 \<longleftrightarrow> \<not> bit x i"
  by (simp add: get_bit_eq)

lemma get_bit_field: "ucast (get_bit x i) = field x i 1"
  by (simp add: get_bit_def field_def)

lemma signed_drop_bit_ones: "signed_drop_bit k (NOT 0 :: u32) = NOT 0"
  by (rule bit_word_eqI) (auto simp: bit_simps)

lemma ones_above_eq: "k < 32 \<Longrightarrow> ones_above k = push_bit k (NOT 0)"
  by (simp add: ones_above_def signed_drop_bit_ones host_shl_in_range)

lemma get_bits_eq:
  assumes "l \<le> h" "h - l < 31"
  shows "get_bits x h l = take_bit (h - l + 1) (drop_bit l x)"
  using assms by (intro bit_word_eqI) (auto simp: get_bits_def ones_above_eq bit_simps)

lemma reverse_4_bytes: "reverse_4 x = host_word (rev (host_bytes x))"
proof (rule bit_word_eqI)
  fix n
  assume "n < LENGTH(32)"
  then consider "n < 8" | "8 \<le> n" "n < 16" | "16 \<le> n" "n < 24" | "24 \<le> n" "n < 32"
    by fastforce
  then show "bit (reverse_4 x) n \<longleftrightarrow> bit (host_word (rev (host_bytes x))) n"
    by cases (auto simp: reverse_4_def host_bytes_def and_255 bit_simps)
qed

lemma reverse_4_involution: "reverse_4 (reverse_4 x) = x"
  by (simp add: reverse_4_bytes)

subsection \<open>Shifts and rotations against the word library\<close>

lemma asr_eq_signed_shift:
  assumes "0 < unat k" "unat k < 32"
  shows "asr v k = signed_drop_bit (unat k) v"
proof (rule bit_word_eqI)
  fix n
  assume "n < LENGTH(32)"
  with assms show "bit (asr v k) n \<longleftrightarrow> bit (signed_drop_bit (unat k) v) n"
    unfolding asr_def host_shl_complement [OF assms] host_shr_unat [OF assms(2)]
    by (auto simp: bit_simps not_less le_diff_conv2 dest: bit_imp_le_length)
qed

lemma asr_zero:
  "asr v 0 = (if bit v 31 then - 1 else v)"
  by (simp add: asr_def host_shl_def host_shr_def)

lemma ror_zero: "ror v 0 = v"
  by (simp add: ror_def host_shl_def host_shr_def)

lemma ror_eq_rotation:
  assumes "unat k < 32"
  shows "ror v k = word_rotr (unat k) v"
proof (cases "unat k = 0")
  case True
  then show ?thesis by (intro bit_word_eqI) (simp add: unat_eq_zero ror_zero bit_simps)
next
  case False
  with assms have k: "0 < unat k" "unat k < 32" by simp_all
  show ?thesis
    unfolding ror_def host_shl_complement [OF k] host_shr_unat [OF assms]
  proof (rule bit_word_eqI)
    fix n
    assume "n < LENGTH(32)"
    then have n: "n < 32" by simp
    show "bit (drop_bit (unat k) v OR push_bit (32 - unat k) v) n
        \<longleftrightarrow> bit (word_rotr (unat k) v) n"
    proof (cases "n + unat k < 32")
      case True
      with n show ?thesis by (auto simp: bit_simps ac_simps)
    next
      case False
      with n k have "(n + unat k) mod 32 = n + unat k - 32"
        by (simp add: le_mod_geq)
      with False n k show ?thesis
        by (auto simp: bit_simps not_less le_diff_conv2 add.commute dest: bit_imp_le_length)
    qed
  qed
qed

text \<open>
  The arithmetic shift and the rotation agree with the word library for the shift counts 1 to 31
  and the rotations 0 to 31; an arithmetic shift by 0 of a negative value gives all ones on the
  host.
\<close>

lemma shifts_and_rotations:
  "(0 < unat k \<and> unat k < 32 \<longrightarrow> asr v k = signed_drop_bit (unat k) v) \<and>
   (unat k < 32 \<longrightarrow> ror v k = word_rotr (unat k) v) \<and>
   asr v 0 = (if bit v 31 then - 1 else v)"
  using asr_eq_signed_shift ror_eq_rotation asr_zero by blast

end
