(* ===== verification/Memory.thy ===== *)
theory Memory
  imports Util Interfaces
begin

text \<open>
  \<open>memory.c\<close>: the simulated memory, an array of \<open>4 * size\<close> bytes with an endianness chosen
  at creation, and its byte, half and word accesses. A read takes the present content of the
  caller's variable \<open>*value\<close> (\<open>None\<close>: indeterminate) and gives the return code with the new
  content; a write gives the return code with the new memory. \<open>None\<close> as a whole result is an
  access outside the array, which the guards of the code let through at its upper end.
\<close>

subsection \<open>The memory object\<close>

record memory_data =
  mem_size :: u64
  memo :: "u8 list"
  mem_is_big_endian :: bool

text \<open>\<open>fresh i\<close> is byte \<open>i\<close> of the block \<open>malloc\<close> returned, which the code does not clear.\<close>

definition memory_create :: "(nat \<Rightarrow> u8) \<Rightarrow> u64 \<Rightarrow> bool \<Rightarrow> memory_data" where
  "memory_create fresh n be =
     \<lparr>mem_size = n, memo = map fresh [0..<unat (4 * n)], mem_is_big_endian = be\<rparr>"

definition memory_get_size :: "memory_data \<Rightarrow> u64" where
  "memory_get_size mem = mem_size mem"

text \<open>After \<open>memory_destroy\<close> there is no object: every later access is undefined.\<close>

definition memory_destroy :: "memory_data \<Rightarrow> memory_data option" where
  "memory_destroy mem = None"

subsection \<open>Byte order\<close>

text \<open>
  The copy loop of \<open>reverse_endianess\<close>: \<open>*(--destination) = *(source++)\<close>, with
  \<open>destination\<close> starting \<open>n\<close> bytes into the result.
\<close>

fun copy_back :: "nat \<Rightarrow> u8 list \<Rightarrow> u8 list \<Rightarrow> u8 list" where
  "copy_back 0 source destination = destination"
| "copy_back (Suc n) source destination = copy_back n (tl source) (destination[n := hd source])"

text \<open>
  The guard \<open>taille == 8||16||32\<close> is true for every \<open>taille\<close> (it reads
  \<open>(taille == 8) || 16 || 32\<close>), so the branch that returns -1 is never taken.
\<close>

definition reverse_endianess :: "u32 \<Rightarrow> u8 \<Rightarrow> u32" where
  "reverse_endianess value taille =
     (let sizeOf = 4;
          sizeOf = (if taille = 16 then 2 else sizeOf);
          value = (if taille = 8 then value AND 0xFF else value);
          sizeOf = (if taille = 8 then 1 else sizeOf)
      in host_word (copy_back sizeOf (host_bytes value) [0, 0, 0, 0]))"

subsection \<open>Accesses\<close>

definition memo_at :: "memory_data \<Rightarrow> u32 \<Rightarrow> u8 option" where
  "memo_at mem i = (if unat i < length (memo mem) then Some (memo mem ! unat i) else None)"

definition memo_set :: "memory_data \<Rightarrow> u32 \<Rightarrow> u8 \<Rightarrow> memory_data option" where
  "memo_set mem i b =
     (if unat i < length (memo mem) then Some (mem\<lparr>memo := (memo mem)[unat i := b]\<rparr>) else None)"

text \<open>\<open>address/4 > mem->size\<close>, compared as \<open>size_t\<close>.\<close>

definition past_end :: "memory_data \<Rightarrow> u32 \<Rightarrow> bool" where
  "past_end mem address = ((ucast (address div 4) :: u64) > mem_size mem)"

definition memory_read_byte :: "memory_data \<Rightarrow> u32 \<Rightarrow> u8 option \<Rightarrow> (int \<times> u8 option) option" where
  "memory_read_byte mem address value =
     (if past_end mem address then Some (- 1, value)
      else do {
        v \<leftarrow> memo_at mem address;
        let v = (if \<not> mem_is_big_endian mem then ucast (reverse_endianess (ucast v) 8) else v);
        Some (0, Some v)
      })"

definition memory_read_half :: "memory_data \<Rightarrow> u32 \<Rightarrow> u16 option \<Rightarrow> (int \<times> u16 option) option" where
  "memory_read_half mem address value =
     (if past_end mem address \<or> address mod 4 > 2 then Some (- 1, value)
      else do {
        b0 \<leftarrow> memo_at mem address;
        b1 \<leftarrow> memo_at mem (address + 1);
        let v = (ucast (push_bit 8 (ucast b0) + ucast b1 :: u32) :: u16);
        let v = (if \<not> mem_is_big_endian mem then ucast (reverse_endianess (ucast v) 16) else v);
        Some (0, Some v)
      })"

definition memory_read_word :: "memory_data \<Rightarrow> u32 \<Rightarrow> u32 option \<Rightarrow> (int \<times> u32 option) option" where
  "memory_read_word mem address value =
     (if past_end mem address \<or> address mod 4 > 0 then Some (- 1, value)
      else do {
        b0 \<leftarrow> memo_at mem address;
        b1 \<leftarrow> memo_at mem (address + 1);
        b2 \<leftarrow> memo_at mem (address + 2);
        b3 \<leftarrow> memo_at mem (address + 3);
        let v = push_bit 24 (ucast b0) + push_bit 16 (ucast b1) + push_bit 8 (ucast b2) + ucast b3;
        if mem_is_big_endian mem then Some (0, Some v)
        else Some (0, Some (reverse_endianess v 32))
      })"

definition memory_write_byte :: "memory_data \<Rightarrow> u32 \<Rightarrow> u8 \<Rightarrow> (int \<times> memory_data) option" where
  "memory_write_byte mem address value =
     (if past_end mem address then Some (- 1, mem)
      else do {
        let value = (if \<not> mem_is_big_endian mem
                     then ucast (reverse_endianess (ucast value) 8) else value);
        mem \<leftarrow> memo_set mem address value;
        Some (0, mem)
      })"

definition memory_write_half :: "memory_data \<Rightarrow> u32 \<Rightarrow> u16 \<Rightarrow> (int \<times> memory_data) option" where
  "memory_write_half mem address value =
     (if past_end mem address \<or> address mod 4 > 2 then Some (- 1, mem)
      else do {
        let value = (if \<not> mem_is_big_endian mem
                     then ucast (reverse_endianess (ucast value) 16) else value);
        mem \<leftarrow> memo_set mem address (ucast (drop_bit 8 value));
        mem \<leftarrow> memo_set mem (address + 1) (ucast (value AND 255));
        Some (0, mem)
      })"

definition memory_write_word :: "memory_data \<Rightarrow> u32 \<Rightarrow> u32 \<Rightarrow> (int \<times> memory_data) option" where
  "memory_write_word mem address value =
     (if past_end mem address \<or> address mod 4 > 0 then Some (- 1, mem)
      else do {
        let value = (if \<not> mem_is_big_endian mem then reverse_endianess value 32 else value);
        mem \<leftarrow> memo_set mem address (ucast (drop_bit 24 value));
        mem \<leftarrow> memo_set mem (address + 1) (ucast (drop_bit 16 value AND 255));
        mem \<leftarrow> memo_set mem (address + 2) (ucast (drop_bit 8 value AND 255));
        mem \<leftarrow> memo_set mem (address + 3) (ucast (value AND 255));
        Some (0, mem)
      })"

subsection \<open>Well-formed memories and valid accesses\<close>

definition wf_memory :: "memory_data \<Rightarrow> bool" where
  "wf_memory mem \<longleftrightarrow> length (memo mem) = 4 * unat (mem_size mem)"

definition byte_ok :: "memory_data \<Rightarrow> u32 \<Rightarrow> bool" where
  "byte_ok mem a \<longleftrightarrow> wf_memory mem \<and> unat a < length (memo mem)"

definition half_ok :: "memory_data \<Rightarrow> u32 \<Rightarrow> bool" where
  "half_ok mem a \<longleftrightarrow> wf_memory mem \<and> unat a mod 4 \<le> 2 \<and> unat a + 1 < length (memo mem)"

definition word_ok :: "memory_data \<Rightarrow> u32 \<Rightarrow> bool" where
  "word_ok mem a \<longleftrightarrow> wf_memory mem \<and> unat a mod 4 = 0 \<and> unat a + 3 < length (memo mem)"

lemma past_end_iff: "past_end mem a \<longleftrightarrow> unat (mem_size mem) < unat a div 4"
proof -
  have "unat a div 4 < 2 ^ 64"
    using unsigned_less [of a, where ?'a = nat] by simp
  then show ?thesis
    by (simp add: past_end_def word_less_nat_alt unsigned_ucast_eq take_bit_nat_eq_self unat_div)
qed

lemma mod4_gt_0: "(a :: u32) mod 4 > 0 \<longleftrightarrow> unat a mod 4 \<noteq> 0"
  by (simp add: word_less_nat_alt unat_mod)

lemma mod4_gt_2: "(a :: u32) mod 4 > 2 \<longleftrightarrow> unat a mod 4 > 2"
  by (simp add: word_less_nat_alt unat_mod)

lemma unat_add_offset:
  assumes "unat (a :: u32) mod 4 + unat k < 4"
  shows "unat (a + k) = unat a + unat k"
proof -
  have "unat a < 4294967296" using unsigned_less [of a, where ?'a = nat] by simp
  with assms have "unat a + unat k < 4294967296" by presburger
  then show ?thesis by (simp add: unat_word_ariths)
qed

lemma word_offsets:
  assumes "unat (a :: u32) mod 4 = 0"
  shows "unat (a + 1) = unat a + 1" "unat (a + 2) = unat a + 2" "unat (a + 3) = unat a + 3"
  using assms unat_add_offset [of a 1] unat_add_offset [of a 2] unat_add_offset [of a 3]
  by simp_all

lemma half_offset: "unat (a :: u32) mod 4 \<le> 2 \<Longrightarrow> unat (a + 1) = unat a + 1"
  using unat_add_offset [of a 1] by simp

lemma in_array_not_past_end:
  "wf_memory mem \<Longrightarrow> unat a < length (memo mem) \<Longrightarrow> \<not> past_end mem a"
  by (simp add: past_end_iff wf_memory_def less_mult_imp_div_less mult.commute not_less
      less_imp_le)

lemma wf_memory_create:
  "unat n < 2 ^ 62 \<Longrightarrow> wf_memory (memory_create fresh n be)"
  by (simp add: wf_memory_def memory_create_def unat_word_ariths)

subsection \<open>Byte order as lists\<close>

text \<open>The bytes of a value in the order the memory keeps them.\<close>

definition word_layout :: "bool \<Rightarrow> u32 \<Rightarrow> u8 list" where
  "word_layout be v = (if be then rev (host_bytes v) else host_bytes v)"

definition half_layout :: "bool \<Rightarrow> u16 \<Rightarrow> u8 list" where
  "half_layout be v =
     (if be then [ucast (drop_bit 8 v), ucast v] else [ucast v, ucast (drop_bit 8 v)])"

lemma length_word_layout [simp]: "length (word_layout be v) = 4"
  by (simp add: word_layout_def)

lemma copy_back_4: "copy_back 4 [a, b, c, d] [0, 0, 0, 0] = [d, c, b, a]"
  by (simp add: numeral_eq_Suc)

lemma copy_back_2: "copy_back 2 [a, b, c, d] [0, 0, 0, 0] = [b, a, 0, 0]"
  by (simp add: numeral_eq_Suc)

lemma copy_back_1: "copy_back (Suc 0) [a, b, c, d] [0, 0, 0, 0] = [a, 0, 0, 0]"
  by simp

lemma reverse_endianess_32: "reverse_endianess v 32 = host_word (rev (host_bytes v))"
  by (simp add: reverse_endianess_def host_bytes_def copy_back_4 del: host_word.simps)

lemma reverse_endianess_16:
  "reverse_endianess v 16 = host_word [ucast (drop_bit 8 v), ucast v, 0, 0]"
  by (simp add: reverse_endianess_def host_bytes_def copy_back_2 del: host_word.simps)

lemma reverse_endianess_8: "reverse_endianess v 8 = v AND 0xFF"
  unfolding reverse_endianess_def
  by (rule bit_word_eqI)
    (auto simp: host_bytes_def copy_back_1 and_255 bit_simps dest: bit_imp_le_length)

lemma reverse_endianess_8_byte [simp]: "ucast (reverse_endianess (ucast (b :: u8)) 8) = b"
  unfolding reverse_endianess_8 by (rule bit_word_eqI) (simp add: and_255 bit_simps)

lemma reverse_endianess_32_involution: "reverse_endianess (reverse_endianess v 32) 32 = v"
  by (simp add: reverse_endianess_32)

lemma big_endian_sum:
  "push_bit 24 (ucast b0) + push_bit 16 (ucast b1) + push_bit 8 (ucast b2) + (ucast b3 :: u32)
     = host_word [b3, b2, b1, b0]" for b0 b1 b2 b3 :: u8
proof -
  have 1: "push_bit 24 (ucast b0) + push_bit 16 (ucast b1)
      = (push_bit 24 (ucast b0) OR push_bit 16 (ucast b1) :: u32)"
    by (intro disjunctive_add_eq_or bit_word_eqI)
      (auto simp: bit_simps dest: bit_imp_le_length)
  have 2: "(push_bit 24 (ucast b0) OR push_bit 16 (ucast b1)) + push_bit 8 (ucast b2)
      = (push_bit 24 (ucast b0) OR push_bit 16 (ucast b1) OR push_bit 8 (ucast b2) :: u32)"
    by (subst disjunctive_add_eq_or; (intro bit_word_eqI)?)
      (auto simp: bit_simps dest: bit_imp_le_length)
  show ?thesis
    unfolding 1 2
    by (subst disjunctive_add_eq_or; intro bit_word_eqI)
      (auto simp: bit_simps dest: bit_imp_le_length)
qed

lemma half_sum:
  "(ucast (push_bit 8 (ucast b0) + (ucast b1 :: u32)) :: u16) = word_cat b0 b1" for b0 b1 :: u8
proof -
  have "push_bit 8 (ucast b0) + (ucast b1 :: u32) = push_bit 8 (ucast b0) OR ucast b1"
    by (intro disjunctive_add_eq_or bit_word_eqI)
      (auto simp: bit_simps dest: bit_imp_le_length)
  then show ?thesis
    by (intro bit_word_eqI) (auto simp: bit_simps dest: bit_imp_le_length)
qed

lemma reverse_endianess_16_half:
  "ucast (reverse_endianess (ucast (word_cat b0 b1 :: u16)) 16) = (word_cat b1 b0 :: u16)"
  for b0 b1 :: u8
proof -
  have "(ucast (drop_bit 8 (ucast (word_cat b0 b1 :: u16) :: u32)) :: u8) = b0"
    and "(ucast (ucast (word_cat b0 b1 :: u16) :: u32) :: u8) = b1"
    by (intro bit_word_eqI, simp add: bit_simps)+
  then show ?thesis
    unfolding reverse_endianess_16
    by (intro bit_word_eqI) (auto simp: bit_simps dest: bit_imp_le_length)
qed

subsection \<open>Accesses at valid addresses\<close>

lemma memo_at_in: "unat i < length (memo mem) \<Longrightarrow> memo_at mem i = Some (memo mem ! unat i)"
  by (simp add: memo_at_def)

lemma memo_set_in:
  "unat i < length (memo mem) \<Longrightarrow>
     memo_set mem i b = Some (mem\<lparr>memo := (memo mem)[unat i := b]\<rparr>)"
  by (simp add: memo_set_def)

definition word_load :: "memory_data \<Rightarrow> u32 \<Rightarrow> u32" where
  "word_load mem a =
     (let i = unat a;
          bs = [memo mem ! i, memo mem ! (i + 1), memo mem ! (i + 2), memo mem ! (i + 3)]
      in host_word (if mem_is_big_endian mem then rev bs else bs))"

definition word_store :: "memory_data \<Rightarrow> u32 \<Rightarrow> u32 \<Rightarrow> memory_data" where
  "word_store mem a v =
     (let i = unat a; bs = word_layout (mem_is_big_endian mem) v
      in mem\<lparr>memo := (memo mem)[i := bs ! 0, i + 1 := bs ! 1, i + 2 := bs ! 2, i + 3 := bs ! 3]\<rparr>)"

definition half_load :: "memory_data \<Rightarrow> u32 \<Rightarrow> u16" where
  "half_load mem a =
     (let b0 = memo mem ! unat a; b1 = memo mem ! (unat a + 1)
      in if mem_is_big_endian mem then word_cat b0 b1 else word_cat b1 b0)"

definition half_store :: "memory_data \<Rightarrow> u32 \<Rightarrow> u16 \<Rightarrow> memory_data" where
  "half_store mem a v =
     (let i = unat a; bs = half_layout (mem_is_big_endian mem) v
      in mem\<lparr>memo := (memo mem)[i := bs ! 0, i + 1 := bs ! 1]\<rparr>)"

definition byte_store :: "memory_data \<Rightarrow> u32 \<Rightarrow> u8 \<Rightarrow> memory_data" where
  "byte_store mem a v = mem\<lparr>memo := (memo mem)[unat a := v]\<rparr>"

lemma memory_read_byte_ok:
  "byte_ok mem a \<Longrightarrow> memory_read_byte mem a x = Some (0, Some (memo mem ! unat a))"
  by (simp add: memory_read_byte_def byte_ok_def in_array_not_past_end memo_at_in Let_def)

lemma memory_write_byte_ok:
  "byte_ok mem a \<Longrightarrow> memory_write_byte mem a v = Some (0, byte_store mem a v)"
  by (simp add: memory_write_byte_def byte_ok_def in_array_not_past_end memo_set_in
      byte_store_def Let_def)

lemma memory_read_half_ok:
  "half_ok mem a \<Longrightarrow> memory_read_half mem a x = Some (0, Some (half_load mem a))"
  by (simp add: memory_read_half_def half_ok_def in_array_not_past_end memo_at_in half_offset
      mod4_gt_2 half_sum reverse_endianess_16_half half_load_def Let_def del: not_le)

lemma memory_read_word_ok:
  "word_ok mem a \<Longrightarrow> memory_read_word mem a x = Some (0, Some (word_load mem a))"
  by (simp add: memory_read_word_def word_ok_def in_array_not_past_end memo_at_in word_offsets
      mod4_gt_0 big_endian_sum reverse_endianess_32 word_load_def Let_def del: host_word.simps)

lemma memory_write_word_ok:
  assumes "word_ok mem a"
  shows "memory_write_word mem a v = Some (0, word_store mem a v)"
proof -
  have bytes: "(ucast (drop_bit n w AND 255) :: u8) = ucast (drop_bit n w)"
      "(ucast (w AND 255) :: u8) = ucast w" for n :: nat and w :: u32
    by (intro bit_word_eqI; simp add: and_255 bit_simps)+
  have rev: "host_bytes (reverse_endianess v 32) = rev (host_bytes v)"
    by (simp add: reverse_endianess_32)
  show ?thesis
    using assms rev
    by (simp add: memory_write_word_def word_ok_def in_array_not_past_end memo_set_in word_offsets
        mod4_gt_0 bytes word_store_def word_layout_def host_bytes_def Let_def)
qed

lemma memory_write_half_ok:
  assumes "half_ok mem a"
  shows "memory_write_half mem a v = Some (0, half_store mem a v)"
proof -
  have low: "(ucast (w AND 255) :: u8) = ucast w" for w :: u16
    by (intro bit_word_eqI; simp add: and_255 bit_simps)
  have cat: "v = word_cat (ucast (drop_bit 8 v) :: u8) (ucast v :: u8)"
    by (intro bit_word_eqI) (auto simp: bit_simps)
  have rev: "(ucast (reverse_endianess (ucast v) 16) :: u16)
      = word_cat (ucast v :: u8) (ucast (drop_bit 8 v) :: u8)"
    by (subst cat, subst reverse_endianess_16_half) simp
  have parts: "(ucast (drop_bit 8 (word_cat b c :: u16)) :: u8) = b"
    "(ucast (word_cat b c :: u16) :: u8) = c" for b c :: u8
    by (intro bit_word_eqI; simp add: bit_simps)+
  show ?thesis
    using assms
    by (simp add: memory_write_half_def half_ok_def in_array_not_past_end memo_set_in half_offset
        mod4_gt_2 low rev parts half_store_def half_layout_def Let_def del: not_le)
qed

subsection \<open>Stores: frame and read-back\<close>

lemma store_geometry [simp]:
  "length (memo (word_store mem a v)) = length (memo mem)"
  "mem_size (word_store mem a v) = mem_size mem"
  "mem_is_big_endian (word_store mem a v) = mem_is_big_endian mem"
  "length (memo (half_store mem a h)) = length (memo mem)"
  "mem_size (half_store mem a h) = mem_size mem"
  "mem_is_big_endian (half_store mem a h) = mem_is_big_endian mem"
  "length (memo (byte_store mem a b)) = length (memo mem)"
  "mem_size (byte_store mem a b) = mem_size mem"
  "mem_is_big_endian (byte_store mem a b) = mem_is_big_endian mem"
  by (simp_all add: word_store_def half_store_def byte_store_def Let_def)

lemma store_wf [simp]:
  "wf_memory (word_store mem a v) = wf_memory mem"
  "wf_memory (half_store mem a h) = wf_memory mem"
  "wf_memory (byte_store mem a b) = wf_memory mem"
  by (simp_all add: wf_memory_def)

lemma store_ok [simp]:
  "word_ok (word_store mem a v) b = word_ok mem b"
  "half_ok (half_store mem a h) b = half_ok mem b"
  "byte_ok (byte_store mem a c) b = byte_ok mem b"
  by (simp_all add: word_ok_def half_ok_def byte_ok_def)

lemma word_store_nth:
  assumes "word_ok mem a"
  shows "memo (word_store mem a v) ! j =
    (if unat a \<le> j \<and> j < unat a + 4
     then word_layout (mem_is_big_endian mem) v ! (j - unat a) else memo mem ! j)"
proof -
  have "j = unat a \<or> j = unat a + 1 \<or> j = unat a + 2 \<or> j = unat a + 3 \<or>
      \<not> (unat a \<le> j \<and> j < unat a + 4)" by linarith
  then show ?thesis
    using assms by (elim disjE) (auto simp: word_store_def word_ok_def nth_list_update Let_def)
qed

lemma half_store_nth:
  assumes "half_ok mem a"
  shows "memo (half_store mem a v) ! j =
    (if unat a \<le> j \<and> j < unat a + 2
     then half_layout (mem_is_big_endian mem) v ! (j - unat a) else memo mem ! j)"
proof -
  have "j = unat a \<or> j = unat a + 1 \<or> \<not> (unat a \<le> j \<and> j < unat a + 2)" by linarith
  then show ?thesis
    using assms by (elim disjE) (auto simp: half_store_def half_ok_def nth_list_update Let_def)
qed

lemma word_load_store:
  assumes "word_ok mem a"
  shows "word_load (word_store mem a v) a = v"
proof -
  have "host_word (host_bytes v) = host_word [host_bytes v ! 0, host_bytes v ! 1,
      host_bytes v ! 2, host_bytes v ! 3]"
    by (simp add: host_bytes_def)
  then show ?thesis
    by (simp add: word_load_def word_layout_def word_store_nth [OF assms] rev_nth Let_def
        del: host_word.simps)
qed

lemma word_load_store_apart:
  assumes "word_ok mem a" "word_ok mem b" "a \<noteq> b"
  shows "word_load (word_store mem a v) b = word_load mem b"
proof -
  from assms have "unat a mod 4 = 0" "unat b mod 4 = 0" "unat a \<noteq> unat b"
    by (auto simp: word_ok_def word_unat_eq_iff)
  then have "unat b + 4 \<le> unat a \<or> unat a + 4 \<le> unat b" by presburger
  then show ?thesis
    by (auto simp: word_load_def word_store_nth [OF assms(1)] Let_def)
qed

lemma word_cat_parts: "word_cat (ucast (drop_bit 8 v) :: u8) (ucast v :: u8) = (v :: u16)"
  by (intro bit_word_eqI) (auto simp: bit_simps)

lemma half_load_store:
  assumes "half_ok mem a"
  shows "half_load (half_store mem a v) a = v"
  using half_store_nth [OF assms]
  by (simp add: half_load_def half_layout_def word_cat_parts Let_def)

definition half_apart :: "u32 \<Rightarrow> u32 \<Rightarrow> bool" where
  "half_apart a b \<longleftrightarrow> unat a + 2 \<le> unat b \<or> unat b + 2 \<le> unat a"

lemma half_load_store_apart:
  assumes "half_ok mem a" "half_apart a b"
  shows "half_load (half_store mem a v) b = half_load mem b"
  using assms(2) by (auto simp: half_load_def half_store_nth [OF assms(1)] half_apart_def Let_def)

subsection \<open>The memory provides addressable cells at each width\<close>

interpretation word_cells: cell_access memory_read_word memory_write_word word_ok "(\<noteq>)"
  by unfold_locales
    (auto simp: memory_write_word_ok memory_read_word_ok word_load_store word_load_store_apart)

interpretation half_cells: cell_access memory_read_half memory_write_half half_ok half_apart
  by unfold_locales
    (auto simp: memory_write_half_ok memory_read_half_ok half_load_store half_load_store_apart)

interpretation byte_cells: cell_access memory_read_byte memory_write_byte byte_ok "(\<noteq>)"
  by unfold_locales
    (auto simp: memory_write_byte_ok memory_read_byte_ok byte_store_def byte_ok_def wf_memory_def
      word_unat_eq_iff)

text \<open>
  A halfword written at any address whose offset in its word is at most 2, odd ones included,
  reads back, has its bytes in the order of the endianness, and leaves every other byte.
\<close>

lemma half_store_bytes:
  assumes ok: "half_ok m a" and st: "memory_write_half m a v = Some (0, m')" and b: "byte_ok m b"
  shows "memory_read_half m' a y = Some (0, Some v) \<and> memory_read_byte m' b x = Some (0, Some
    (if unat b = unat a then (if mem_is_big_endian m then ucast (drop_bit 8 v) else ucast v)
     else if unat b = unat a + 1 then (if mem_is_big_endian m then ucast v else ucast (drop_bit 8 v))
     else memo m ! unat b))"
proof -
  from st memory_write_half_ok [OF ok] have m': "m' = half_store m a v" by simp
  have "byte_ok m' b" using b by (simp add: m' byte_ok_def)
  moreover have "memo (half_store m a v) ! unat b =
    (if unat b = unat a then (if mem_is_big_endian m then ucast (drop_bit 8 v) else ucast v)
     else if unat b = unat a + 1 then (if mem_is_big_endian m then ucast v else ucast (drop_bit 8 v))
     else memo m ! unat b)"
  proof -
    have "unat b = unat a \<or> unat b = unat a + 1 \<or> \<not> (unat a \<le> unat b \<and> unat b < unat a + 2)"
      by linarith
    then show ?thesis
      by (elim disjE) (auto simp: half_store_nth [OF ok] half_layout_def)
  qed
  ultimately show ?thesis
    using half_cells.rd_same [OF ok st] by (simp add: memory_read_byte_ok m')
qed

text \<open>
  A word write puts the four bytes of the word at the address in the order of the memory's
  endianness, the most significant first when it is big, and leaves every other byte.
\<close>

lemma word_store_bytes:
  assumes ok: "word_ok m a" and st: "memory_write_word m a v = Some (0, m')" and b: "byte_ok m b"
  shows "memory_read_byte m' b x = Some (0, Some
    (if unat a \<le> unat b \<and> unat b < unat a + 4
     then (if mem_is_big_endian m then rev (host_bytes v) else host_bytes v) ! (unat b - unat a)
     else memo m ! unat b))"
proof -
  from st memory_write_word_ok [OF ok] have m': "m' = word_store m a v" by simp
  have "byte_ok m' b" using b by (simp add: m' byte_ok_def)
  then show ?thesis
    by (simp add: memory_read_byte_ok m' word_store_nth [OF ok] word_layout_def)
qed

text \<open>
  After any sequence of word writes to distinct valid addresses, each word reads back as it was
  written.
\<close>

lemma word_stores_then_load:
  assumes "distinct (map fst stores)" "\<forall>(a, v) \<in> set stores. word_ok m a"
    and "store_all memory_write_word m stores = Some m'" "(a, v) \<in> set stores"
  shows "memory_read_word m' a x = Some (0, Some v)"
proof -
  have "sorted_wrt (\<lambda>p q. fst q \<noteq> fst p) stores"
    using assms(1) by (induction stores) (auto simp: image_iff)
  then show ?thesis using assms(2-4) by (rule word_cells.store_all_load)
qed

subsection \<open>Properties\<close>

text \<open>
  C19: A word read returns -1 and leaves the variable when the address is unaligned or lies
  beyond the word after the end; at the first word after the end the guard lets it through and
  it reads outside the array; everywhere else it returns the word.
\<close>

lemma word_read_outcomes:
  assumes wf: "wf_memory m"
  shows "memory_read_word m a x =
    (if unat a mod 4 \<noteq> 0 \<or> unat (mem_size m) < unat a div 4 then Some (- 1, x)
     else if unat a div 4 = unat (mem_size m) then None
     else Some (0, Some (word_load m a)))"
proof (cases "unat a mod 4 \<noteq> 0 \<or> unat (mem_size m) < unat a div 4")
  case True
  then show ?thesis by (auto simp: memory_read_word_def past_end_iff mod4_gt_0)
next
  case False
  then have al: "unat a mod 4 = 0" and le: "unat a div 4 \<le> unat (mem_size m)" by simp_all
  have a: "unat a = 4 * (unat a div 4)" using al by presburger
  show ?thesis
  proof (cases "unat a div 4 = unat (mem_size m)")
    case True
    then have "\<not> unat a < length (memo m)" using wf a by (simp add: wf_memory_def)
    then have "memory_read_word m a x = None"
      using False by (simp add: memory_read_word_def past_end_iff mod4_gt_0 memo_at_def)
    with True False show ?thesis by simp
  next
    case nt: False
    then have "word_ok m a" using wf al le a by (simp add: wf_memory_def word_ok_def)
    with nt False show ?thesis by (simp add: memory_read_word_ok)
  qed
qed

lemma word_read_outcomes_witness:
  "memory_read_word (memory_create (\<lambda>_. 0) 2 True) 8 None = None \<and>
   memory_read_word (memory_create (\<lambda>_. 0) 2 True) 12 None = Some (- 1, None)"
proof -
  let ?m = "memory_create (\<lambda>_. 0) 2 True"
  have "wf_memory ?m" by code_simp
  note out = word_read_outcomes [OF this]
  have "unat (8 :: u32) div 4 = unat (mem_size ?m)" "unat (mem_size ?m) < unat (12 :: u32) div 4"
    by code_simp+
  then show ?thesis unfolding out by simp
qed

end
