(* ===== verification/ArmCore.thy ===== *)
theory ArmCore
  imports Registers Memory
begin

text \<open>
  \<open>arm_core.c\<close> and \<open>arm_exception.c\<close>: the processor state (cycle counter, registers, memory)
  with its accessors, the instruction fetch, and the raising of exceptions. The accessors also
  call \<open>trace_register\<close> and \<open>trace_memory\<close>, which do not change the core (the theory \<open>Trace\<close> has
  the accessors with these calls); the core is modelled without them.
\<close>

record arm_core_data =
  cycle_count :: u32
  reg :: registers_data
  mem :: memory_data

subsection \<open>Register accesses\<close>

definition arm_current_mode_has_spsr :: "arm_core_data \<Rightarrow> int" where
  "arm_current_mode_has_spsr p = current_mode_has_spsr (reg p)"

definition arm_in_a_privileged_mode :: "arm_core_data \<Rightarrow> int" where
  "arm_in_a_privileged_mode p = in_a_privileged_mode (reg p)"

definition arm_get_cycle_count :: "arm_core_data \<Rightarrow> u32" where
  "arm_get_cycle_count p = cycle_count p"

definition arm_read_register :: "arm_core_data \<Rightarrow> u8 \<Rightarrow> u32 option" where
  "arm_read_register p r =
     do { value \<leftarrow> read_register (reg p) r;
          Some (if r = 15 then (value + 4) AND 0xFFFFFFFD else value) }"

definition arm_read_usr_register :: "arm_core_data \<Rightarrow> u8 \<Rightarrow> u32 option" where
  "arm_read_usr_register p r =
     do { value \<leftarrow> read_usr_register (reg p) r;
          Some (if r = 15 then (value + 4) AND 0xFFFFFFFD else value) }"

definition arm_read_cpsr :: "arm_core_data \<Rightarrow> u32" where
  "arm_read_cpsr p = read_cpsr (reg p)"

definition arm_read_spsr :: "arm_core_data \<Rightarrow> u32" where
  "arm_read_spsr p = read_spsr (reg p)"

definition arm_write_register :: "arm_core_data \<Rightarrow> u8 \<Rightarrow> u32 \<Rightarrow> arm_core_data option" where
  "arm_write_register p r value =
     do { rs \<leftarrow> write_register (reg p) r value; Some (p\<lparr>reg := rs\<rparr>) }"

definition arm_write_usr_register :: "arm_core_data \<Rightarrow> u8 \<Rightarrow> u32 \<Rightarrow> arm_core_data option" where
  "arm_write_usr_register p r value =
     do { rs \<leftarrow> write_usr_register (reg p) r value; Some (p\<lparr>reg := rs\<rparr>) }"

definition arm_write_cpsr :: "arm_core_data \<Rightarrow> u32 \<Rightarrow> arm_core_data" where
  "arm_write_cpsr p value = p\<lparr>reg := write_cpsr (reg p) value\<rparr>"

definition arm_write_spsr :: "arm_core_data \<Rightarrow> u32 \<Rightarrow> arm_core_data" where
  "arm_write_spsr p value = p\<lparr>reg := write_spsr (reg p) value\<rparr>"

subsection \<open>Memory accesses\<close>

text \<open>The variable \<open>*value\<close> of a read is passed in and out, as for \<open>memory_read_word\<close>.\<close>

definition arm_read_byte :: "arm_core_data \<Rightarrow> u32 \<Rightarrow> u8 option \<Rightarrow> (int \<times> u8 option) option" where
  "arm_read_byte p address value = memory_read_byte (mem p) address value"

definition arm_read_half :: "arm_core_data \<Rightarrow> u32 \<Rightarrow> u16 option \<Rightarrow> (int \<times> u16 option) option" where
  "arm_read_half p address value = memory_read_half (mem p) address value"

definition arm_read_word :: "arm_core_data \<Rightarrow> u32 \<Rightarrow> u32 option \<Rightarrow> (int \<times> u32 option) option" where
  "arm_read_word p address value = memory_read_word (mem p) address value"

definition arm_write_byte :: "arm_core_data \<Rightarrow> u32 \<Rightarrow> u8 \<Rightarrow> (int \<times> arm_core_data) option" where
  "arm_write_byte p address value =
     do { (result, m) \<leftarrow> memory_write_byte (mem p) address value; Some (result, p\<lparr>mem := m\<rparr>) }"

definition arm_write_half :: "arm_core_data \<Rightarrow> u32 \<Rightarrow> u16 \<Rightarrow> (int \<times> arm_core_data) option" where
  "arm_write_half p address value =
     do { (result, m) \<leftarrow> memory_write_half (mem p) address value; Some (result, p\<lparr>mem := m\<rparr>) }"

definition arm_write_word :: "arm_core_data \<Rightarrow> u32 \<Rightarrow> u32 \<Rightarrow> (int \<times> arm_core_data) option" where
  "arm_write_word p address value =
     do { (result, m) \<leftarrow> memory_write_word (mem p) address value; Some (result, p\<lparr>mem := m\<rparr>) }"

subsection \<open>Fetch\<close>

definition arm_fetch :: "arm_core_data \<Rightarrow> u32 option \<Rightarrow> (int \<times> u32 option \<times> arm_core_data) option" where
  "arm_fetch p value =
     do {
       let p = p\<lparr>cycle_count := cycle_count p + 1\<rparr>;
       r15 \<leftarrow> arm_read_register p 15;
       let address = r15 - 4;
       (result, value) \<leftarrow> memory_read_word (mem p) address value;
       p \<leftarrow> arm_write_register p 15 (address + 4);
       Some (result, value, p)
     }"

subsection \<open>Exceptions and creation\<close>

definition CP15_reg1_EEbit :: u32 where "CP15_reg1_EEbit = 0"

definition Exception_bit_9 :: u32 where "Exception_bit_9 = push_bit 9 CP15_reg1_EEbit"

definition arm_exception :: "arm_core_data \<Rightarrow> u8 \<Rightarrow> arm_core_data option" where
  "arm_exception p exception =
     (if exception = word_of_int RESET
      then let p = arm_write_cpsr p (0x1d3 OR Exception_bit_9)
           in arm_write_usr_register p 15 0
      else Some p)"

text \<open>
  \<open>fresh\<close> and \<open>cycles\<close> are the contents of the blocks \<open>malloc\<close> returned for the registers and
  for the core.
\<close>

definition arm_create :: "(nat \<Rightarrow> u32) \<Rightarrow> u32 \<Rightarrow> memory_data \<Rightarrow> arm_core_data option" where
  "arm_create fresh cycles m =
     do {
       let p = \<lparr>cycle_count = cycles, reg = registers_create fresh, mem = m\<rparr>;
       p \<leftarrow> arm_exception p (word_of_int RESET);
       Some (p\<lparr>cycle_count := 0\<rparr>)
     }"

definition arm_destroy :: "arm_core_data \<Rightarrow> arm_core_data option" where
  "arm_destroy p = do { rs \<leftarrow> registers_destroy (reg p); None }"

subsection \<open>Well-formed cores\<close>

definition wf_core :: "arm_core_data \<Rightarrow> bool" where
  "wf_core p \<longleftrightarrow> wf_registers (reg p) \<and> wf_memory (mem p)"

text \<open>The word that holds both the program counter and the status register.\<close>

definition pc_word :: "arm_core_data \<Rightarrow> u32" where
  "pc_word p = cpsr (reg p)"

lemma aligned_no_bit_1:
  assumes "unat (x :: u32) mod 4 = 0"
  shows "\<not> bit x 1" "\<not> bit x 0"
proof -
  from assms have "take_bit 2 (unat x) = 0" by (simp add: take_bit_eq_mod)
  then have "take_bit 2 x = 0"
    by (metis unat_eq_zero unsigned_take_bit_eq)
  then have "bit (take_bit 2 x) n = False" for n by simp
  from this [of 1] this [of 0] show "\<not> bit x 1" "\<not> bit x 0" by (simp_all add: bit_take_bit_iff)
qed

lemma clear_bit_1: "\<not> bit x 1 \<Longrightarrow> (x :: u32) AND 0xFFFFFFFD = x"
proof -
  assume "\<not> bit x 1"
  then have "x AND NOT (push_bit 1 1) = x"
    by (intro bit_word_eqI) (auto simp: bit_simps)
  moreover have "(0xFFFFFFFD :: u32) = NOT (push_bit 1 1)" by simp
  ultimately show ?thesis by (simp only:)
qed

lemma unat_add_4_mod: "unat (x + 4 :: u32) mod 4 = unat x mod 4"
  by (simp add: unat_word_ariths mod_mod_cancel)

lemma aligned_pc_read: "unat (x :: u32) mod 4 = 0 \<Longrightarrow> (x + 4) AND 0xFFFFFFFD = x + 4"
  by (intro clear_bit_1 aligned_no_bit_1) (simp add: unat_add_4_mod)


lemma wf_core_update [simp]:
  "wf_core (p\<lparr>cycle_count := c\<rparr>) = wf_core p"
  "wf_core (p\<lparr>reg := rs\<rparr>) = (wf_registers rs \<and> wf_memory (mem p))"
  "wf_core (p\<lparr>mem := m\<rparr>) = (wf_registers (reg p) \<and> wf_memory m)"
  by (simp_all add: wf_core_def)

lemma arm_read_low: "unat r < 15 \<Longrightarrow> arm_read_usr_register p r = Some (regs (reg p) ! unat r)"
  by (auto simp: arm_read_usr_register_def read_usr_register_def)

lemma arm_read_pc: "arm_read_usr_register p 15 = Some ((pc_word p + 4) AND 0xFFFFFFFD)"
  by (simp add: arm_read_usr_register_def read_usr_register_def pc_word_def)

lemma arm_read_defined_iff: "arm_read_usr_register p r = None \<longleftrightarrow> 16 \<le> unat r"
  by (auto simp: arm_read_usr_register_def read_usr_register_def)

lemma arm_read_register_same: "arm_read_register = arm_read_usr_register"
  by (simp add: fun_eq_iff arm_read_register_def arm_read_usr_register_def read_register_def)

lemma arm_write_register_same: "arm_write_register = arm_write_usr_register"
  by (simp add: fun_eq_iff arm_write_register_def arm_write_usr_register_def write_register_def)

lemma arm_write_low:
  "unat r < 15 \<Longrightarrow> arm_write_usr_register p r v =
     Some (p\<lparr>reg := (reg p)\<lparr>regs := (regs (reg p))[unat r := v]\<rparr>\<rparr>)"
  by (simp add: arm_write_usr_register_def write_usr_register_def)

lemma arm_write_pc:
  "arm_write_usr_register p 15 v = Some (p\<lparr>reg := (reg p)\<lparr>cpsr := v\<rparr>\<rparr>)"
  by (simp add: arm_write_usr_register_def write_usr_register_def)

lemma arm_write_defined_iff: "arm_write_usr_register p r v = None \<longleftrightarrow> 16 \<le> unat r"
  by (auto simp: arm_write_usr_register_def write_usr_register_def)

lemma arm_write_frame:
  "arm_write_usr_register p r v = Some p' \<Longrightarrow> mem p' = mem p \<and> cycle_count p' = cycle_count p"
  by (auto simp: arm_write_usr_register_def split: Option.bind_splits)

lemma arm_write_wf: "wf_core p \<Longrightarrow> arm_write_usr_register p r v = Some p' \<Longrightarrow> wf_core p'"
  by (auto simp: arm_write_usr_register_def wf_core_def split: Option.bind_splits
      intro: wf_write_usr_register)

interpretation core_registers: register_file
  arm_read_usr_register arm_write_usr_register wf_core "\<lambda>k. unat k < 15"
proof unfold_locales
  show "wf_core p \<Longrightarrow> arm_write_usr_register p r v = Some p' \<Longrightarrow> wf_core p'" for p r v p'
    by (rule arm_write_wf)
qed (auto simp: arm_read_low arm_write_low wf_core_def wf_registers_def nth_list_update
      word_unat_eq_iff)

lemma memory_write_wf:
  "wf_memory m \<Longrightarrow> memory_write_byte m a b = Some (r, m') \<Longrightarrow> wf_memory m'"
  "wf_memory m \<Longrightarrow> memory_write_half m a h = Some (r, m') \<Longrightarrow> wf_memory m'"
  "wf_memory m \<Longrightarrow> memory_write_word m a w = Some (r, m') \<Longrightarrow> wf_memory m'"
  by (auto simp: memory_write_byte_def memory_write_half_def memory_write_word_def memo_set_def
      wf_memory_def Let_def split: if_splits)

lemma memory_write_geometry:
  "memory_write_byte m a b = Some (r, m') \<Longrightarrow>
     mem_size m' = mem_size m \<and> mem_is_big_endian m' = mem_is_big_endian m"
  "memory_write_half m a h = Some (r, m') \<Longrightarrow>
     mem_size m' = mem_size m \<and> mem_is_big_endian m' = mem_is_big_endian m"
  "memory_write_word m a w = Some (r, m') \<Longrightarrow>
     mem_size m' = mem_size m \<and> mem_is_big_endian m' = mem_is_big_endian m"
  by (auto simp: memory_write_byte_def memory_write_half_def memory_write_word_def memo_set_def
      Let_def split: if_splits)

interpretation core_words: cell_access
  arm_read_word arm_write_word "\<lambda>p. word_ok (mem p)" "(\<noteq>)"
  by unfold_locales
    (auto simp: arm_read_word_def arm_write_word_def memory_write_word_ok memory_read_word_ok
      word_load_store word_load_store_apart)

interpretation core_halves: cell_access
  arm_read_half arm_write_half "\<lambda>p. half_ok (mem p)" half_apart
  by unfold_locales
    (auto simp: arm_read_half_def arm_write_half_def memory_write_half_ok memory_read_half_ok
      half_load_store half_load_store_apart)

interpretation core_bytes: cell_access
  arm_read_byte arm_write_byte "\<lambda>p. byte_ok (mem p)" "(\<noteq>)"
  by unfold_locales
    (auto simp: arm_read_byte_def arm_write_byte_def memory_write_byte_ok
      byte_cells.rd_same byte_cells.rd_apart)

subsection \<open>Fetch and reset\<close>

lemma arm_fetch_ok:
  assumes "word_ok (mem p) (pc_word p)"
  shows "arm_fetch p x = Some (0, Some (word_load (mem p) (pc_word p)),
    p\<lparr>cycle_count := cycle_count p + 1, reg := (reg p)\<lparr>cpsr := pc_word p + 4\<rparr>\<rparr>)"
proof -
  from assms have "unat (pc_word p) mod 4 = 0" by (simp add: word_ok_def)
  then have "(pc_word p + 4) AND 0xFFFFFFFD = pc_word p + 4" by (rule aligned_pc_read)
  moreover have "pc_word (p\<lparr>cycle_count := c\<rparr>) = pc_word p" for c
    by (simp add: pc_word_def)
  ultimately show ?thesis
    using assms
    by (simp add: arm_fetch_def arm_read_register_same arm_write_register_same arm_read_pc
        arm_write_pc memory_read_word_ok Let_def)
qed

lemma arm_exception_reset:
  "arm_exception p 1 = Some (p\<lparr>reg := (reg p)\<lparr>cpsr := 0\<rparr>\<rparr>)"
  by (simp add: arm_exception_def arm_write_pc arm_write_cpsr_def write_cpsr_def Let_def)

lemma arm_exception_other: "e \<noteq> 1 \<Longrightarrow> arm_exception p e = Some p"
  by (simp add: arm_exception_def)

lemma arm_exception_total: "\<exists>p'. arm_exception p e = Some p'"
  by (cases "e = 1") (simp_all add: arm_exception_reset arm_exception_other)

lemma arm_exception_frame:
  "arm_exception p e = Some p' \<Longrightarrow>
     mem p' = mem p \<and> cycle_count p' = cycle_count p \<and> regs (reg p') = regs (reg p)"
  by (cases "e = 1") (auto simp: arm_exception_reset arm_exception_other)

subsection \<open>What every operation keeps\<close>

text \<open>
  \<open>keeps p q\<close>: \<open>q\<close> is well-formed if \<open>p\<close> is, and has its memory geometry and cycle count. The
  rules in \<open>core_frame\<close> read it off each write; a chain of writes is closed by unfolding.
\<close>

definition keeps :: "arm_core_data \<Rightarrow> arm_core_data \<Rightarrow> bool" where
  "keeps p q \<longleftrightarrow> (wf_core p \<longrightarrow> wf_core q) \<and> mem_size (mem q) = mem_size (mem p) \<and>
     mem_is_big_endian (mem q) = mem_is_big_endian (mem p) \<and> cycle_count q = cycle_count p"

lemma keeps_refl [simp]: "keeps p p"
  by (simp add: keeps_def)

lemma keeps_trans: "keeps p q \<Longrightarrow> keeps q s \<Longrightarrow> keeps p s"
  by (simp add: keeps_def)

lemma keeps_write_register [core_frame]:
  "arm_write_usr_register q r v = Some q' \<Longrightarrow> keeps q q'"
  using arm_write_wf arm_write_frame by (fastforce simp: keeps_def)

lemma keeps_write_cpsr [simp]: "keeps q (arm_write_cpsr q v)"
  by (simp add: keeps_def arm_write_cpsr_def wf_core_def)

lemma arm_write_memory_cases:
  "arm_write_byte q a b = Some (r, q') \<Longrightarrow>
     \<exists>m. memory_write_byte (mem q) a b = Some (r, m) \<and> q' = q\<lparr>mem := m\<rparr>"
  "arm_write_half q a h = Some (r, q') \<Longrightarrow>
     \<exists>m. memory_write_half (mem q) a h = Some (r, m) \<and> q' = q\<lparr>mem := m\<rparr>"
  "arm_write_word q a w = Some (r, q') \<Longrightarrow>
     \<exists>m. memory_write_word (mem q) a w = Some (r, m) \<and> q' = q\<lparr>mem := m\<rparr>"
  by (auto simp: arm_write_byte_def arm_write_half_def arm_write_word_def split: Option.bind_splits)

lemma keeps_write_memory [core_frame]:
  "arm_write_byte q a b = Some (r, q') \<Longrightarrow> keeps q q'"
  "arm_write_half q a h = Some (r, q') \<Longrightarrow> keeps q q'"
  "arm_write_word q a w = Some (r, q') \<Longrightarrow> keeps q q'"
  by (auto dest!: arm_write_memory_cases simp: keeps_def wf_core_def
      dest: memory_write_wf memory_write_geometry)

lemma keeps_exception [core_frame]: "arm_exception q e = Some q' \<Longrightarrow> keeps q q'"
  by (cases "e = 1")
    (auto simp: arm_exception_reset arm_exception_other keeps_def wf_core_def wf_registers_def)

text \<open>
  The program counter and the CPSR are one word: writing register 15 writes the CPSR, and a
  written CPSR is what register 15 reads, plus 4 with bit 1 cleared; nothing else changes.
\<close>

lemma pc_is_status_register:
  assumes "arm_write_usr_register p 15 v = Some q"
  shows "arm_read_cpsr q = v \<and> arm_read_usr_register (arm_write_cpsr p w) 15
    = Some ((w + 4) AND 0xFFFFFFFD) \<and> mem q = mem p \<and> regs (reg q) = regs (reg p)"
  using assms
  by (auto simp: arm_write_pc arm_read_pc arm_read_cpsr_def arm_write_cpsr_def read_cpsr_def
      write_cpsr_def pc_word_def)

end
