(* ===== verification/DataProcessing.thy ===== *)
theory DataProcessing
  imports ArmCore
begin

text \<open>
  \<open>arm_data_processing.c\<close>: the flag helpers and the sixteen data-processing instructions. The
  shifter operand is the 16-bit variable of the code. Every instruction passes its arguments to
  \<open>update_flags\<close> in the order of the code, which is not the order of \<open>update_flags\<close>'s
  parameters; register reads that feed the flags happen after the destination is written, as
  in the code. An instruction gives its return code with the new core.
\<close>

definition arm_data_processing_shift :: "arm_core_data \<Rightarrow> u32 \<Rightarrow> int" where
  "arm_data_processing_shift p ins = UNDEFINED_INSTRUCTION"

definition arm_data_processing_immediate_msr :: "arm_core_data \<Rightarrow> u32 \<Rightarrow> int" where
  "arm_data_processing_immediate_msr p ins = UNDEFINED_INSTRUCTION"

subsection \<open>Flags\<close>

definition set_1_bit :: "u32 \<Rightarrow> u8 \<Rightarrow> u8 \<Rightarrow> u32" where
  "set_1_bit res num_bit new_bit =
     (let masque = NOT (host_shl 1 (uint num_bit));
          res = res AND masque
      in res OR host_shl (ucast new_bit) (uint num_bit))"

text \<open>The results of \<open>set_1_bit\<close> are discarded, as in the code.\<close>

definition write_flags :: "arm_core_data \<Rightarrow> u8 \<Rightarrow> u8 \<Rightarrow> u8 \<Rightarrow> arm_core_data option" where
  "write_flags p Rdest flag_C flag_V =
     do {
       let new_CPSR = arm_read_cpsr p;
       rd \<leftarrow> arm_read_usr_register p Rdest;
       let _ = set_1_bit new_CPSR (of_nat flag_N_bit) (ucast (drop_bit 31 rd AND 1));
       rd \<leftarrow> arm_read_usr_register p Rdest;
       let _ = set_1_bit new_CPSR (of_nat flag_Z_bit) (of_bool (rd = 0));
       let _ = (if flag_C \<noteq> 0xFF then set_1_bit new_CPSR (of_nat flag_C_bit) flag_C else new_CPSR);
       let _ = (if flag_V \<noteq> 0xFF then set_1_bit new_CPSR (of_nat flag_V_bit) flag_V else new_CPSR);
       Some (arm_write_cpsr p new_CPSR)
     }"

definition update_flags :: "arm_core_data \<Rightarrow> u8 \<Rightarrow> u8 \<Rightarrow> u8 \<Rightarrow> u8 \<Rightarrow> arm_core_data option" where
  "update_flags p Rdest S flag_C flag_V =
     (if S = 1 \<and> Rdest = 15
      then (if arm_current_mode_has_spsr p \<noteq> 0
            then Some (arm_write_cpsr p (arm_read_spsr p)) else Some p)
      else if S = 1 then write_flags p Rdest flag_C flag_V
      else Some p)"

definition borrowFrom :: "u32 \<Rightarrow> u32 \<Rightarrow> u8" where
  "borrowFrom operande1 operande2 = of_bool (operande1 < operande2)"

text \<open>\<open>temp\<close> is an \<open>int\<close>, compared as unsigned with \<open>operande2\<close>.\<close>

definition carryFrom :: "u32 \<Rightarrow> u32 \<Rightarrow> u8" where
  "carryFrom operande1 operande2 =
     (let max = NOT 0; temp = max - operande1 in of_bool (operande2 > temp))"

definition overflowFrom :: "u32 \<Rightarrow> u32 \<Rightarrow> u32 \<Rightarrow> u8 \<Rightarrow> u8" where
  "overflowFrom operande1 operande2 result operation =
     (if operation = 1
      then of_bool (drop_bit 31 operande1 = drop_bit 31 operande2 \<and>
                    drop_bit 31 operande1 = drop_bit 31 result)
      else of_bool (drop_bit 31 operande1 \<noteq> drop_bit 31 operande2 \<and>
                    drop_bit 31 operande1 \<noteq> drop_bit 31 result))"

subsection \<open>Logical and move instructions\<close>

definition and_instr ::
  "arm_core_data \<Rightarrow> u8 \<Rightarrow> u8 \<Rightarrow> u16 \<Rightarrow> u8 \<Rightarrow> u8 \<Rightarrow> (int \<times> arm_core_data) option" where
  "and_instr p Rsource Rdest shifter_operand shifter_carry_out S =
     do {
       rn \<leftarrow> arm_read_usr_register p Rsource;
       let value = rn AND ucast shifter_operand;
       p \<leftarrow> arm_write_usr_register p Rdest value;
       p \<leftarrow> update_flags p S Rdest shifter_carry_out 0xFF;
       Some (0, p)
     }"

definition xor_instr ::
  "arm_core_data \<Rightarrow> u8 \<Rightarrow> u8 \<Rightarrow> u16 \<Rightarrow> u8 \<Rightarrow> u8 \<Rightarrow> (int \<times> arm_core_data) option" where
  "xor_instr p Rsource Rdest shifter_operand shifter_carry_out S =
     do {
       rn \<leftarrow> arm_read_usr_register p Rsource;
       let value = rn XOR ucast shifter_operand;
       p \<leftarrow> arm_write_usr_register p Rdest value;
       p \<leftarrow> update_flags p S Rdest shifter_carry_out 0xFF;
       Some (0, p)
     }"

definition orr_instr ::
  "arm_core_data \<Rightarrow> u8 \<Rightarrow> u8 \<Rightarrow> u16 \<Rightarrow> u8 \<Rightarrow> u8 \<Rightarrow> (int \<times> arm_core_data) option" where
  "orr_instr p Rsource Rdest shifter_operand shifter_carry_out S =
     do {
       rn \<leftarrow> arm_read_usr_register p Rsource;
       let value = rn OR ucast shifter_operand;
       p \<leftarrow> arm_write_usr_register p Rdest value;
       p \<leftarrow> update_flags p S Rdest shifter_carry_out 0xFF;
       Some (0, p)
     }"

definition bic_instr ::
  "arm_core_data \<Rightarrow> u8 \<Rightarrow> u8 \<Rightarrow> u16 \<Rightarrow> u8 \<Rightarrow> u8 \<Rightarrow> (int \<times> arm_core_data) option" where
  "bic_instr p Rsource Rdest shifter_operand shifter_carry_out S =
     do {
       rn \<leftarrow> arm_read_usr_register p Rsource;
       let value = rn AND NOT (ucast shifter_operand);
       p \<leftarrow> arm_write_usr_register p Rdest value;
       p \<leftarrow> update_flags p S Rdest shifter_carry_out 0xFF;
       Some (0, p)
     }"

definition mov_instr ::
  "arm_core_data \<Rightarrow> u8 \<Rightarrow> u16 \<Rightarrow> u8 \<Rightarrow> u8 \<Rightarrow> (int \<times> arm_core_data) option" where
  "mov_instr p Rdest shifter_operand shifter_carry_out S =
     do {
       let value = ucast shifter_operand;
       p \<leftarrow> arm_write_usr_register p Rdest value;
       p \<leftarrow> update_flags p S Rdest shifter_carry_out 0xFF;
       Some (0, p)
     }"

definition mvn_instr ::
  "arm_core_data \<Rightarrow> u8 \<Rightarrow> u16 \<Rightarrow> u8 \<Rightarrow> u8 \<Rightarrow> (int \<times> arm_core_data) option" where
  "mvn_instr p Rdest shifter_operand shifter_carry_out S =
     do {
       let value = NOT (ucast shifter_operand);
       p \<leftarrow> arm_write_usr_register p Rdest value;
       p \<leftarrow> update_flags p S Rdest shifter_carry_out 0xFF;
       Some (0, p)
     }"

subsection \<open>Arithmetic instructions\<close>

text \<open>
  The carry given for a subtraction is \<open>~borrowFrom(...)\<close>, the bitwise complement, passed as a
  byte.
\<close>

definition sub_instr ::
  "arm_core_data \<Rightarrow> u8 \<Rightarrow> u8 \<Rightarrow> u16 \<Rightarrow> u8 \<Rightarrow> (int \<times> arm_core_data) option" where
  "sub_instr p Rsource Rdest shifter_operand S =
     do {
       rn \<leftarrow> arm_read_usr_register p Rsource;
       let value = rn - ucast shifter_operand;
       p \<leftarrow> arm_write_usr_register p Rdest value;
       rn \<leftarrow> arm_read_usr_register p Rsource;
       p \<leftarrow> update_flags p S Rdest (NOT (borrowFrom rn (ucast shifter_operand)))
              (overflowFrom rn (ucast shifter_operand) value 0);
       Some (0, p)
     }"

definition rsb_instr ::
  "arm_core_data \<Rightarrow> u8 \<Rightarrow> u8 \<Rightarrow> u16 \<Rightarrow> u8 \<Rightarrow> (int \<times> arm_core_data) option" where
  "rsb_instr p Rsource Rdest shifter_operand S =
     do {
       rn \<leftarrow> arm_read_usr_register p Rsource;
       let value = ucast shifter_operand - rn;
       p \<leftarrow> arm_write_usr_register p Rdest value;
       rn \<leftarrow> arm_read_usr_register p Rsource;
       p \<leftarrow> update_flags p S Rdest (NOT (borrowFrom (ucast shifter_operand) rn))
              (overflowFrom (ucast shifter_operand) rn value 0);
       Some (0, p)
     }"

definition add_instr ::
  "arm_core_data \<Rightarrow> u8 \<Rightarrow> u8 \<Rightarrow> u16 \<Rightarrow> u8 \<Rightarrow> (int \<times> arm_core_data) option" where
  "add_instr p Rsource Rdest shifter_operand S =
     do {
       rn \<leftarrow> arm_read_usr_register p Rsource;
       let value = rn + ucast shifter_operand;
       p \<leftarrow> arm_write_usr_register p Rdest value;
       rn \<leftarrow> arm_read_usr_register p Rsource;
       p \<leftarrow> update_flags p S Rdest (carryFrom rn (ucast shifter_operand))
              (overflowFrom (ucast shifter_operand) rn value 1);
       Some (0, p)
     }"

definition adc_instr ::
  "arm_core_data \<Rightarrow> u8 \<Rightarrow> u8 \<Rightarrow> u16 \<Rightarrow> u8 \<Rightarrow> u8 \<Rightarrow> (int \<times> arm_core_data) option" where
  "adc_instr p Rsource Rdest shifter_operand flag_C S =
     do {
       rn \<leftarrow> arm_read_usr_register p Rsource;
       let value = rn + ucast shifter_operand + ucast flag_C;
       p \<leftarrow> arm_write_usr_register p Rdest value;
       rn \<leftarrow> arm_read_usr_register p Rsource;
       p \<leftarrow> update_flags p S Rdest (carryFrom rn (ucast shifter_operand + ucast flag_C))
              (overflowFrom (ucast shifter_operand + ucast flag_C) rn value 1);
       Some (0, p)
     }"

definition sbc_instr ::
  "arm_core_data \<Rightarrow> u8 \<Rightarrow> u8 \<Rightarrow> u16 \<Rightarrow> u8 \<Rightarrow> u8 \<Rightarrow> (int \<times> arm_core_data) option" where
  "sbc_instr p Rsource Rdest shifter_operand flag_C S =
     do {
       rn \<leftarrow> arm_read_usr_register p Rsource;
       let value = rn - ucast shifter_operand - NOT (ucast flag_C);
       p \<leftarrow> arm_write_usr_register p Rdest value;
       rn \<leftarrow> arm_read_usr_register p Rsource;
       p \<leftarrow> update_flags p S Rdest
              (NOT (borrowFrom rn (ucast shifter_operand - NOT (ucast flag_C))))
              (overflowFrom rn (ucast shifter_operand - NOT (ucast flag_C)) value 0);
       Some (0, p)
     }"

definition rsc_instr ::
  "arm_core_data \<Rightarrow> u8 \<Rightarrow> u8 \<Rightarrow> u16 \<Rightarrow> u8 \<Rightarrow> u8 \<Rightarrow> (int \<times> arm_core_data) option" where
  "rsc_instr p Rsource Rdest shifter_operand flag_C S =
     do {
       rn \<leftarrow> arm_read_usr_register p Rsource;
       let value = ucast shifter_operand - rn - NOT (ucast flag_C);
       p \<leftarrow> arm_write_usr_register p Rdest value;
       rn \<leftarrow> arm_read_usr_register p Rsource;
       p \<leftarrow> update_flags p S Rdest
              (NOT (borrowFrom (ucast shifter_operand - NOT (ucast flag_C)) rn))
              (overflowFrom (ucast shifter_operand - NOT (ucast flag_C)) rn value 0);
       Some (0, p)
     }"

subsection \<open>Comparisons\<close>

text \<open>The register argument of \<open>write_flags\<close> is the low byte of the result.\<close>

definition cmn_instr :: "arm_core_data \<Rightarrow> u8 \<Rightarrow> u16 \<Rightarrow> (int \<times> arm_core_data) option" where
  "cmn_instr p Rsource shifter_operand =
     do {
       rn \<leftarrow> arm_read_usr_register p Rsource;
       let result = rn + ucast shifter_operand;
       p \<leftarrow> write_flags p (ucast result) (carryFrom rn (ucast shifter_operand))
              (overflowFrom rn (ucast shifter_operand) result 1);
       Some (0, p)
     }"

definition cmp_instr :: "arm_core_data \<Rightarrow> u8 \<Rightarrow> u16 \<Rightarrow> (int \<times> arm_core_data) option" where
  "cmp_instr p Rsource shifter_operand =
     do {
       rn \<leftarrow> arm_read_usr_register p Rsource;
       let result = rn - ucast shifter_operand;
       p \<leftarrow> write_flags p (ucast result) (NOT (borrowFrom rn (ucast shifter_operand)))
              (overflowFrom rn (ucast shifter_operand) result 0);
       Some (0, p)
     }"

definition tst_instr :: "arm_core_data \<Rightarrow> u8 \<Rightarrow> u16 \<Rightarrow> u8 \<Rightarrow> (int \<times> arm_core_data) option" where
  "tst_instr p Rsource shifter_operand shifter_carry_out =
     do {
       rn \<leftarrow> arm_read_usr_register p Rsource;
       let result = rn AND ucast shifter_operand;
       p \<leftarrow> write_flags p (ucast result) shifter_carry_out 0xFF;
       Some (0, p)
     }"

definition teq_instr :: "arm_core_data \<Rightarrow> u8 \<Rightarrow> u16 \<Rightarrow> u8 \<Rightarrow> (int \<times> arm_core_data) option" where
  "teq_instr p Rsource shifter_operand shifter_carry_out =
     do {
       rn \<leftarrow> arm_read_usr_register p Rsource;
       let result = rn XOR ucast shifter_operand;
       p \<leftarrow> write_flags p (ucast result) shifter_carry_out 0xFF;
       Some (0, p)
     }"

subsection \<open>Flag helpers\<close>

lemma set_1_bit_eq:
  assumes "unat k < 32" "b \<le> 1"
  shows "set_1_bit w k b = Bit_Operations.set_bit (unat k) w \<and> b = 1
       \<or> set_1_bit w k b = unset_bit (unat k) w \<and> b = 0"
proof -
  from assms(2) have "b = 0 \<or> b = 1"
    by (simp add: word_le_nat_alt unat_eq_zero le_Suc_eq) (metis unat_1 word_unat_eq_iff One_nat_def)
  moreover have "set_1_bit w k 0 = unset_bit (unat k) w"
    using assms(1) by (intro bit_word_eqI) (auto simp: set_1_bit_def host_shl_unat bit_simps)
  moreover have "set_1_bit w k 1 = Bit_Operations.set_bit (unat k) w"
    using assms(1) by (intro bit_word_eqI) (auto simp: set_1_bit_def host_shl_unat bit_simps)
  ultimately show ?thesis by auto
qed

lemma write_cpsr_same [simp]: "arm_write_cpsr p (arm_read_cpsr p) = p"
  by (simp add: arm_write_cpsr_def arm_read_cpsr_def write_cpsr_def read_cpsr_def)

lemma write_flags_eq: "write_flags p R c v = (if unat R < 16 then Some p else None)"
proof (cases "arm_read_usr_register p R")
  case None
  then show ?thesis
    using arm_read_defined_iff [of p R] by (simp add: write_flags_def not_le [symmetric])
next
  case (Some w)
  then have "unat R < 16" using arm_read_defined_iff [of p R] by (simp add: not_le)
  with Some show ?thesis by (simp add: write_flags_def)
qed

lemma update_flags_eq: "unat R < 16 \<Longrightarrow> update_flags p R S c v = Some p"
  by (simp add: update_flags_def write_flags_eq arm_current_mode_has_spsr_def
      current_mode_has_spsr_def)

lemma carryFrom_iff: "carryFrom a b = 1 \<longleftrightarrow> 2 ^ 32 \<le> unat a + unat b"
proof -
  have "unat (- 1 - a :: u32) = unat (- 1 :: u32) - unat a"
    by (rule unat_sub) simp
  then have "unat (- 1 - a :: u32) = 2 ^ 32 - 1 - unat a"
    by (simp add: unsigned_minus_1_eq_mask mask_eq_exp_minus_1)
  then show ?thesis
    using unsigned_less [of a, where ?'a = nat]
    by (auto simp: carryFrom_def word_less_nat_alt)
qed

lemma borrowFrom_iff: "borrowFrom a b = 1 \<longleftrightarrow> unat a < unat b"
  by (simp add: borrowFrom_def word_less_nat_alt)

lemma drop_31: "drop_bit 31 (w :: u32) = of_bool (bit w 31)"
proof (rule bit_word_eqI)
  fix n
  show "bit (drop_bit 31 w) n \<longleftrightarrow> bit (of_bool (bit w 31) :: u32) n"
    by (cases "n = 0") (auto simp: bit_simps dest: bit_imp_le_length)
qed

lemma uint_u32_less: "uint (w :: u32) < 4294967296"
  using uint_lt2p [of w] by simp

lemma bit_31_iff: "bit w 31 \<longleftrightarrow> 2147483648 \<le> uint w" for w :: u32
proof -
  have "bit w 31 \<longleftrightarrow> odd (uint w div 2147483648)"
    using bit_iff_odd [of "uint w" 31] by (simp add: bit_uint_iff)
  moreover have "uint w div 2147483648 = (if 2147483648 \<le> uint w then 1 else 0)"
    using uint_u32_less [of w] by (auto simp: div_pos_pos_trivial intro!: div_pos_geq [THEN trans])
  ultimately show ?thesis by simp
qed

lemma sint_u32: "sint w = uint w - (if 2147483648 \<le> uint w then 4294967296 else 0)" for w :: u32
  using uint_u32_less [of w]
  by (simp add: sint_uint signed_take_bit_eq_take_bit_minus bit_uint_iff take_bit_eq_mod bit_31_iff)

lemma signed_difference_overflow:
  fixes x y d :: int
  assumes "0 \<le> x" "x < 4294967296" "0 \<le> y" "y < 4294967296"
    and "d = (if y \<le> x then x - y else x - y + 4294967296)"
  defines "sx \<equiv> x - (if 2147483648 \<le> x then 4294967296 else 0)"
    and "sy \<equiv> y - (if 2147483648 \<le> y then 4294967296 else 0)"
  shows "(2147483648 \<le> x) \<noteq> (2147483648 \<le> y) \<and> (2147483648 \<le> x) \<noteq> (2147483648 \<le> d)
    \<longleftrightarrow> sx - sy < - 2147483648 \<or> 2147483648 \<le> sx - sy"
  using assms by (cases "2147483648 \<le> x"; cases "2147483648 \<le> y"; cases "y \<le> x") auto

lemma overflowFrom_sub_iff:
  "overflowFrom a b (a - b) 0 = 1 \<longleftrightarrow>
     sint a - sint b < - 2147483648 \<or> 2147483648 \<le> sint a - sint b"
proof -
  have d: "uint (a - b) =
      (if uint b \<le> uint a then uint a - uint b else uint a - uint b + 4294967296)"
    by (simp add: uint_sub_if')
  have "overflowFrom a b (a - b) 0 = 1 \<longleftrightarrow>
      (2147483648 \<le> uint a) \<noteq> (2147483648 \<le> uint b) \<and>
      (2147483648 \<le> uint a) \<noteq> (2147483648 \<le> uint (a - b))"
    by (simp add: overflowFrom_def drop_31 of_bool_eq_iff bit_31_iff)
  also have "\<dots> \<longleftrightarrow> sint a - sint b < - 2147483648 \<or> 2147483648 \<le> sint a - sint b"
    unfolding sint_u32
    by (rule signed_difference_overflow [OF _ uint_u32_less _ uint_u32_less d]) simp_all
  finally show ?thesis .
qed

lemma signed_sum_overflow:
  fixes x y d :: int
  assumes "0 \<le> x" "x < 4294967296" "0 \<le> y" "y < 4294967296"
    and "d = (if x + y < 4294967296 then x + y else x + y - 4294967296)"
  defines "sx \<equiv> x - (if 2147483648 \<le> x then 4294967296 else 0)"
    and "sy \<equiv> y - (if 2147483648 \<le> y then 4294967296 else 0)"
  shows "(2147483648 \<le> x) = (2147483648 \<le> y) \<and> (2147483648 \<le> x) = (2147483648 \<le> d)
    \<longleftrightarrow> (2147483648 \<le> x) = (2147483648 \<le> y) \<and> - 2147483648 \<le> sx + sy \<and> sx + sy < 2147483648"
  using assms by (cases "2147483648 \<le> x"; cases "2147483648 \<le> y"; cases "x + y < 4294967296") auto

text \<open>For an addition the code answers 1 where the operands agree in sign and the sum fits.\<close>

lemma overflowFrom_add_iff:
  "overflowFrom a b (a + b) 1 = 1 \<longleftrightarrow>
     bit a 31 = bit b 31 \<and> - 2147483648 \<le> sint a + sint b \<and> sint a + sint b < 2147483648"
proof -
  have d: "uint (a + b) =
      (if uint a + uint b < 4294967296 then uint a + uint b else uint a + uint b - 4294967296)"
    by (simp add: uint_plus_if')
  have "overflowFrom a b (a + b) 1 = 1 \<longleftrightarrow>
      (2147483648 \<le> uint a) = (2147483648 \<le> uint b) \<and>
      (2147483648 \<le> uint a) = (2147483648 \<le> uint (a + b))"
    by (simp add: overflowFrom_def drop_31 of_bool_eq_iff bit_31_iff)
  also have "\<dots> \<longleftrightarrow> (2147483648 \<le> uint a) = (2147483648 \<le> uint b) \<and>
      - 2147483648 \<le> sint a + sint b \<and> sint a + sint b < 2147483648"
    unfolding sint_u32
    by (rule signed_sum_overflow [OF _ uint_u32_less _ uint_u32_less d]) simp_all
  finally show ?thesis by (simp only: bit_31_iff)
qed

subsection \<open>Instructions as register transfers\<close>

text \<open>
  \<open>S\<close> is the instruction's S bit. Because \<open>update_flags\<close> receives it as the register number,
  and \<open>write_flags\<close> drops the words it computes, the flags never change and each instruction
  is one register transfer.
\<close>

lemma rd_after_write:
  assumes "arm_write_usr_register p r v = Some p'" "arm_read_usr_register p k = Some w"
  shows "\<exists>w'. arm_read_usr_register p' k = Some w'"
  using assms arm_read_defined_iff by (metis not_None_eq)

lemma transfer_with_flags:
  assumes "unat S < 16" "arm_read_usr_register p k = Some w"
  shows "do { q \<leftarrow> arm_write_usr_register p r v;
              w \<leftarrow> arm_read_usr_register q k;
              q \<leftarrow> update_flags q S R (c w) (f w);
              Some (0 :: int, q) }
       = do { q \<leftarrow> arm_write_usr_register p r v; Some (0, q) }"
  using assms rd_after_write [OF _ assms(2), of r v]
  by (auto simp: update_flags_eq split: Option.bind_splits)

lemma logical_instrs:
  assumes "unat S < 16"
  shows
    "and_instr p Rs Rd op c S = do { rn \<leftarrow> arm_read_usr_register p Rs;
       q \<leftarrow> arm_write_usr_register p Rd (rn AND ucast op); Some (0, q) }"
    "xor_instr p Rs Rd op c S = do { rn \<leftarrow> arm_read_usr_register p Rs;
       q \<leftarrow> arm_write_usr_register p Rd (rn XOR ucast op); Some (0, q) }"
    "orr_instr p Rs Rd op c S = do { rn \<leftarrow> arm_read_usr_register p Rs;
       q \<leftarrow> arm_write_usr_register p Rd (rn OR ucast op); Some (0, q) }"
    "bic_instr p Rs Rd op c S = do { rn \<leftarrow> arm_read_usr_register p Rs;
       q \<leftarrow> arm_write_usr_register p Rd (rn AND NOT (ucast op)); Some (0, q) }"
    "mov_instr p Rd op c S = do { q \<leftarrow> arm_write_usr_register p Rd (ucast op); Some (0, q) }"
    "mvn_instr p Rd op c S = do { q \<leftarrow> arm_write_usr_register p Rd (NOT (ucast op)); Some (0, q) }"
  using assms
  by (simp_all add: and_instr_def xor_instr_def orr_instr_def bic_instr_def mov_instr_def
      mvn_instr_def update_flags_eq)

lemma arithmetic_instrs:
  assumes "unat S < 16"
  shows
    "sub_instr p Rs Rd op S = do { rn \<leftarrow> arm_read_usr_register p Rs;
       q \<leftarrow> arm_write_usr_register p Rd (rn - ucast op); Some (0, q) }"
    "rsb_instr p Rs Rd op S = do { rn \<leftarrow> arm_read_usr_register p Rs;
       q \<leftarrow> arm_write_usr_register p Rd (ucast op - rn); Some (0, q) }"
    "add_instr p Rs Rd op S = do { rn \<leftarrow> arm_read_usr_register p Rs;
       q \<leftarrow> arm_write_usr_register p Rd (rn + ucast op); Some (0, q) }"
    "adc_instr p Rs Rd op fc S = do { rn \<leftarrow> arm_read_usr_register p Rs;
       q \<leftarrow> arm_write_usr_register p Rd (rn + ucast op + ucast fc); Some (0, q) }"
    "sbc_instr p Rs Rd op fc S = do { rn \<leftarrow> arm_read_usr_register p Rs;
       q \<leftarrow> arm_write_usr_register p Rd (rn - ucast op - NOT (ucast fc)); Some (0, q) }"
    "rsc_instr p Rs Rd op fc S = do { rn \<leftarrow> arm_read_usr_register p Rs;
       q \<leftarrow> arm_write_usr_register p Rd (ucast op - rn - NOT (ucast fc)); Some (0, q) }"
  by (simp_all add: sub_instr_def rsb_instr_def add_instr_def adc_instr_def sbc_instr_def
      rsc_instr_def Let_def transfer_with_flags [OF assms] cong: bind_option_cong_simp)

text \<open>A comparison leaves the core as it is; it is undefined when the result's low byte is above 15.\<close>

lemma comparison_instrs:
  "cmn_instr p Rs op = do { rn \<leftarrow> arm_read_usr_register p Rs;
     if unat (ucast (rn + ucast op) :: u8) < 16 then Some (0, p) else None }"
  "cmp_instr p Rs op = do { rn \<leftarrow> arm_read_usr_register p Rs;
     if unat (ucast (rn - ucast op) :: u8) < 16 then Some (0, p) else None }"
  "tst_instr p Rs op c = do { rn \<leftarrow> arm_read_usr_register p Rs;
     if unat (ucast (rn AND ucast op) :: u8) < 16 then Some (0, p) else None }"
  "teq_instr p Rs op c = do { rn \<leftarrow> arm_read_usr_register p Rs;
     if unat (ucast (rn XOR ucast op) :: u8) < 16 then Some (0, p) else None }"
  by (simp_all add: cmn_instr_def cmp_instr_def tst_instr_def teq_instr_def write_flags_eq Let_def
      if_distrib [where f = "\<lambda>m. Option.bind m _"] cong: if_cong)

text \<open>
  The carry helper answers 1 exactly when the unsigned sum exceeds 32 bits, the borrow helper
  when the first operand is the smaller, the overflow helper of a subtraction when the signed
  difference exceeds 32 bits; that of an addition answers 1 when the operands agree in sign and
  the signed sum does fit, the converse of an overflow.
\<close>

lemma arithmetic_flags:
  "(carryFrom a b = 1 \<longleftrightarrow> 2 ^ 32 \<le> unat a + unat b) \<and>
   (borrowFrom a b = 1 \<longleftrightarrow> unat a < unat b) \<and>
   (overflowFrom a b (a - b) 0 = 1 \<longleftrightarrow> sint a - sint b < - (2 ^ 31) \<or> 2 ^ 31 \<le> sint a - sint b) \<and>
   (overflowFrom a b (a + b) 1 = 1 \<longleftrightarrow>
      bit a 31 = bit b 31 \<and> - (2 ^ 31) \<le> sint a + sint b \<and> sint a + sint b < 2 ^ 31)"
  using carryFrom_iff [of a b] borrowFrom_iff [of a b] overflowFrom_sub_iff [of a b]
    overflowFrom_add_iff [of a b] by simp

end
