(* ===== verification/LoadStore.thy ===== *)
theory LoadStore
  imports ArmCore
begin

text \<open>
  \<open>arm_load_store.c\<close>: single transfers of words and bytes, halfword transfers, and the block
  transfer decoder (which nothing calls). The local \<open>motaecrire\<close> of a load has no value until
  the memory read succeeds; storing it in a register before that is undefined.
\<close>

subsection \<open>Halfword transfers\<close>

definition arm_load_store_h :: "arm_core_data \<Rightarrow> u32 \<Rightarrow> (int \<times> arm_core_data) option" where
  "arm_load_store_h p ins =
     do {
       let P_bit = field ins 24 1;
       let U_bit = field ins 23 1;
       let W_bit = field ins 21 1;
       let I_bit = field ins 22 1;
       let L_bit = field ins 20 1;
       let RN_bit = field ins 16 15;
       let RD_bit = field ins 12 15;
       let immedL = field ins 0 15;
       let immedH = field ins 8 15;
       RN_adr \<leftarrow> arm_read_usr_register p RN_bit;
       offset \<leftarrow> (if I_bit \<noteq> 0 then Some (push_bit 4 (ucast immedH) OR ucast immedL)
                  else arm_read_usr_register p immedL);
       let address = (if U_bit \<noteq> 0 then RN_adr + offset else RN_adr - offset);
       p \<leftarrow> (if L_bit \<noteq> 0
             then do {
               (_, motaecrire) \<leftarrow> arm_read_half p address None;
               motaecrire \<leftarrow> motaecrire;
               arm_write_usr_register p RD_bit (ucast motaecrire)
             }
             else do {
               rd \<leftarrow> arm_read_usr_register p RD_bit;
               let motaecrire = (ucast (rd AND 0xFFFF) :: u16);
               (_, p) \<leftarrow> arm_write_half p address motaecrire;
               Some p
             });
       p \<leftarrow> (if P_bit = 0 \<or> (P_bit \<noteq> 0 \<and> W_bit \<noteq> 0)
             then arm_write_usr_register p RN_bit address else Some p);
       Some (0, p)
     }"

subsection \<open>Word and byte transfers\<close>

definition LDR_LDRB :: "arm_core_data \<Rightarrow> u8 \<Rightarrow> u32 \<Rightarrow> u8 \<Rightarrow> u8 \<Rightarrow> arm_core_data option" where
  "LDR_LDRB p B_bit temp RD_bit RN_bit =
     do {
       p \<leftarrow> (if B_bit \<noteq> 0
             then do {
               (_, motaecrire) \<leftarrow> arm_read_byte p temp None;
               motaecrire \<leftarrow> motaecrire;
               arm_write_usr_register p RD_bit (ucast motaecrire)
             }
             else do {
               (_, motaecrire) \<leftarrow> arm_read_word p temp None;
               motaecrire \<leftarrow> motaecrire;
               if RD_bit = 15 then arm_write_usr_register p 15 (motaecrire AND 0xFFFFFFFE)
               else arm_write_usr_register p RD_bit motaecrire
             });
       arm_write_usr_register p RN_bit temp
     }"

definition STR_STRB :: "arm_core_data \<Rightarrow> u8 \<Rightarrow> u32 \<Rightarrow> u8 \<Rightarrow> arm_core_data option" where
  "STR_STRB p B_bit temp RD_bit =
     (if B_bit \<noteq> 0
      then do {
        rd \<leftarrow> arm_read_usr_register p RD_bit;
        let motaecrire = (ucast (rd AND 0xFF) :: u8);
        (_, p) \<leftarrow> arm_write_byte p temp motaecrire;
        Some p
      }
      else do {
        motaecrire \<leftarrow> arm_read_usr_register p RD_bit;
        (_, p) \<leftarrow> arm_write_word p temp motaecrire;
        Some p
      })"

definition arm_load_store :: "arm_core_data \<Rightarrow> u32 \<Rightarrow> (int \<times> arm_core_data) option" where
  "arm_load_store p ins =
     do {
       let P_bit = field ins 24 1;
       let U_bit = field ins 23 1;
       let W_bit = field ins 21 1;
       let I_bit = field ins 25 1;
       let L_bit = field ins 20 1;
       let B_bit = field ins 22 1;
       let RN_bit = field ins 16 15;
       let RD_bit = field ins 12 15;
       let offset = (ucast (ins AND 4095) :: u16);
       let shift_T = field ins 5 3;
       let shift_im = field ins 7 31;
       let RM_bit = field ins 0 15;
       RN_adr \<leftarrow> arm_read_usr_register p RN_bit;
       if I_bit \<noteq> 0
       then do {
         rm \<leftarrow> arm_read_usr_register p RM_bit;
         offset_reg \<leftarrow> (if shift_T = 0 then Some (host_shl rm (uint shift_im))
                        else if shift_T = 1 then Some (host_shr rm (uint shift_im))
                        else if shift_T = 2 then Some (asr rm shift_im)
                        else if shift_T = 3 then Some (ror rm shift_im)
                        else None);
         let temp = (if U_bit \<noteq> 0 then RN_adr + offset_reg else RN_adr - offset_reg);
         p \<leftarrow> (if L_bit \<noteq> 0 then LDR_LDRB p B_bit temp RD_bit RN_bit
               else STR_STRB p B_bit temp RD_bit);
         Some (0, p)
       }
       else do {
         let temp = (if U_bit \<noteq> 0 then RN_adr + ucast offset else RN_adr - ucast offset);
         p \<leftarrow> (if L_bit \<noteq> 0
               then do {
                 p \<leftarrow> LDR_LDRB p B_bit temp RD_bit RN_bit;
                 if P_bit \<noteq> 0 \<and> W_bit \<noteq> 0 then arm_write_usr_register p RN_bit temp else Some p
               }
               else do {
                 p \<leftarrow> STR_STRB p B_bit temp RD_bit;
                 if P_bit = 0 \<or> (P_bit \<noteq> 0 \<and> W_bit \<noteq> 0)
                 then arm_write_usr_register p RN_bit temp else Some p
               });
         Some (0, p)
       }
     }"

subsection \<open>Block transfers\<close>

text \<open>The counting loop: \<open>n\<close> iterations are left of the fifteen.\<close>

fun count_registers :: "nat \<Rightarrow> u16 \<Rightarrow> int \<Rightarrow> int" where
  "count_registers 0 bits cpt = cpt"
| "count_registers (Suc n) bits cpt =
     (if (bits AND 1) mod 2 = 0 then count_registers n (drop_bit 1 bits) cpt
      else count_registers n (drop_bit 1 bits) (cpt + 1))"

definition number_of_registers :: "u16 \<Rightarrow> int" where
  "number_of_registers bits = count_registers 15 bits 0"

text \<open>The two addresses; outside the four cases they stay indeterminate.\<close>

definition init_addresses :: "arm_core_data \<Rightarrow> u8 \<Rightarrow> u8 \<Rightarrow> u16 \<Rightarrow> (u32 \<times> u32) option" where
  "init_addresses p bit_23 RN_bit register_list =
     do {
       rn \<leftarrow> arm_read_usr_register p RN_bit;
       let n4 = word_of_int (number_of_registers register_list * 4);
       if bit_23 = 0 then Some (rn - n4 + 4, rn)
       else if bit_23 = 1 then Some (rn, rn + n4 - 4)
       else if bit_23 = 2 then Some (rn - n4, rn - 4)
       else if bit_23 = 3 then Some (rn + 4, rn + n4)
       else None
     }"

text \<open>
  The load loop over the registers \<open>is\<close>, with the loop's \<open>address\<close> and \<open>value\<close>: the register
  written is the one numbered by the low byte of register \<open>i\<close>, and the value written is the
  return code of the memory read.
\<close>

fun load_multiple_loop ::
  "nat list \<Rightarrow> u16 \<Rightarrow> arm_core_data \<Rightarrow> u32 \<Rightarrow> u32 option \<Rightarrow> (arm_core_data \<times> u32 \<times> u32 option) option"
  where
  "load_multiple_loop [] register_list p address value = Some (p, address, value)"
| "load_multiple_loop (i # is) register_list p address value =
     (if drop_bit i register_list AND 1 \<noteq> 0
      then do {
        k \<leftarrow> arm_read_usr_register p (of_nat i);
        (result, value) \<leftarrow> arm_read_word p address value;
        p \<leftarrow> arm_write_usr_register p (ucast k) (word_of_int result);
        load_multiple_loop is register_list p (address + 4) value
      }
      else load_multiple_loop is register_list p address value)"

text \<open>The store loop writes at \<open>value\<close>, which nothing initialises.\<close>

fun store_multiple_loop ::
  "nat list \<Rightarrow> u16 \<Rightarrow> u8 \<Rightarrow> arm_core_data \<Rightarrow> u32 \<Rightarrow> u32 option \<Rightarrow> (arm_core_data \<times> u32) option"
  where
  "store_multiple_loop [] register_list RD_bit p address value = Some (p, address)"
| "store_multiple_loop (i # is) register_list RD_bit p address value =
     (if drop_bit i register_list AND 1 \<noteq> 0
      then do {
        v \<leftarrow> value;
        k \<leftarrow> arm_read_usr_register p RD_bit;
        w \<leftarrow> arm_read_usr_register p (ucast k);
        (_, p) \<leftarrow> arm_write_word p v w;
        store_multiple_loop is register_list RD_bit p (address + 4) value
      }
      else store_multiple_loop is register_list RD_bit p address value)"

text \<open>
  For bit 15 the register number \<open>value\<close> is read in the same argument list as the call that
  sets it, an order C does not fix: undefined here.
\<close>

definition arm_load_store_multiple :: "arm_core_data \<Rightarrow> u32 \<Rightarrow> (int \<times> arm_core_data) option" where
  "arm_load_store_multiple p ins =
     do {
       let bit_23 = field ins 23 2;
       let register_list = (ucast (ucast (ins AND 65536) :: u8) :: u16);
       let RN_bit = field ins 16 15;
       let L_bit = field ins 20 1;
       let W_bit = field ins 21 1;
       let RD_bit = field ins 12 1;
       (start_address, end_address) \<leftarrow> init_addresses p bit_23 RN_bit register_list;
       RN_bit \<leftarrow> (if W_bit \<noteq> 0
                  then do {
                    rn \<leftarrow> arm_read_usr_register p RN_bit;
                    Some (ucast (rn - word_of_int (number_of_registers register_list * 4)))
                  }
                  else Some RN_bit);
       if L_bit \<noteq> 0
       then do {
         (p, address, value) \<leftarrow> load_multiple_loop [0..<15] register_list p start_address None;
         if drop_bit 15 register_list AND 1 \<noteq> 0 then None
         else if end_address \<noteq> address - 4 then Some (1, p)
         else if end_address \<noteq> address - 4 then Some (1, p)
         else Some (0, p)
       }
       else do {
         (p, address) \<leftarrow> store_multiple_loop [0..<15] register_list RD_bit p start_address None;
         if end_address \<noteq> address - 4 then Some (1, p) else Some (0, p)
       }
     }"

definition arm_coprocessor_load_store :: "arm_core_data \<Rightarrow> u32 \<Rightarrow> int" where
  "arm_coprocessor_load_store p ins = UNDEFINED_INSTRUCTION"

end
