(* ===== verification/BranchOther.thy ===== *)
theory BranchOther
  imports ArmCore
begin

text \<open>
  \<open>arm_branch_other.c\<close>: branches, status register reads, and the software interrupt decoder,
  which ends the simulation for one immediate.
\<close>

definition b_bl_instr :: "arm_core_data \<Rightarrow> u32 \<Rightarrow> (int \<times> arm_core_data) option" where
  "b_bl_instr p ins =
     do {
       let L = field ins 24 1;
       let si = ins AND 0xFFFFFF;
       pc \<leftarrow> arm_read_usr_register p 15;
       p \<leftarrow> (if L \<noteq> 0 then arm_write_usr_register p 14 pc else Some p);
       let b24 = field si 23 1;
       let SE = (if b24 \<noteq> 0 then push_bit 2 (si OR 0x3F000000) else push_bit 2 si);
       let pc = pc + SE;
       p \<leftarrow> arm_write_usr_register p 15 pc;
       Some (0, p)
     }"

definition arm_branch :: "arm_core_data \<Rightarrow> u32 \<Rightarrow> (int \<times> arm_core_data) option" where
  "arm_branch p ins =
     (if get_bit ins 25 \<noteq> 0 then b_bl_instr p ins else Some (UNDEFINED_INSTRUCTION, p))"

datatype outcome = Returns int | Exits int

definition arm_coprocessor_others_swi :: "arm_core_data \<Rightarrow> u32 \<Rightarrow> outcome" where
  "arm_coprocessor_others_swi p ins =
     (if get_bit ins 24 \<noteq> 0
      then if ins AND 0xFFFFFF = 0x123456 then Exits 0 else Returns SOFTWARE_INTERRUPT
      else Returns UNDEFINED_INSTRUCTION)"

definition mrs_instr :: "arm_core_data \<Rightarrow> u32 \<Rightarrow> (int \<times> arm_core_data) option" where
  "mrs_instr p ins =
     do {
       let R = (ucast (get_bit ins 22) :: u8);
       let Rd = (ucast (get_bits ins 15 12) :: u8);
       let v = (if R \<noteq> 0 then arm_read_spsr p else arm_read_cpsr p);
       p \<leftarrow> arm_write_usr_register p Rd v;
       Some (0, p)
     }"

definition arm_miscellaneous :: "arm_core_data \<Rightarrow> u32 \<Rightarrow> int" where
  "arm_miscellaneous p ins = UNDEFINED_INSTRUCTION"

end
