(* ===== verification/Instruction.thy ===== *)
theory Instruction
  imports DataProcessing LoadStore BranchOther
begin

text \<open>
  \<open>arm_instruction.c\<close>: the condition check, the computation of the shifter operand, the
  decoders of the instruction classes, and the execution of one instruction with the raising
  of the exception it returns.
\<close>

subsection \<open>Condition codes\<close>

definition check_cond_failed :: "u8 \<Rightarrow> u8 \<Rightarrow> u8 \<Rightarrow> u8 \<Rightarrow> u8 \<Rightarrow> int" where
  "check_cond_failed flag_N flag_Z flag_V flag_C cond =
     (if cond = 0 then (if flag_Z \<noteq> 0 then 0 else 1)
      else if cond = 1 then (if flag_Z = 0 then 0 else 1)
      else if cond = 2 then (if flag_C \<noteq> 0 then 0 else 1)
      else if cond = 3 then (if flag_C = 0 then 0 else 1)
      else if cond = 4 then (if flag_N \<noteq> 0 then 0 else 1)
      else if cond = 5 then (if flag_N = 0 then 0 else 1)
      else if cond = 6 then (if flag_V \<noteq> 0 then 0 else 1)
      else if cond = 7 then (if flag_V = 0 then 0 else 1)
      else if cond = 8 then (if flag_C \<noteq> 0 \<and> flag_Z = 0 then 0 else 1)
      else if cond = 9 then (if flag_C = 0 \<and> flag_Z \<noteq> 0 then 0 else 1)
      else if cond = 10 then
        (if flag_N \<noteq> 0 \<and> flag_V \<noteq> 0 \<or> flag_N = 0 \<and> flag_V = 0 then 0 else 1)
      else if cond = 11 then
        (if flag_N \<noteq> 0 \<and> flag_V = 0 \<or> flag_N = 0 \<and> flag_V \<noteq> 0 then 0 else 1)
      else if cond = 12 then
        (if flag_Z = 0 \<and> (flag_N \<noteq> 0 \<and> flag_V \<noteq> 0 \<or> flag_N = 0 \<and> flag_V = 0) then 0 else 1)
      else if cond = 13 then
        (if flag_Z \<noteq> 0 \<or> flag_N \<noteq> 0 \<and> flag_V = 0 \<or> flag_N = 0 \<and> flag_V \<noteq> 0 then 0 else 1)
      else if cond = 14 then 0
      else if cond = 15 then 1
      else 0)"

subsection \<open>The shifter operand\<close>

text \<open>
  The three addressing forms of \<open>update_shifter_operand\<close>, each giving the new shifter operand
  with the carry out. \<open>RM\<close> is the byte variable of the code (the register's low byte), widened
  to \<open>int\<close> by every shift. A path that leaves the carry unset gives \<open>None\<close>.
\<close>

definition register_shift :: "u8 \<Rightarrow> u8 \<Rightarrow> u8 \<Rightarrow> u8 \<Rightarrow> u8 \<Rightarrow> (u16 \<times> u8) option" where
  "register_shift shift RM RS4 RS7 flag_C =
     (let rm = (ucast RM :: u32) in
      if shift = 0 then
        (if RS7 = 0 then Some (ucast RM, flag_C)
         else if RS7 < 32 then
           Some (ucast (host_shl rm (uint RS7)), ucast (host_shr rm (32 - uint RS7) AND 1))
         else if RS7 = 32 then Some (0, ucast (rm AND 1))
         else Some (0, 0))
      else if shift = 1 then
        (if RS7 = 0 then Some (ucast RM, flag_C)
         else if RS7 < 32 then
           Some (ucast (host_shr rm (uint RS7)), ucast (host_shr rm (uint RS7 - 1) AND 1))
         else if RS7 = 32 then Some (0, ucast (host_shr rm 31 AND 1))
         else Some (0, 0))
      else if shift = 2 then
        (if RS7 = 0 then Some (ucast RM, flag_C)
         else if RS7 < 32 then
           Some (ucast (asr rm RS7), ucast (host_shr rm (uint RS7 - 1) AND 1))
         else if host_shr rm 31 AND 1 \<noteq> 0 then Some (0, ucast (host_shr rm 31 AND 1))
         else Some (0xFFFF, ucast (host_shr rm 31 AND 1)))
      else if shift = 3 then
        (if RS7 = 0 then Some (ucast RM, flag_C)
         else if RS4 = 0 then Some (ucast RM, ucast (host_shr rm 31 AND 1))
         else Some (ucast (asr rm RS4), ucast (host_shr rm (uint RS4 - 1) AND 1)))
      else None)"

definition immediate_shift :: "u8 \<Rightarrow> u8 \<Rightarrow> u8 \<Rightarrow> u8 \<Rightarrow> (u16 \<times> u8) option" where
  "immediate_shift shift RM shift_imm flag_C =
     (let rm = (ucast RM :: u32) in
      if shift = 0 then
        (if shift_imm = 0 then Some (ucast RM, flag_C)
         else Some (ucast (host_shl rm (uint shift_imm)),
                    ucast (host_shr rm (32 - uint shift_imm) AND 1)))
      else if shift = 1 then
        (if shift_imm = 0 then Some (0, ucast (host_shr rm 31 AND 1))
         else Some (ucast (host_shr rm (uint shift_imm)),
                    ucast (host_shr rm (uint shift_imm - 1) AND 1)))
      else if shift = 2 then
        (if shift_imm = 0 then
           (if host_shl rm 31 AND 1 = 0 then Some (0, ucast (host_shr rm 31 AND 1))
            else Some (0xFFFF, ucast (host_shr rm 31 AND 1)))
         else Some (ucast (asr rm shift_imm), ucast (host_shr rm (uint shift_imm - 1) AND 1)))
      else if shift = 3 then
        (if shift_imm = 0 then None
         else Some (ucast (ror rm shift_imm), ucast (host_shr rm (uint shift_imm - 1) AND 1)))
      else None)"

definition rotated_immediate :: "u16 \<Rightarrow> u8 \<Rightarrow> u16 \<times> u8" where
  "rotated_immediate shifter_operand flag_C =
     (let ri = (ucast (drop_bit 8 shifter_operand AND 0xF) :: u8);
          shifter_operand = (ucast (ror (ucast (shifter_operand AND 0xFF)) (ri * 2)) :: u16)
      in (shifter_operand,
          if ri = 0 then flag_C else ucast (host_shr (ucast shifter_operand) 31 AND 1)))"

definition update_shifter_operand ::
  "arm_core_data \<Rightarrow> u8 \<Rightarrow> u16 \<Rightarrow> u8 \<Rightarrow> u8 \<Rightarrow> (u16 \<times> u8) option" where
  "update_shifter_operand p Rdest shifter_operand I flag_C =
     (if I = 0 then do {
        let r = drop_bit 4 shifter_operand AND 1;
        if r \<noteq> 0 then do {
          let RS = (ucast (drop_bit 8 shifter_operand AND 0xF) :: u8);
          let shift = (ucast (drop_bit 5 shifter_operand AND 3) :: u8);
          rm \<leftarrow> arm_read_usr_register p (ucast (shifter_operand AND 0xF));
          let RM = (ucast rm :: u8);
          let RS4 = RS;
          let RS7 = push_bit 4 Rdest OR RS;
          register_shift shift RM RS4 RS7 flag_C
        }
        else do {
          let shift_imm = (ucast (drop_bit 7 shifter_operand AND 0x1F) :: u8);
          let shift = (ucast (drop_bit 5 shifter_operand AND 3) :: u8);
          rm \<leftarrow> arm_read_usr_register p (ucast (shifter_operand AND 0xF));
          let RM = (ucast rm :: u8);
          immediate_shift shift RM shift_imm flag_C
        }
      }
      else Some (rotated_immediate shifter_operand flag_C))"

subsection \<open>Decoders\<close>

definition traitement_AR :: "arm_core_data \<Rightarrow> u32 \<Rightarrow> u8 \<Rightarrow> (int \<times> arm_core_data) option" where
  "traitement_AR p mot flag_C =
     do {
       let I = field mot 25 1;
       let S = field mot 20 1;
       let opCode = field mot 21 15;
       let Rsource = field mot 16 15;
       let Rdest = field mot 12 15;
       let shifter_operand = (ucast (mot AND 4095) :: u16);
       (shifter_operand, shifter_carry_out) \<leftarrow> update_shifter_operand p Rdest shifter_operand I flag_C;
       if opCode = 0 then and_instr p Rsource Rdest shifter_operand shifter_carry_out S
       else if opCode = 1 then xor_instr p Rsource Rdest shifter_operand shifter_carry_out S
       else if opCode = 2 then sub_instr p Rsource Rdest shifter_operand S
       else if opCode = 3 then rsb_instr p Rsource Rdest shifter_operand S
       else if opCode = 4 then add_instr p Rsource Rdest shifter_operand S
       else if opCode = 5 then adc_instr p Rsource Rdest shifter_operand flag_C S
       else if opCode = 6 then sbc_instr p Rsource Rdest shifter_operand flag_C S
       else if opCode = 7 then rsc_instr p Rsource Rdest shifter_operand flag_C S
       else if opCode = 8 then tst_instr p Rsource shifter_operand shifter_carry_out
       else if opCode = 9 then teq_instr p Rsource shifter_operand shifter_carry_out
       else if opCode = 10 then cmp_instr p Rsource shifter_operand
       else if opCode = 11 then cmn_instr p Rsource shifter_operand
       else if opCode = 12 then orr_instr p Rsource Rdest shifter_operand shifter_carry_out S
       else if opCode = 13 then mov_instr p Rdest shifter_operand shifter_carry_out S
       else if opCode = 14 then bic_instr p Rsource Rdest shifter_operand shifter_carry_out S
       else if opCode = 15 then mvn_instr p Rdest shifter_operand shifter_carry_out S
       else Some (1, p)
     }"

definition traitement_LS :: "arm_core_data \<Rightarrow> u32 \<Rightarrow> (int \<times> arm_core_data) option" where
  "traitement_LS p mot = arm_load_store p mot"

definition traitement_BR :: "arm_core_data \<Rightarrow> u32 \<Rightarrow> (int \<times> arm_core_data) option" where
  "traitement_BR p mot = do { (_, p) \<leftarrow> arm_branch p mot; Some (0, p) }"

definition traitement_SPE :: "arm_core_data \<Rightarrow> (int \<times> arm_core_data) option" where
  "traitement_SPE p = Some (0, p)"

definition select_execute_instruction ::
  "arm_core_data \<Rightarrow> u32 \<Rightarrow> u8 \<Rightarrow> u8 \<Rightarrow> u8 \<Rightarrow> u8 \<Rightarrow> (int \<times> arm_core_data) option" where
  "select_execute_instruction p mot flag_N flag_Z flag_V flag_C =
     (let typeop = field mot 26 3 in
      if typeop = 0 then
        (let bit7 = field mot 7 1; bit4 = field mot 4 1 in
         if bit7 \<noteq> 0 \<and> bit4 \<noteq> 0 then arm_load_store_h p mot
         else traitement_AR p mot flag_C)
      else if typeop = 1 then traitement_LS p mot
      else if typeop = 2 then traitement_BR p mot
      else if typeop = 3 then traitement_SPE p
      else Some (1, p))"

definition arm_execute_instruction :: "arm_core_data \<Rightarrow> (int \<times> arm_core_data) option" where
  "arm_execute_instruction p =
     do {
       let mot = arm_read_cpsr p;
       (_, mot, p) \<leftarrow> arm_fetch p (Some mot);
       mot \<leftarrow> mot;
       let cond = field mot 28 15;
       let cpsr = arm_read_cpsr p;
       let flag_N = field cpsr flag_N_bit 1;
       let flag_Z = field cpsr flag_Z_bit 1;
       let flag_V = field cpsr flag_V_bit 1;
       let flag_C = field cpsr flag_C_bit 1;
       if check_cond_failed flag_N flag_Z flag_V flag_C cond \<noteq> 0 then Some (1, p)
       else select_execute_instruction p mot flag_N flag_Z flag_V flag_C
     }"

definition arm_step :: "arm_core_data \<Rightarrow> (int \<times> arm_core_data) option" where
  "arm_step p =
     do {
       (result, p) \<leftarrow> arm_execute_instruction p;
       p \<leftarrow> (if result \<noteq> 0 then arm_exception p (word_of_int result) else Some p);
       Some (result, p)
     }"

subsection \<open>Conditions against the architecture\<close>

text \<open>The condition field as the ARM manual defines it; 15 never executes.\<close>

definition arm_condition :: "bool \<Rightarrow> bool \<Rightarrow> bool \<Rightarrow> bool \<Rightarrow> nat \<Rightarrow> bool" where
  "arm_condition n z c v cond =
     [z, \<not> z, c, \<not> c, n, \<not> n, v, \<not> v, c \<and> \<not> z, \<not> c \<or> z, n = v, n \<noteq> v,
      \<not> z \<and> n = v, z \<or> n \<noteq> v, True, False] ! cond"

lemma check_cond_values:
  "check_cond_failed fn fz fv fc (of_nat k) =
     [if fz \<noteq> 0 then 0 else 1, if fz = 0 then 0 else 1,
      if fc \<noteq> 0 then 0 else 1, if fc = 0 then 0 else 1,
      if fn \<noteq> 0 then 0 else 1, if fn = 0 then 0 else 1,
      if fv \<noteq> 0 then 0 else 1, if fv = 0 then 0 else 1,
      if fc \<noteq> 0 \<and> fz = 0 then 0 else 1, if fc = 0 \<and> fz \<noteq> 0 then 0 else 1,
      if (fn \<noteq> 0) = (fv \<noteq> 0) then 0 else 1, if (fn \<noteq> 0) \<noteq> (fv \<noteq> 0) then 0 else 1,
      if fz = 0 \<and> (fn \<noteq> 0) = (fv \<noteq> 0) then 0 else 1,
      if fz \<noteq> 0 \<or> (fn \<noteq> 0) \<noteq> (fv \<noteq> 0) then 0 else 1, 0, 1] ! k"
  if "k < 16"
proof -
  from that have "k \<in> {0, 1, 2, 3, 4, 5, 6, 7, 8, 9, 10, 11, 12, 13, 14, 15}"
    by (simp add: numeral_eq_Suc less_Suc_eq)
  then show ?thesis
    by (elim insertE emptyE) (auto simp: check_cond_failed_def)
qed

subsection \<open>Shifter operands against the architecture\<close>

definition arm_immediate_shift :: "nat \<Rightarrow> u32 \<Rightarrow> nat \<Rightarrow> bool \<Rightarrow> u32 \<times> bool" where
  "arm_immediate_shift kind rm n c =
     (if kind = 0 then (if n = 0 then (rm, c) else (push_bit n rm, bit rm (32 - n)))
      else if kind = 1 then
        (if n = 0 then (0, bit rm 31) else (drop_bit n rm, bit rm (n - 1)))
      else if kind = 2 then
        (if n = 0 then (if bit rm 31 then - 1 else 0, bit rm 31)
         else (signed_drop_bit n rm, bit rm (n - 1)))
      else
        (if n = 0 then (push_bit 31 (of_bool c) OR drop_bit 1 rm, bit rm 0)
         else (word_rotr n rm, bit rm (n - 1))))"

lemma low_byte_id:
  assumes "unat rm < 256"
  shows "ucast (ucast (rm :: u32) :: u8) = rm"
proof -
  from assms have "take_bit 8 rm = rm"
    by (simp add: word_unat_eq_iff unsigned_take_bit_eq take_bit_nat_eq_self)
  moreover have "ucast (ucast rm :: u8) = take_bit 8 rm"
    by (rule bit_word_eqI) (auto simp: bit_simps)
  ultimately show ?thesis by simp
qed

lemma low_half_id:
  assumes "unat w < 65536"
  shows "ucast (ucast (w :: u32) :: u16) = w"
proof -
  from assms have "take_bit 16 w = w"
    by (simp add: word_unat_eq_iff unsigned_take_bit_eq take_bit_nat_eq_self)
  moreover have "ucast (ucast w :: u16) = take_bit 16 w"
    by (rule bit_word_eqI) (auto simp: bit_simps)
  ultimately show ?thesis by simp
qed

lemma carry_bit: "(ucast (w AND 1 :: u32) :: u8) \<noteq> 0 \<longleftrightarrow> bit w 0"
  using field_bit_eq_0 [of w 0] by (simp add: field_def)

lemma carry_bit_0: "(ucast (w AND 1 :: u32) :: u8) = 0 \<longleftrightarrow> \<not> bit w 0"
  using carry_bit by blast

lemma and_1_eq_0: "(w :: u32) AND 1 = 0 \<longleftrightarrow> \<not> bit w 0"
  using get_bit_eq_0 [of w 0] by (simp add: get_bit_def)

lemma prev_count:
  assumes "0 < unat n" "unat n < 32"
  shows "host_shr w (uint n - 1) = drop_bit (unat n - 1) w"
proof -
  have "uint n - 1 = int (unat n - 1)"
    unfolding uint_int_unat using assms(1) by (simp add: of_nat_diff del: uint_int_unat)
  moreover have "nat (int (unat n - 1) mod 32) = unat n - 1"
    using assms(2) by (simp add: nat_mod_distrib del: of_nat_diff)
  ultimately show ?thesis by (simp only: host_shr_def)
qed

lemma low_byte_bit_31: "unat rm < 256 \<Longrightarrow> \<not> bit (rm :: u32) 31"
proof -
  assume "unat rm < 256"
  then have "int (unat rm) < int 256" by (simp only: of_nat_less_iff)
  then have "uint rm < 256" by simp
  then show ?thesis by (simp add: bit_31_iff)
qed

lemma immediate_shift_zero:
  assumes rm: "unat rm < 256" and "k \<le> 2"
  shows "\<exists>op c. immediate_shift (of_nat k) (ucast rm) 0 fc = Some (op, c) \<and>
    ucast op = fst (arm_immediate_shift k rm 0 (fc \<noteq> 0)) \<and>
    (c \<noteq> 0) = snd (arm_immediate_shift k rm 0 (fc \<noteq> 0))"
proof -
  have "(ucast (ucast b :: u16) :: u32) = ucast b" for b :: u8
    by (rule bit_word_eqI) (auto simp: bit_simps dest: bit_imp_le_length)
  then have half: "ucast (ucast (ucast rm :: u8) :: u16) = rm"
    by (simp only: low_byte_id [OF rm])
  from assms(2) have "k = 0 \<or> k = 1 \<or> k = 2" by linarith
  then show ?thesis
    by (elim disjE)
      (simp_all add: immediate_shift_def arm_immediate_shift_def low_byte_id [OF rm] half
        host_shr_in_range host_shl_in_range low_byte_bit_31 [OF rm] carry_bit carry_bit_0
        and_1_eq_0 bit_push_bit_iff bit_drop_bit_eq Let_def)
qed

lemma immediate_shift_nonzero:
  assumes rm: "unat rm < 256" and n: "0 < unat n" "unat n < 32" and kind: "k \<le> 3"
    and fits: "unat (fst (arm_immediate_shift k rm (unat n) (fc \<noteq> 0))) < 65536"
  shows "\<exists>op c. immediate_shift (of_nat k) (ucast rm) n fc = Some (op, c) \<and>
    ucast op = fst (arm_immediate_shift k rm (unat n) (fc \<noteq> 0)) \<and>
    (c \<noteq> 0) = snd (arm_immediate_shift k rm (unat n) (fc \<noteq> 0))"
proof -
  have n0: "n \<noteq> 0" using n by auto
  from kind have "k = 0 \<or> k = 1 \<or> k = 2 \<or> k = 3" by linarith
  then show ?thesis
    using fits n
    by (elim disjE)
      (simp_all add: immediate_shift_def arm_immediate_shift_def low_byte_id [OF rm] low_half_id n0
        host_shl_unat host_shr_unat host_shr_complement prev_count carry_bit bit_drop_bit_eq
        asr_eq_signed_shift ror_eq_rotation Let_def)
qed

definition arm_rotated_immediate :: "u32 \<Rightarrow> nat \<Rightarrow> bool \<Rightarrow> u32 \<times> bool" where
  "arm_rotated_immediate imm8 r c =
     (let v = word_rotr (2 * r) imm8 in (v, if r = 0 then c else bit v 31))"

lemma rotated_immediate_arm:
  assumes fits: "unat (fst (arm_rotated_immediate (ucast (so AND 0xFF))
      (unat (drop_bit 8 so AND 0xF)) (fc \<noteq> 0))) < 65536"
  shows "ucast (fst (rotated_immediate so fc)) = fst (arm_rotated_immediate (ucast (so AND 0xFF))
      (unat (drop_bit 8 so AND 0xF)) (fc \<noteq> 0))"
    and "(snd (rotated_immediate so fc) \<noteq> 0) = snd (arm_rotated_immediate (ucast (so AND 0xFF))
      (unat (drop_bit 8 so AND 0xF)) (fc \<noteq> 0))"
proof -
  let ?ri = "ucast (drop_bit 8 so AND 0xF) :: u8"
  have nib: "drop_bit 8 so AND 0xF = take_bit 4 (drop_bit 8 so)"
    by (simp add: take_bit_eq_mask mask_eq_exp_minus_1)
  have small: "unat (drop_bit 8 so AND 0xF) < 16"
    unfolding nib unsigned_take_bit_eq using take_bit_nat_less_exp [of 4] by simp
  then have ri: "unat ?ri = unat (drop_bit 8 so AND 0xF)"
    by (simp add: unsigned_ucast_eq take_bit_nat_eq_self)
  with small have ri2: "unat (?ri * 2) = 2 * unat (drop_bit 8 so AND 0xF)"
    by (simp add: unat_word_ariths)
  then have rot: "ror w (?ri * 2) = word_rotr (2 * unat (drop_bit 8 so AND 0xF)) w" for w
    using small by (subst ror_eq_rotation) simp_all
  have zero: "?ri = 0 \<longleftrightarrow> unat (drop_bit 8 so AND 0xF) = 0"
    by (simp only: unat_eq_zero [of ?ri, symmetric] ri)
  have val_eq: "ucast (fst (rotated_immediate so fc)) = fst (arm_rotated_immediate
      (ucast (so AND 0xFF)) (unat (drop_bit 8 so AND 0xF)) (fc \<noteq> 0))"
    using fits by (simp add: rotated_immediate_def arm_rotated_immediate_def rot low_half_id Let_def)
  have "\<not> bit w 31" if "unat w < 65536" for w :: u32
  proof -
    from that have "int (unat w) < int 65536" by (simp only: of_nat_less_iff)
    then show ?thesis by (simp add: bit_31_iff)
  qed
  with fits val_eq show "(snd (rotated_immediate so fc) \<noteq> 0) = snd (arm_rotated_immediate
      (ucast (so AND 0xFF)) (unat (drop_bit 8 so AND 0xF)) (fc \<noteq> 0))"
    by (auto simp: rotated_immediate_def arm_rotated_immediate_def zero carry_bit_0
        bit_drop_bit_eq host_shr_in_range bit_unsigned_iff Let_def dest: bit_imp_le_length)
  show "ucast (fst (rotated_immediate so fc)) = fst (arm_rotated_immediate
      (ucast (so AND 0xFF)) (unat (drop_bit 8 so AND 0xF)) (fc \<noteq> 0))" by (rule val_eq)
qed

subsection \<open>Shifts by a register\<close>

lemma low_12_fields:
  "ucast (drop_bit 4 (ucast (w AND 4095) :: u16) AND 1) = field w 4 1"
  "ucast (drop_bit 8 (ucast (w AND 4095) :: u16) AND 15) = field w 8 15"
  "ucast (drop_bit 7 (ucast (w AND 4095) :: u16) AND 31) = field w 7 31"
  "ucast (drop_bit 5 (ucast (w AND 4095) :: u16) AND 3) = field w 5 3"
  "ucast ((ucast (w AND 4095) :: u16) AND 15) = field w 0 15"
  "ucast ((ucast (w AND 4095) :: u16) AND 255) = w AND 255"
proof -
  have m: "(4095 :: 'a::len word) = mask 12" "(15 :: 'a::len word) = mask 4"
    "(255 :: 'a::len word) = mask 8" "(31 :: 'a::len word) = mask 5" "(3 :: 'a::len word) = mask 2"
    "(1 :: 'a::len word) = mask 1"
    by (simp_all add: mask_eq_exp_minus_1)
  show "ucast (drop_bit 4 (ucast (w AND 4095) :: u16) AND 1) = field w 4 1"
    "ucast (drop_bit 8 (ucast (w AND 4095) :: u16) AND 15) = field w 8 15"
    "ucast (drop_bit 7 (ucast (w AND 4095) :: u16) AND 31) = field w 7 31"
    "ucast (drop_bit 5 (ucast (w AND 4095) :: u16) AND 3) = field w 5 3"
    "ucast ((ucast (w AND 4095) :: u16) AND 15) = field w 0 15"
    "ucast ((ucast (w AND 4095) :: u16) AND 255) = w AND 255"
    unfolding field_def m by (intro bit_word_eqI; auto simp: bit_simps)+
qed

text \<open>
  The operand of a shift by a register: the amount is the number of that register, for LSL, LSR
  and ASR with the number of the destination register as its high digit.
\<close>

definition number_shift :: "nat \<Rightarrow> u8 \<Rightarrow> nat \<Rightarrow> nat \<Rightarrow> u16" where
  "number_shift kind rm rd rs =
     (let n = 16 * rd + rs; v = (ucast rm :: u32) in
      if kind = 0 then ucast (push_bit n v)
      else if kind = 1 then ucast (drop_bit n v)
      else if kind = 2 then (if 32 \<le> n then 0xFFFF else ucast (drop_bit n v))
      else ucast (drop_bit rs v))"

lemma byte_high_bits: "8 \<le> n \<Longrightarrow> \<not> bit (ucast (b :: u8) :: u32) n"
  by (auto simp: bit_simps dest: bit_imp_le_length)

lemma asr_byte: "0 < unat k \<Longrightarrow> unat k < 32 \<Longrightarrow> asr (ucast (b :: u8)) k = drop_bit (unat k) (ucast b)"
  by (subst asr_eq_signed_shift; simp?)
    (rule bit_word_eqI, auto simp: bit_simps bit_signed_drop_bit_iff dest: bit_imp_le_length)

lemma unat_digits:
  assumes "unat (rd :: u8) < 16" "unat (rs :: u8) < 16"
  shows "unat (push_bit 4 rd OR rs) = 16 * unat rd + unat rs"
proof -
  have "rs = take_bit 4 rs"
    using assms(2) by (simp add: word_unat_eq_iff unsigned_take_bit_eq take_bit_nat_eq_self)
  then have "bit rs m \<Longrightarrow> m < 4" for m by (metis bit_take_bit_iff)
  then have "push_bit 4 rd AND rs = 0" by (intro bit_word_eqI) (force simp: bit_simps)
  then have "push_bit 4 rd OR rs = push_bit 4 rd + rs" by (rule disjunctive_add_eq_or [symmetric])
  moreover have "unat (push_bit 4 rd) = 16 * unat rd"
    using assms(1) by (simp add: push_bit_eq_mult unat_word_ariths)
  ultimately show ?thesis using assms by (simp add: unat_word_ariths)
qed

lemma register_shift_value:
  assumes k: "unat (k :: u8) < 4" and rd: "unat rd < 16" and rs: "unat rs < 16"
  shows "\<exists>c. register_shift k b rs (push_bit 4 rd OR rs) fc =
    Some (number_shift (unat k) b (unat rd) (unat rs), c)"
proof -
  define n where "n = push_bit 4 rd OR rs"
  have n: "unat n = 16 * unat rd + unat rs" unfolding n_def by (rule unat_digits [OF rd rs])
  have less: "n < 32 \<longleftrightarrow> unat n < 32" by (simp add: word_less_nat_alt)
  have zero: "n = 0 \<longleftrightarrow> unat n = 0" by (simp add: unat_eq_zero)
  have high: "push_bit m (ucast b :: u32) = 0" "drop_bit m (ucast b :: u32) = 0" if "32 \<le> m" for m
    using that by (auto intro!: bit_word_eqI simp: bit_simps byte_high_bits)
  have b: "(ucast (ucast b :: u32) :: u16) = ucast b"
    by (rule bit_word_eqI) (auto simp: bit_simps)
  have sign: "host_shr (ucast b) 31 AND 1 = 0"
    unfolding and_1_eq_0 by (simp add: host_shr_in_range bit_drop_bit_eq byte_high_bits)
  have "unat k = 0 \<or> unat k = 1 \<or> unat k = 2 \<or> unat k = 3" using k by linarith
  then consider "k = 0" | "k = 1" | "k = 2" | "k = 3" unfolding word_unat_eq_iff by fastforce
  then show ?thesis
  proof cases
    case 1
    then show ?thesis
      using high [of "unat n"] unfolding n_def [symmetric] number_shift_def n [symmetric]
      by (auto simp: register_shift_def less zero host_shl_unat not_less b Let_def)
  next
    case 2
    then show ?thesis
      using high [of "unat n"] unfolding n_def [symmetric] number_shift_def n [symmetric]
      by (auto simp: register_shift_def less zero host_shr_unat not_less b Let_def)
  next
    case 3
    then show ?thesis
      unfolding n_def [symmetric] number_shift_def n [symmetric]
      by (auto simp: register_shift_def less zero asr_byte sign not_less b Let_def)
  next
    case 4
    have "rs = 0 \<longleftrightarrow> unat rs = 0" by (simp add: unat_eq_zero)
    with 4 rs n show ?thesis
      unfolding n_def [symmetric] number_shift_def
      by (auto simp: register_shift_def zero asr_byte b Let_def)
  qed
qed

lemma shift_by_register:
  assumes "\<not> bit w 25" "bit w 4" "arm_read_usr_register p (field w 0 15) = Some rm"
  shows "\<exists>c. update_shifter_operand p (field w 12 15) (ucast (w AND 4095)) (field w 25 1) fc =
    Some (number_shift (unat (field w 5 3)) (ucast rm) (unat (field w 12 15)) (unat (field w 8 15)), c)"
proof -
  have "drop_bit 4 (ucast (w AND 4095) :: u16) AND 1 = of_bool (bit w 4)"
    by (rule bit_word_eqI) (auto simp: bit_simps bit_and_iff)
  with assms register_shift_value [OF field_3 field_nibble field_nibble, of w 5 "ucast rm" w 8 w 12 fc]
  show ?thesis by (simp add: update_shifter_operand_def low_12_fields Let_def)
qed

subsection \<open>Data processing as an ALU\<close>

definition arm_alu :: "nat \<Rightarrow> u32 \<Rightarrow> u32 \<Rightarrow> u32 \<Rightarrow> u32" where
  "arm_alu opcode rn op c =
     [rn AND op, rn XOR op, rn - op, op - rn, rn + op, rn + op + c, rn - op - (1 - c),
      op - rn - (1 - c), rn, rn, rn, rn, rn OR op, op, rn AND NOT op, NOT op] ! opcode"

lemma field_S: "unat (field w n 1) < 16"
  by (simp add: field_bit)

lemma nat_16_cases:
  "k < 16 \<Longrightarrow> k = 0 \<or> k = 1 \<or> k = 2 \<or> k = 3 \<or> k = 4 \<or> k = 5 \<or> k = 6 \<or> k = 7 \<or> k = 8 \<or>
     k = 9 \<or> k = 10 \<or> k = 11 \<or> k = 12 \<or> k = 13 \<or> k = 14 \<or> k = (15 :: nat)"
  by (simp add: numeral_eq_Suc less_Suc_eq)

lemma field_eq_of_nat: "field w n m = of_nat (unat (field w n m))"
  by simp

lemma traitement_AR_transfer:
  assumes op: "update_shifter_operand p (field mot 12 15) (ucast (mot AND 4095)) (field mot 25 1) fc
      = Some (operand, c)"
    and rn: "arm_read_usr_register p (field mot 16 15) = Some rn"
    and opcode: "unat (field mot 21 15) \<notin> {6, 7, 8, 9, 10, 11}"
  shows "traitement_AR p mot fc = do {
    q \<leftarrow> arm_write_usr_register p (field mot 12 15)
           (arm_alu (unat (field mot 21 15)) rn (ucast operand) (ucast fc));
    Some (0, q) }"
proof -
  define k where "k = unat (field mot 21 15)"
  have k: "field mot 21 15 = of_nat k" by (simp add: k_def)
  have "k < 16" unfolding k_def by (rule field_nibble)
  from nat_16_cases [OF this] opcode show ?thesis
    unfolding traitement_AR_def k_def [symmetric] k Let_def op Option.bind.simps prod.case
    by (elim disjE)
      (simp_all add: logical_instrs [OF field_S] arithmetic_instrs [OF field_S] rn arm_alu_def)
qed

lemma traitement_AR_subtract_carry:
  assumes op: "update_shifter_operand p (field mot 12 15) (ucast (mot AND 4095)) (field mot 25 1) fc
      = Some (operand, c)"
    and rn: "arm_read_usr_register p (field mot 16 15) = Some rn"
    and opcode: "unat (field mot 21 15) \<in> {6, 7}"
  shows "traitement_AR p mot fc = do {
    q \<leftarrow> arm_write_usr_register p (field mot 12 15)
           (arm_alu (unat (field mot 21 15)) rn (ucast operand) (ucast fc) + 2);
    Some (0, q) }"
proof -
  define k where "k = unat (field mot 21 15)"
  have k: "field mot 21 15 = of_nat k" by (simp add: k_def)
  have c: "x - NOT y = x - (1 - y) + 2" for x y :: u32
    by (simp add: not_eq_complement)
  from opcode have "k = 6 \<or> k = 7" by (simp add: k_def)
  then show ?thesis
    unfolding traitement_AR_def k_def [symmetric] k Let_def op Option.bind.simps prod.case
    by (elim disjE)
      (simp_all add: arithmetic_instrs [OF field_S] rn arm_alu_def c)
qed

lemma traitement_AR_comparison:
  assumes op: "update_shifter_operand p (field mot 12 15) (ucast (mot AND 4095)) (field mot 25 1) fc
      = Some (operand, c)"
    and opcode: "unat (field mot 21 15) \<in> {8, 9, 10, 11}"
    and res: "traitement_AR p mot fc = Some (r, q)"
  shows "r = 0 \<and> q = p"
proof -
  define k where "k = unat (field mot 21 15)"
  have k: "field mot 21 15 = of_nat k" by (simp add: k_def)
  from opcode have "k = 8 \<or> k = 9 \<or> k = 10 \<or> k = 11" by (simp add: k_def)
  then show ?thesis
    using res unfolding traitement_AR_def k_def [symmetric] k Let_def op Option.bind.simps prod.case
    by (elim disjE) (auto simp: comparison_instrs split: Option.bind_splits if_splits)
qed

text \<open>
  A rotated immediate that fits 16 bits is the architecture's operand, with its carry.
\<close>

lemma rotated_immediate_refines:
  assumes "unat (fst (arm_rotated_immediate (ucast (so AND 0xFF))
      (unat (drop_bit 8 so AND 0xF)) (fc \<noteq> 0))) < 65536"
  shows "ucast (fst (rotated_immediate so fc)) = fst (arm_rotated_immediate (ucast (so AND 0xFF))
      (unat (drop_bit 8 so AND 0xF)) (fc \<noteq> 0)) \<and>
    (snd (rotated_immediate so fc) \<noteq> 0) = snd (arm_rotated_immediate (ucast (so AND 0xFF))
      (unat (drop_bit 8 so AND 0xF)) (fc \<noteq> 0))"
  using rotated_immediate_arm [OF assms] by blast

subsection \<open>Properties\<close>

text \<open>
  C12: The condition check agrees with the architecture for every condition but LS (9), which
  the code passes only when C is clear and Z set.
\<close>

lemma condition_codes:
  assumes "k < 16"
  shows "check_cond_failed fn fz fv fc (of_nat k) = 0 \<longleftrightarrow>
    (if k = 9 then fc = 0 \<and> fz \<noteq> 0
     else arm_condition (fn \<noteq> 0) (fz \<noteq> 0) (fc \<noteq> 0) (fv \<noteq> 0) k)"
  using nat_16_cases [OF assms] unfolding check_cond_values [OF assms]
  by (elim disjE) (simp_all add: arm_condition_def)

lemma condition_codes_witness:
  "check_cond_failed 0 0 0 1 (of_nat 8) = 0 \<and> check_cond_failed 0 0 0 0 (of_nat 9) \<noteq> 0"
  using condition_codes [of 8 0 0 0 1] condition_codes [of 9 0 0 0 0] by (simp add: arm_condition_def)

text \<open>
  C16: A register shifted by an immediate gives the architecture's operand and carry, provided
  the register fits a byte and the result 16 bits, as the code's variables do; ROR by 0 (RRX) is
  excluded, the code leaves its carry unset.
\<close>

lemma immediate_shift_refines:
  assumes "unat rm < 256" "unat n < 32" "k \<le> 3" "\<not> (k = 3 \<and> n = 0)"
    and "unat (fst (arm_immediate_shift k rm (unat n) (fc \<noteq> 0))) < 65536"
  shows "\<exists>op c. immediate_shift (of_nat k) (ucast rm) n fc = Some (op, c) \<and>
    ucast op = fst (arm_immediate_shift k rm (unat n) (fc \<noteq> 0)) \<and>
    (c \<noteq> 0) = snd (arm_immediate_shift k rm (unat n) (fc \<noteq> 0))"
proof (cases "n = 0")
  case True
  with assms show ?thesis using immediate_shift_zero [of rm k fc] by simp
next
  case False
  with assms show ?thesis by (intro immediate_shift_nonzero) (simp_all add: unat_gt_0)
qed

lemma immediate_shift_refines_witness:
  "\<exists>op c. immediate_shift (of_nat 0) (ucast (0x81 :: u32)) 4 0 = Some (op, c) \<and> (ucast op :: u32) = 0x810"
  using immediate_shift_refines [where rm = "0x81" and n = 4 and k = 0 and fc = 0] by (simp add: arm_immediate_shift_def) blast

end
