(* ===== verification/Isa.thy ===== *)
theory Isa
  imports Instruction
begin

text \<open>
  The part of the ARMv5 instruction set the simulator is meant to execute without touching the
  condition flags, as the architecture defines it and apart from the code: data processing
  without the S bit, transfers of words, halfwords and bytes in all their addressing modes, and
  branches. It is the reference the theory \<open>Refinement\<close> compares the core with. The flags are
  those of a reset core, all clear, which no instruction of the part changes. The memory is a
  map from addresses to bytes. \<open>None\<close> is an instruction outside this part, or an access that is
  not aligned or not mapped.
\<close>

subsection \<open>State\<close>

record isa =
  ipc :: u32
  ireg :: "u32 list"
  imem :: "u32 \<Rightarrow> u8 option"
  ibig :: bool

text \<open>Register 15 reads as the address of the instruction plus 8.\<close>

definition isa_reg :: "isa \<Rightarrow> nat \<Rightarrow> u32" where
  "isa_reg s r = (if r = 15 then ipc s + 8 else ireg s ! r)"

definition isa_write :: "nat \<Rightarrow> u32 \<Rightarrow> isa \<Rightarrow> isa" where
  "isa_write r v s = (if r = 15 then s\<lparr>ipc := v\<rparr> else s\<lparr>ireg := (ireg s)[r := v]\<rparr>)"

definition isa_next :: "isa \<Rightarrow> isa" where
  "isa_next s = s\<lparr>ipc := ipc s + 4\<rparr>"

subsection \<open>Memory\<close>

datatype width = Byte | Half | Word

fun isa_load :: "isa \<Rightarrow> width \<Rightarrow> u32 \<Rightarrow> u32 option" where
  "isa_load s Byte a = map_option ucast (imem s a)"
| "isa_load s Half a =
     (if unat a mod 2 = 0
      then do {
        x \<leftarrow> imem s a;
        y \<leftarrow> imem s (a + 1);
        Some (ucast (if ibig s then word_cat x y else word_cat y x :: u16))
      }
      else None)"
| "isa_load s Word a =
     (if unat a mod 4 = 0
      then do {
        b0 \<leftarrow> imem s a;
        b1 \<leftarrow> imem s (a + 1);
        b2 \<leftarrow> imem s (a + 2);
        b3 \<leftarrow> imem s (a + 3);
        Some (host_word (if ibig s then [b3, b2, b1, b0] else [b0, b1, b2, b3]))
      }
      else None)"

text \<open>A store needs what the load at its place needs.\<close>

fun isa_put :: "isa \<Rightarrow> width \<Rightarrow> u32 \<Rightarrow> u32 \<Rightarrow> u32 \<Rightarrow> u8 option" where
  "isa_put s Byte a v = (imem s)(a \<mapsto> ucast v)"
| "isa_put s Half a v =
     (let low = ucast v; high = ucast (drop_bit 8 v)
      in (imem s)(a \<mapsto> if ibig s then high else low, a + 1 \<mapsto> if ibig s then low else high))"
| "isa_put s Word a v =
     (let bs = (if ibig s then rev (host_bytes v) else host_bytes v)
      in (imem s)(a \<mapsto> bs ! 0, a + 1 \<mapsto> bs ! 1, a + 2 \<mapsto> bs ! 2, a + 3 \<mapsto> bs ! 3))"

definition isa_store :: "isa \<Rightarrow> width \<Rightarrow> u32 \<Rightarrow> u32 \<Rightarrow> isa option" where
  "isa_store s width a v =
     (if isa_load s width a = None then None else Some (s\<lparr>imem := isa_put s width a v\<rparr>))"

subsection \<open>Instructions\<close>

datatype operand = Immediate u32 nat | Shifted nat nat nat
datatype offset = Immediate_offset u32 | Register_offset nat nat nat
datatype indexing = Plain | Pre_indexed | Post_indexed

datatype instruction =
    Data nat nat nat operand                               \<comment> \<open>opcode, Rd, Rn\<close>
  | Transfer bool width indexing bool nat nat offset       \<comment> \<open>load, upwards, Rd, Rn\<close>
  | Branch bool "24 word"                                  \<comment> \<open>with link\<close>

fun isa_value :: "isa \<Rightarrow> operand \<Rightarrow> u32" where
  "isa_value s (Immediate imm r) = fst (arm_rotated_immediate imm r False)"
| "isa_value s (Shifted rm kind n) = fst (arm_immediate_shift kind (isa_reg s rm) n False)"

fun isa_offset :: "isa \<Rightarrow> offset \<Rightarrow> u32" where
  "isa_offset s (Immediate_offset v) = v"
| "isa_offset s (Register_offset rm kind n) = fst (arm_immediate_shift kind (isa_reg s rm) n False)"

definition isa_address :: "isa \<Rightarrow> bool \<Rightarrow> nat \<Rightarrow> offset \<Rightarrow> u32" where
  "isa_address s up rn off =
     (if up then isa_reg s rn + isa_offset s off else isa_reg s rn - isa_offset s off)"

text \<open>
  The base register takes the new address before a load writes its destination; a transfer
  after the update (post-indexed) is made at the old one.
\<close>

fun isa_exec :: "instruction \<Rightarrow> isa \<Rightarrow> isa option" where
  "isa_exec (Data opcode rd rn opd) s =
     Some (isa_write rd (arm_alu opcode (isa_reg s rn) (isa_value s opd) 0) (isa_next s))"
| "isa_exec (Transfer load width ix up rd rn off) s =
     (let updated = isa_address s up rn off;
          a = (if ix = Post_indexed then isa_reg s rn else updated);
          t = (if ix = Plain then isa_next s else isa_write rn updated (isa_next s)) in
      if load then map_option (\<lambda>v. isa_write rd v t) (isa_load s width a)
      else isa_store t width a (isa_reg s rd))"
| "isa_exec (Branch link off) s =
     Some ((if link then isa_write 14 (ipc s + 4) s else s)\<lparr>ipc := ipc s + 8 + push_bit 2 (scast off)\<rparr>)"

subsection \<open>Decoding\<close>

text \<open>The unprivileged forms (P clear, W set) are outside the part.\<close>

definition isa_indexing :: "u32 \<Rightarrow> indexing option" where
  "isa_indexing w =
     (if bit w 24 then Some (if bit w 21 then Pre_indexed else Plain)
      else if bit w 21 then None else Some Post_indexed)"

definition isa_decode_data :: "u32 \<Rightarrow> instruction option" where
  "isa_decode_data w =
     (if bit w 20 \<or> unat (field w 21 15) \<in> {8, 9, 10, 11} \<or> (\<not> bit w 25 \<and> bit w 4) then None
      else Some (Data (unat (field w 21 15)) (unat (field w 12 15)) (unat (field w 16 15))
        (if bit w 25 then Immediate (w AND 0xFF) (unat (field w 8 15))
         else Shifted (unat (field w 0 15)) (unat (field w 5 3)) (unat (field w 7 31)))))"

definition isa_decode_half :: "u32 \<Rightarrow> instruction option" where
  "isa_decode_half w =
     (if unat (field w 5 3) = 1
      then map_option (\<lambda>ix. Transfer (bit w 20) Half ix (bit w 23) (unat (field w 12 15)) (unat (field w 16 15))
        (if bit w 22 then Immediate_offset (push_bit 4 (ucast (field w 8 15)) OR ucast (field w 0 15))
         else Register_offset (unat (field w 0 15)) 0 0)) (isa_indexing w)
      else None)"

definition isa_decode_transfer :: "u32 \<Rightarrow> instruction option" where
  "isa_decode_transfer w =
     (if bit w 25 \<and> bit w 4 then None
      else map_option (\<lambda>ix. Transfer (bit w 20) (if bit w 22 then Byte else Word) ix (bit w 23)
        (unat (field w 12 15)) (unat (field w 16 15))
        (if bit w 25 then Register_offset (unat (field w 0 15)) (unat (field w 5 3)) (unat (field w 7 31))
         else Immediate_offset (take_bit 12 w))) (isa_indexing w))"

definition isa_decode :: "u32 \<Rightarrow> instruction option" where
  "isa_decode w =
     (if field w 28 15 = 15 then None
      else if field w 26 3 = 0
      then (if \<not> bit w 25 \<and> bit w 7 \<and> bit w 4 then isa_decode_half w else isa_decode_data w)
      else if field w 26 3 = 1 then isa_decode_transfer w
      else if field w 26 3 = 2 \<and> bit w 25 then Some (Branch (bit w 24) (ucast w))
      else None)"

text \<open>One step: the flags of the conditions are clear.\<close>

definition isa_passes :: "u32 \<Rightarrow> bool" where
  "isa_passes w \<longleftrightarrow> arm_condition False False False False (unat (field w 28 15))"

definition isa_step :: "isa \<Rightarrow> isa option" where
  "isa_step s =
     do {
       w \<leftarrow> isa_load s Word (ipc s);
       i \<leftarrow> isa_decode w;
       if isa_passes w then isa_exec i s else Some (isa_next s)
     }"

end
