(* ===== verification/Step.thy ===== *)
theory Step
  imports Instruction Interfaces
begin

text \<open>
  What one step of the core keeps (lifted from the single writes to the whole of
  \<open>arm_step\<close>), the machine contracts of the theory \<open>Interfaces\<close> discharged for it, and the form
  a step takes once the instruction word is known.
\<close>

subsection \<open>Every operation of the core keeps its invariant\<close>

lemma keeps_update_flags [core_frame]:
  "update_flags q R S c v = Some q' \<Longrightarrow> keeps q q'"
  by (auto simp: update_flags_def write_flags_eq keeps_write_cpsr split: if_splits)

lemma keeps_write_flags [core_frame]:
  "write_flags q R c v = Some q' \<Longrightarrow> keeps q q'"
  by (auto simp: write_flags_eq split: if_splits)

lemma keeps_instrs [core_frame]:
  "and_instr p a b op c S = Some (r, q) \<Longrightarrow> keeps p q"
  "xor_instr p a b op c S = Some (r, q) \<Longrightarrow> keeps p q"
  "orr_instr p a b op c S = Some (r, q) \<Longrightarrow> keeps p q"
  "bic_instr p a b op c S = Some (r, q) \<Longrightarrow> keeps p q"
  "mov_instr p b op c S = Some (r, q) \<Longrightarrow> keeps p q"
  "mvn_instr p b op c S = Some (r, q) \<Longrightarrow> keeps p q"
  "sub_instr p a b op S = Some (r, q) \<Longrightarrow> keeps p q"
  "rsb_instr p a b op S = Some (r, q) \<Longrightarrow> keeps p q"
  "add_instr p a b op S = Some (r, q) \<Longrightarrow> keeps p q"
  "adc_instr p a b op c S = Some (r, q) \<Longrightarrow> keeps p q"
  "sbc_instr p a b op c S = Some (r, q) \<Longrightarrow> keeps p q"
  "rsc_instr p a b op c S = Some (r, q) \<Longrightarrow> keeps p q"
  "cmn_instr p a op = Some (r, q) \<Longrightarrow> keeps p q"
  "cmp_instr p a op = Some (r, q) \<Longrightarrow> keeps p q"
  "tst_instr p a op c = Some (r, q) \<Longrightarrow> keeps p q"
  "teq_instr p a op c = Some (r, q) \<Longrightarrow> keeps p q"
  by (auto simp: and_instr_def xor_instr_def orr_instr_def bic_instr_def mov_instr_def
      mvn_instr_def sub_instr_def rsb_instr_def add_instr_def adc_instr_def sbc_instr_def
      rsc_instr_def cmn_instr_def cmp_instr_def tst_instr_def teq_instr_def Let_def
      Option.bind_eq_Some_conv keeps_def dest!: core_frame)

lemma keeps_traitement_AR [core_frame]:
  "traitement_AR p mot fc = Some (r, q) \<Longrightarrow> keeps p q"
  unfolding traitement_AR_def Let_def
  by (auto simp: Option.bind_eq_Some_conv split: if_splits dest!: core_frame; simp add: keeps_def)

lemma keeps_LDR_LDRB [core_frame]:
  "LDR_LDRB q B t d n = Some q' \<Longrightarrow> keeps q q'"
  unfolding LDR_LDRB_def
  by (auto simp: Option.bind_eq_Some_conv split: if_splits dest!: core_frame; simp add: keeps_def)

lemma keeps_STR_STRB [core_frame]:
  "STR_STRB q B t d = Some q' \<Longrightarrow> keeps q q'"
  unfolding STR_STRB_def Let_def
  by (auto simp: Option.bind_eq_Some_conv split: if_splits dest!: core_frame; simp add: keeps_def)

lemma keeps_load_store [core_frame]:
  "arm_load_store p ins = Some (r, q) \<Longrightarrow> keeps p q"
  unfolding arm_load_store_def Let_def
  by (auto simp: Option.bind_eq_Some_conv split: if_splits dest!: core_frame; simp add: keeps_def)

lemma keeps_load_store_h [core_frame]:
  "arm_load_store_h p ins = Some (r, q) \<Longrightarrow> keeps p q"
  unfolding arm_load_store_h_def Let_def
  by (auto simp: Option.bind_eq_Some_conv split: if_splits dest!: core_frame; simp add: keeps_def)

lemma keeps_branch [core_frame]:
  "arm_branch p ins = Some (r, q) \<Longrightarrow> keeps p q"
  unfolding arm_branch_def b_bl_instr_def Let_def
  by (auto simp: Option.bind_eq_Some_conv split: if_splits dest!: core_frame; simp add: keeps_def)

lemma keeps_select_execute [core_frame]:
  "select_execute_instruction p mot n z v c = Some (r, q) \<Longrightarrow> keeps p q"
  unfolding select_execute_instruction_def traitement_LS_def traitement_BR_def
    traitement_SPE_def Let_def
  by (auto simp: Option.bind_eq_Some_conv split: if_splits dest!: core_frame; simp add: keeps_def)

lemma arm_fetch_keeps:
  "arm_fetch p x = Some (r, v, q) \<Longrightarrow> keeps (p\<lparr>cycle_count := cycle_count p + 1\<rparr>) q"
  unfolding arm_fetch_def arm_write_register_same Let_def
  by (auto simp: Option.bind_eq_Some_conv dest!: core_frame; simp add: keeps_def)

lemma arm_execute_keeps:
  "arm_execute_instruction p = Some (r, q) \<Longrightarrow> keeps (p\<lparr>cycle_count := cycle_count p + 1\<rparr>) q"
  unfolding arm_execute_instruction_def Let_def
  by (auto simp: Option.bind_eq_Some_conv split: if_splits
      intro: arm_fetch_keeps keeps_trans [OF arm_fetch_keeps keeps_select_execute])

lemma arm_step_keeps:
  "arm_step p = Some (r, q) \<Longrightarrow> keeps (p\<lparr>cycle_count := cycle_count p + 1\<rparr>) q"
  unfolding arm_step_def
  by (auto simp: Option.bind_eq_Some_conv split: if_splits
      intro: arm_execute_keeps keeps_trans [OF arm_execute_keeps keeps_exception])


subsection \<open>The core as a machine\<close>

definition core_step :: "arm_core_data \<Rightarrow> arm_core_data option" where
  "core_step p = map_option snd (arm_step p)"

definition geometry :: "arm_core_data \<Rightarrow> u64 \<times> bool" where
  "geometry p = (mem_size (mem p), mem_is_big_endian (mem p))"

lemma core_step_keeps:
  "core_step p = Some q \<Longrightarrow> keeps (p\<lparr>cycle_count := cycle_count p + 1\<rparr>) q"
  by (auto simp: core_step_def dest: arm_step_keeps)

interpretation core_machine: invariant_machine core_step wf_core
  by unfold_locales (auto dest!: core_step_keeps simp: keeps_def)

interpretation core_geometry: frame_machine core_step wf_core geometry
  by unfold_locales (auto dest!: core_step_keeps simp: keeps_def geometry_def)

lemma run_cycles: "run core_step n p = Some q \<Longrightarrow> cycle_count q = cycle_count p + of_nat n"
proof (induction n arbitrary: p)
  case 0
  then show ?case by simp
next
  case (Suc n)
  then obtain p1 where "core_step p = Some p1" "run core_step n p1 = Some q"
    by (auto simp: Option.bind_eq_Some_conv)
  with Suc.IH show ?case by (auto dest!: core_step_keeps simp: keeps_def)
qed

subsection \<open>A step from a mapped program counter\<close>

text \<open>The core after the fetch of the word at an aligned program counter.\<close>

definition fetched :: "arm_core_data \<Rightarrow> arm_core_data" where
  "fetched p = p\<lparr>cycle_count := cycle_count p + 1, reg := (reg p)\<lparr>cpsr := pc_word p + 4\<rparr>\<rparr>"

lemma fetched_simps [simp]:
  "mem (fetched p) = mem p" "regs (reg (fetched p)) = regs (reg p)"
  "pc_word (fetched p) = pc_word p + 4" "cycle_count (fetched p) = cycle_count p + 1"
  "wf_core (fetched p) = wf_core p"
  by (simp_all add: fetched_def pc_word_def wf_core_def wf_registers_def)

lemma arm_fetch_fetched:
  "word_ok (mem p) (pc_word p) \<Longrightarrow>
     arm_fetch p x = Some (0, Some (word_load (mem p) (pc_word p)), fetched p)"
  by (simp add: arm_fetch_ok fetched_def)

lemma pc_read_fetched:
  assumes "word_ok (mem p) (pc_word p)"
  shows "arm_read_usr_register (fetched p) 15 = Some (pc_word p + 8)"
proof -
  from assms have "unat (pc_word p + 4) mod 4 = 0" by (simp add: word_ok_def unat_add_4_mod)
  from aligned_pc_read [OF this] show ?thesis
    by (simp add: arm_read_pc)
qed

text \<open>The condition flags the core sees: bits 28 to 31 of the program counter word.\<close>

definition condition_of :: "arm_core_data \<Rightarrow> u32 \<Rightarrow> int" where
  "condition_of p mot = check_cond_failed (field (pc_word p) 31 1) (field (pc_word p) 30 1)
     (field (pc_word p) 28 1) (field (pc_word p) 29 1) (field mot 28 15)"

lemma arm_execute_fetched:
  assumes "word_ok (mem p) (pc_word p)" and mot: "mot = word_load (mem p) (pc_word p)"
  shows "arm_execute_instruction p =
    (if condition_of (fetched p) mot \<noteq> 0 then Some (1, fetched p)
     else select_execute_instruction (fetched p) mot
       (field (pc_word p + 4) 31 1) (field (pc_word p + 4) 30 1)
       (field (pc_word p + 4) 28 1) (field (pc_word p + 4) 29 1))"
proof -
  have "arm_read_cpsr (fetched p) = pc_word p + 4"
    by (simp add: arm_read_cpsr_def read_cpsr_def flip: pc_word_def)
  then show ?thesis
    using assms(1)
    by (simp add: arm_execute_instruction_def arm_fetch_fetched mot condition_of_def Let_def
        flag_N_bit_def flag_Z_bit_def flag_V_bit_def flag_C_bit_def)
qed

lemma arm_step_failed:
  assumes "word_ok (mem p) (pc_word p)"
    and "condition_of (fetched p) (word_load (mem p) (pc_word p)) \<noteq> 0"
  shows "arm_step p = Some (1, (fetched p)\<lparr>reg := (reg (fetched p))\<lparr>cpsr := 0\<rparr>\<rparr>)"
  using assms by (simp add: arm_step_def arm_execute_fetched arm_exception_reset)

subsection \<open>Small cores\<close>

text \<open>
  A big-endian core whose memory holds the words \<open>ws\<close> from address 0 and whose first registers
  hold \<open>rs\<close>, for the examples.
\<close>

definition sample_core :: "u32 list \<Rightarrow> u32 list \<Rightarrow> arm_core_data" where
  "sample_core ws rs =
     \<lparr>cycle_count = 0, reg = \<lparr>regs = take 15 (rs @ replicate 15 0), cpsr = 0\<rparr>,
      mem = \<lparr>mem_size = of_nat (length ws), memo = concat (map (\<lambda>w. rev (host_bytes w)) ws),
             mem_is_big_endian = True\<rparr>\<rparr>"

subsection \<open>Properties\<close>

text \<open>
  C6: Any number of steps of the core, whatever the instructions, keeps the register file and
  the memory well-formed, keeps the memory's size and byte order, and counts one cycle a step.
\<close>

lemma run_keeps_core:
  assumes "wf_core p" "run core_step n p = Some q"
  shows "wf_core q \<and> geometry q = geometry p \<and> cycle_count q = cycle_count p + of_nat n"
  using assms core_machine.run_inv core_geometry.run_frame run_cycles by blast

lemma run_keeps_core_witness:
  "\<exists>q. run core_step 1 (sample_core [0xE1A00001, 0] []) = Some q \<and> wf_core q \<and> cycle_count q = 1"
proof -
  have "run core_step 1 (sample_core [0xE1A00001, 0] []) \<noteq> None" by code_simp
  then obtain q where q: "run core_step 1 (sample_core [0xE1A00001, 0] []) = Some q" by blast
  have "wf_core (sample_core [0xE1A00001, 0] [])" by code_simp
  from run_keeps_core [OF this q] q show ?thesis by (simp add: sample_core_def)
qed

text \<open>
  C7: An instruction whose condition fails is not skipped: the step returns the number of the
  reset exception, which sets the program counter to 0; registers and memory stay.
\<close>

lemma failed_condition_resets:
  assumes "word_ok (mem p) (pc_word p)"
    and "condition_of (fetched p) (word_load (mem p) (pc_word p)) \<noteq> 0"
  shows "\<exists>q. arm_step p = Some (RESET, q) \<and> pc_word q = 0 \<and> regs (reg q) = regs (reg p) \<and>
    mem q = mem p \<and> cycle_count q = cycle_count p + 1"
  using arm_step_failed [OF assms] by (simp add: pc_word_def)

lemma failed_condition_resets_witness:
  "\<exists>q. arm_step (sample_core [0x03A00001] []) = Some (RESET, q) \<and> pc_word q = 0"
proof -
  have "word_ok (mem (sample_core [0x03A00001] [])) (pc_word (sample_core [0x03A00001] []))"
    "condition_of (fetched (sample_core [0x03A00001] []))
      (word_load (mem (sample_core [0x03A00001] [])) (pc_word (sample_core [0x03A00001] []))) \<noteq> 0"
    by code_simp+
  from failed_condition_resets [OF this] show ?thesis by blast
qed

end
