(* ===== verification/Transfers.thy ===== *)
theory Transfers
  imports Step
begin

text \<open>
  What the transfer and branch instructions do on valid operands, and the steps of the core that
  execute them: the lemmas behind the properties of loads, stores, branches and the decoder.
\<close>

subsection \<open>Register writes\<close>

lemma arm_write_twice: "arm_write_usr_register p r v = Some q \<Longrightarrow> arm_write_usr_register q r v = Some q"
  by (auto simp: arm_write_usr_register_def write_usr_register_def split: if_splits)

lemma arm_write_some: "unat r < 16 \<Longrightarrow> \<exists>q. arm_write_usr_register p r v = Some q"
  using arm_write_defined_iff [of p r v] by auto

lemma arm_read_some: "unat r < 16 \<Longrightarrow> \<exists>v. arm_read_usr_register p r = Some v"
  using arm_read_defined_iff [of p r] by auto

lemma arm_read_after_write:
  "wf_core p \<Longrightarrow> unat r < 15 \<Longrightarrow> unat s < 15 \<Longrightarrow> arm_write_usr_register p r v = Some q \<Longrightarrow>
     arm_read_usr_register q s = (if s = r then Some v else arm_read_usr_register p s)"
  by (rule core_registers.rd_wr)

lemma arm_read_regs_eq:
  "unat r < 15 \<Longrightarrow> regs (reg q) = regs (reg p) \<Longrightarrow> arm_read_usr_register q r = arm_read_usr_register p r"
  by (simp add: arm_read_low)

subsection \<open>Word and byte transfers\<close>

definition imm12 :: "u32 \<Rightarrow> u32" where
  "imm12 ins = take_bit 12 ins"

lemma imm12_eq: "ucast (ucast (ins AND 4095) :: u16) = imm12 ins"
proof -
  have "ins AND 4095 = take_bit 12 ins"
    by (simp add: take_bit_eq_mask mask_eq_exp_minus_1)
  then show ?thesis
    unfolding imm12_def by (intro bit_word_eqI) (auto simp: bit_simps)
qed

lemma scaled_offset_code:
  assumes n: "unat n < 32" and k: "k = 0 \<or> n \<noteq> 0" "unat (k :: u8) < 4"
  shows "(if k = 0 then Some (host_shl rm (uint n))
      else if k = 1 then Some (host_shr rm (uint n))
      else if k = 2 then Some (asr rm n)
      else if k = 3 then Some (ror rm n) else None) =
    Some (fst (arm_immediate_shift (unat k) rm (unat n) False))"
proof -
  have sh: "host_shl rm (uint n) = push_bit (unat n) rm" "host_shr rm (uint n) = drop_bit (unat n) rm"
    by (rule host_shl_unat [OF n], rule host_shr_unat [OF n])
  have pos: "k \<noteq> 0 \<Longrightarrow> 0 < unat n" using k(1) by (simp add: unat_gt_0)
  have "unat k = 0 \<or> unat k = 1 \<or> unat k = 2 \<or> unat k = 3" using k(2) by linarith
  then consider "k = 0" | "k = 1" | "k = 2" | "k = 3" unfolding word_unat_eq_iff by fastforce
  then show ?thesis
  proof cases
    case 1
    then show ?thesis by (simp add: arm_immediate_shift_def sh)
  next
    case 2
    with pos show ?thesis by (simp add: arm_immediate_shift_def sh)
  next
    case 3
    with pos n show ?thesis by (simp add: arm_immediate_shift_def asr_eq_signed_shift)
  next
    case 4
    with pos n show ?thesis by (simp add: arm_immediate_shift_def ror_eq_rotation)
  qed
qed

text \<open>
  The offset of a word or byte transfer as the architecture defines it: an immediate, or a
  register shifted by an immediate amount.
\<close>

definition transfer_offset :: "arm_core_data \<Rightarrow> u32 \<Rightarrow> u32" where
  "transfer_offset p ins =
     (if bit ins 25
      then fst (arm_immediate_shift (unat (field ins 5 3)) (regs (reg p) ! unat (field ins 0 15))
        (unat (field ins 7 31)) False)
      else imm12 ins)"

text \<open>
  The address the code accesses: the base plus or minus the offset, in every addressing mode. It
  is the architecture's for the offset and pre-indexed modes; a post-indexed transfer should
  access the base itself.
\<close>

definition transfer_address :: "arm_core_data \<Rightarrow> u32 \<Rightarrow> u32" where
  "transfer_address p ins =
     (let rn = regs (reg p) ! unat (field ins 16 15)
      in if bit ins 23 then rn + transfer_offset p ins else rn - transfer_offset p ins)"

text \<open>The register offsets the code computes as the architecture does: an amount, or LSL.\<close>

definition offset_ok :: "u32 \<Rightarrow> bool" where
  "offset_ok ins \<longleftrightarrow> (bit ins 25 \<longrightarrow>
     unat (field ins 0 15) < 15 \<and> (field ins 5 3 = 0 \<or> field ins 7 31 \<noteq> 0))"

lemma LDR_LDRB_twice: "LDR_LDRB p B a d n = Some q \<Longrightarrow> arm_write_usr_register q n a = Some q"
  unfolding LDR_LDRB_def by (auto simp: Option.bind_eq_Some_conv dest: arm_write_twice)

lemma arm_load_store_at:
  assumes "offset_ok ins" "unat (field ins 16 15) < 15"
  shows "arm_load_store p ins =
    (let a = transfer_address p ins in
     do {
       q \<leftarrow> (if bit ins 20 then LDR_LDRB p (field ins 22 1) a (field ins 12 15) (field ins 16 15)
            else STR_STRB p (field ins 22 1) a (field ins 12 15));
       q \<leftarrow> (if \<not> bit ins 20 \<and> \<not> bit ins 25 \<and> (\<not> bit ins 24 \<or> bit ins 21)
            then arm_write_usr_register q (field ins 16 15) a else Some q);
       Some (0, q)
     })"
proof -
  have rn: "arm_read_usr_register p (field ins 16 15) = Some (regs (reg p) ! unat (field ins 16 15))"
    using assms(2) by (simp add: arm_read_low)
  show ?thesis
  proof (cases "bit ins 25")
    case True
    with assms(1) have rm: "arm_read_usr_register p (field ins 0 15) = Some (regs (reg p) ! unat (field ins 0 15))"
      and sh: "field ins 5 3 = 0 \<or> field ins 7 31 \<noteq> 0"
      by (simp_all add: offset_ok_def arm_read_low)
    show ?thesis
      unfolding arm_load_store_def Let_def rn rm Option.bind.simps
        scaled_offset_code [OF field_31 sh field_3]
      using True by (auto simp: transfer_address_def transfer_offset_def)
  next
    case False
    then show ?thesis
      unfolding arm_load_store_def Let_def rn Option.bind.simps imm12_eq
      by (auto simp: transfer_address_def transfer_offset_def dest: LDR_LDRB_twice
          split: Option.bind_splits)
  qed
qed

lemma transfer_address_fetched: "transfer_address (fetched p) ins = transfer_address p ins"
  by (simp add: transfer_address_def transfer_offset_def Let_def)

text \<open>The valid operand of a transfer, and the value a load gives.\<close>

definition transfer_ok :: "memory_data \<Rightarrow> u32 \<Rightarrow> u32 \<Rightarrow> bool" where
  "transfer_ok m ins a \<longleftrightarrow> (if bit ins 22 then byte_ok m a else word_ok m a)"

definition transfer_load :: "memory_data \<Rightarrow> u32 \<Rightarrow> u32 \<Rightarrow> u32" where
  "transfer_load m ins a = (if bit ins 22 then ucast (memo m ! unat a) else word_load m a)"

definition transfer_store :: "memory_data \<Rightarrow> u32 \<Rightarrow> u32 \<Rightarrow> u32 \<Rightarrow> memory_data" where
  "transfer_store m ins a v = (if bit ins 22 then byte_store m a (ucast v) else word_store m a v)"

lemma LDR_LDRB_ok:
  assumes "transfer_ok (mem p) ins a" "unat d < 15" "unat n < 15"
  shows "LDR_LDRB p (field ins 22 1) a d n = Some (p\<lparr>reg := (reg p)\<lparr>regs := (regs (reg p))
    [unat d := transfer_load (mem p) ins a, unat n := a]\<rparr>\<rparr>)"
proof -
  have "d \<noteq> 15" using assms(2) by auto
  then show ?thesis using assms
    by (auto simp: LDR_LDRB_def transfer_ok_def transfer_load_def arm_read_byte_def arm_read_word_def
        memory_read_byte_ok memory_read_word_ok arm_write_low)
qed

lemma STR_STRB_ok:
  assumes "transfer_ok (mem p) ins a" "unat d < 15"
  shows "STR_STRB p (field ins 22 1) a d =
    Some (p\<lparr>mem := transfer_store (mem p) ins a (regs (reg p) ! unat d)\<rparr>)"
  using assms
  by (auto simp: STR_STRB_def transfer_ok_def transfer_store_def arm_read_low low_byte
      arm_write_byte_def arm_write_word_def memory_write_byte_ok memory_write_word_ok)

subsection \<open>Halfword transfers\<close>

definition half_address :: "arm_core_data \<Rightarrow> u32 \<Rightarrow> u32" where
  "half_address p ins =
     (let rn = regs (reg p) ! unat (field ins 16 15);
          offset = (if bit ins 22 then push_bit 4 (ucast (field ins 8 15)) OR ucast (field ins 0 15)
            else regs (reg p) ! unat (field ins 0 15))
      in if bit ins 23 then rn + offset else rn - offset)"

lemma arm_load_store_h_at:
  assumes rn: "unat (field ins 16 15) < 15" and rd: "unat (field ins 12 15) < 15"
    and rm: "bit ins 22 \<or> unat (field ins 0 15) < 15" and ok: "half_ok (mem p) (half_address p ins)"
  shows "arm_load_store_h p ins =
    (let a = half_address p ins;
         rs = (if bit ins 20 then (regs (reg p))[unat (field ins 12 15) := ucast (half_load (mem p) a)]
           else regs (reg p)) in
     Some (0, p\<lparr>
       mem := (if bit ins 20 then mem p else half_store (mem p) a (ucast (regs (reg p) ! unat (field ins 12 15)))),
       reg := (reg p)\<lparr>regs := (if \<not> bit ins 24 \<or> bit ins 21 then rs[unat (field ins 16 15) := a] else rs)\<rparr>\<rparr>))"
proof -
  have off: "(if field ins 22 1 \<noteq> 0 then Some (push_bit 4 (ucast (field ins 8 15)) OR ucast (field ins 0 15))
      else arm_read_usr_register p (field ins 0 15)) =
    Some (if bit ins 22 then push_bit 4 (ucast (field ins 8 15)) OR ucast (field ins 0 15)
      else regs (reg p) ! unat (field ins 0 15))"
    using rm by (auto simp: arm_read_low)
  have addr: "(if field ins 23 1 \<noteq> 0
      then regs (reg p) ! unat (field ins 16 15) + (if bit ins 22 then push_bit 4 (ucast (field ins 8 15)) OR ucast (field ins 0 15)
        else regs (reg p) ! unat (field ins 0 15))
      else regs (reg p) ! unat (field ins 16 15) - (if bit ins 22 then push_bit 4 (ucast (field ins 8 15)) OR ucast (field ins 0 15)
        else regs (reg p) ! unat (field ins 0 15))) = half_address p ins"
    by (simp add: half_address_def Let_def)
  show ?thesis
    unfolding arm_load_store_h_def Let_def arm_read_low [OF rn] off Option.bind.simps addr
    using rn rd ok
    by (simp add: arm_read_half_def arm_write_half_def memory_read_half_ok memory_write_half_ok
        arm_read_low arm_write_low low_half)
qed

subsection \<open>Branches\<close>

definition branch_offset :: "u32 \<Rightarrow> u32" where
  "branch_offset ins = push_bit 2 (scast (ucast ins :: 24 word))"

lemma branch_offset_code:
  "(if field (ins AND 0xFFFFFF) 23 1 \<noteq> 0 then push_bit 2 ((ins AND 0xFFFFFF) OR 0x3F000000)
    else push_bit 2 (ins AND 0xFFFFFF)) = branch_offset ins"
proof -
  have m: "ins AND 0xFFFFFF = take_bit 24 ins"
    by (simp add: take_bit_eq_mask mask_eq_exp_minus_1)
  have h: "(0x3F000000 :: u32) = push_bit 24 (mask 6)"
    by (simp add: mask_eq_exp_minus_1)
  show ?thesis
    unfolding m h branch_offset_def
  proof (rule bit_word_eqI)
    fix n
    show "bit (if field (take_bit 24 ins) 23 1 \<noteq> 0 then push_bit 2 (take_bit 24 ins OR push_bit 24 (mask 6))
        else push_bit 2 (take_bit 24 ins)) n = bit (push_bit 2 (scast (ucast ins :: 24 word)) :: u32) n"
      if "n < LENGTH(32)"
      using that by (cases "n = 25") (auto simp: bit_simps min_def not_less)
  qed
qed

lemma b_bl_instr_eq:
  "b_bl_instr p ins =
     do {
       pc \<leftarrow> arm_read_usr_register p 15;
       q \<leftarrow> (if bit ins 24 then arm_write_usr_register p 14 pc else Some p);
       q \<leftarrow> arm_write_usr_register q 15 (pc + branch_offset ins);
       Some (0, q)
     }"
  unfolding b_bl_instr_def Let_def branch_offset_code by simp

subsection \<open>Comparisons\<close>

definition comparison_result :: "nat \<Rightarrow> u32 \<Rightarrow> u32 \<Rightarrow> u32" where
  "comparison_result opcode rn op = [rn AND op, rn XOR op, rn - op, rn + op] ! (opcode - 8)"

subsection \<open>Steps\<close>

text \<open>A passed condition: always, or one of the flags' conditions on the program counter word.\<close>

definition executes :: "arm_core_data \<Rightarrow> u32 \<Rightarrow> bool" where
  "executes p mot \<longleftrightarrow> word_ok (mem p) (pc_word p) \<and> word_load (mem p) (pc_word p) = mot \<and>
     condition_of (fetched p) mot = 0"

lemma always_executes:
  "word_ok (mem p) (pc_word p) \<Longrightarrow> word_load (mem p) (pc_word p) = mot \<Longrightarrow> field mot 28 15 = 14 \<Longrightarrow>
     executes p mot"
  by (simp add: executes_def condition_of_def check_cond_failed_def)

lemma arm_step_executes:
  assumes "executes p mot"
  shows "arm_step p = do {
    (result, q) \<leftarrow> select_execute_instruction (fetched p) mot
      (field (pc_word p + 4) 31 1) (field (pc_word p + 4) 30 1)
      (field (pc_word p + 4) 28 1) (field (pc_word p + 4) 29 1);
    q \<leftarrow> (if result \<noteq> 0 then arm_exception q (word_of_int result) else Some q);
    Some (result, q) }"
  using assms by (simp add: arm_step_def arm_execute_fetched executes_def)

lemma select_transfer:
  "field mot 26 3 = 1 \<Longrightarrow> select_execute_instruction p mot n z v c = arm_load_store p mot"
  by (simp add: select_execute_instruction_def traitement_LS_def)

lemma select_branch:
  "field mot 26 3 = 2 \<Longrightarrow> select_execute_instruction p mot n z v c = traitement_BR p mot"
  by (simp add: select_execute_instruction_def)

lemma select_half:
  "field mot 26 3 = 0 \<Longrightarrow> bit mot 7 \<Longrightarrow> bit mot 4 \<Longrightarrow>
     select_execute_instruction p mot n z v c = arm_load_store_h p mot"
  by (simp add: select_execute_instruction_def Let_def)

lemma select_data_processing:
  "field mot 26 3 = 0 \<Longrightarrow> \<not> (bit mot 7 \<and> bit mot 4) \<Longrightarrow>
     select_execute_instruction p mot n z v c = traitement_AR p mot c"
  by (auto simp: select_execute_instruction_def Let_def)

lemma arm_step_branch:
  assumes ex: "executes p mot" and cls: "field mot 26 3 = 2" "bit mot 25"
  shows "arm_step p = Some (0, (fetched p)\<lparr>reg :=
    \<lparr>regs = (if bit mot 24 then (regs (reg p))[14 := pc_word p + 8] else regs (reg p)),
     cpsr = pc_word p + 8 + branch_offset mot\<rparr>\<rparr>)"
proof -
  have ok: "word_ok (mem p) (pc_word p)" using ex by (simp add: executes_def)
  have "traitement_BR (fetched p) mot = Some (0, (fetched p)\<lparr>reg :=
    \<lparr>regs = (if bit mot 24 then (regs (reg p))[14 := pc_word p + 8] else regs (reg p)),
     cpsr = pc_word p + 8 + branch_offset mot\<rparr>\<rparr>)"
    using cls(2)
    by (simp add: traitement_BR_def arm_branch_def b_bl_instr_eq pc_read_fetched [OF ok]
        arm_write_low arm_write_pc)
  then show ?thesis
    by (simp only: arm_step_executes [OF ex] select_branch [OF cls(1)]) simp
qed

text \<open>The block transfers are of the same class with bit 25 clear, and nothing executes them.\<close>

lemma arm_step_block_transfer:
  assumes "executes p mot" "field mot 26 3 = 2" "\<not> bit mot 25"
  shows "arm_step p = Some (0, fetched p)"
  using assms(3)
  by (simp add: arm_step_executes [OF assms(1)] select_branch [OF assms(2)] traitement_BR_def
      arm_branch_def)

lemma arm_step_coprocessor:
  assumes "executes p mot" "field mot 26 3 = 3"
  shows "arm_step p = Some (0, fetched p)"
  by (simp add: arm_step_executes [OF assms(1)] select_execute_instruction_def assms(2)
      traitement_SPE_def)

text \<open>A word stored by STR is the word LDR loads back from the same address, into any other register.\<close>

lemma transfer_address_mem: "transfer_address (p\<lparr>mem := m\<rparr>) ins = transfer_address p ins"
  by (simp add: transfer_address_def transfer_offset_def Let_def)

lemma store_then_load:
  assumes wf: "wf_core p"
    and st: "\<not> bit st 20" "\<not> bit st 22" "offset_ok st" "bit st 25 \<or> (bit st 24 \<and> \<not> bit st 21)"
    and ld: "bit ld 20" "\<not> bit ld 22" "offset_ok ld"
    and same: "transfer_address p ld = transfer_address p st"
    and regs: "unat (field st 16 15) < 15" "unat (field st 12 15) < 15" "unat (field ld 16 15) < 15"
      "unat (field ld 12 15) < 15" "field ld 12 15 \<noteq> field ld 16 15"
    and ok: "word_ok (mem p) (transfer_address p st)"
  shows "\<exists>q r. arm_load_store p st = Some (0, q) \<and> arm_load_store q ld = Some (0, r) \<and>
    arm_read_usr_register r (field ld 12 15) = arm_read_usr_register p (field st 12 15)"
proof -
  let ?a = "transfer_address p st" and ?v = "regs (reg p) ! unat (field st 12 15)"
  let ?q = "p\<lparr>mem := word_store (mem p) ?a ?v\<rparr>"
  let ?r = "?q\<lparr>reg := (reg p)\<lparr>regs := (regs (reg p))
      [unat (field ld 12 15) := ?v, unat (field ld 16 15) := ?a]\<rparr>\<rparr>"
  have "transfer_ok (mem p) st ?a" "transfer_ok (mem ?q) ld ?a" using ok st(2) ld(2) by (simp_all add: transfer_ok_def)
  then have "arm_load_store p st = Some (0, ?q)" "arm_load_store ?q ld = Some (0, ?r)"
    using st ld same regs ok
    by (auto simp: arm_load_store_at transfer_address_mem STR_STRB_ok LDR_LDRB_ok transfer_store_def
        transfer_load_def word_load_store Let_def)
  moreover have "unat (field ld 12 15) \<noteq> unat (field ld 16 15)" using regs(5) by (simp add: word_unat_eq_iff)
  then have "arm_read_usr_register ?r (field ld 12 15) = Some ?v"
    using regs wf by (simp add: arm_read_low wf_core_def wf_registers_def)
  ultimately show ?thesis using regs by (auto simp: arm_read_low)
qed

subsection \<open>Steps of the core on valid operands\<close>

lemma arm_step_data:
  assumes ex: "executes p mot"
    and cls: "field mot 26 3 = 0" "\<not> (bit mot 7 \<and> bit mot 4)"
    and opcode: "unat (field mot 21 15) \<notin> {6, 7, 8, 9, 10, 11}"
    and operand: "update_shifter_operand (fetched p) (field mot 12 15) (ucast (mot AND 4095))
      (field mot 25 1) (field (pc_word p + 4) 29 1) = Some (operand, carry)"
    and rn: "arm_read_usr_register (fetched p) (field mot 16 15) = Some rn"
    and rd: "unat (field mot 12 15) < 15"
  shows "arm_step p = Some (0, (fetched p)\<lparr>reg := (reg (fetched p))\<lparr>regs := (regs (reg p))
    [unat (field mot 12 15) :=
      arm_alu (unat (field mot 21 15)) rn (ucast operand) (of_bool (bit (pc_word p + 4) 29))]\<rparr>\<rparr>)"
proof -
  have c: "(ucast (field w 29 1) :: u32) = of_bool (bit w 29)" for w
    by (simp add: field_bit)
  show ?thesis
    unfolding arm_step_executes [OF ex] select_data_processing [OF cls]
      traitement_AR_transfer [OF operand rn opcode]
    using rd by (simp add: c arm_write_low)
qed

lemma arm_step_load:
  assumes ex: "executes p mot" and cls: "field mot 26 3 = 1" "bit mot 20"
    and rn: "unat (field mot 16 15) < 15" and rd: "unat (field mot 12 15) < 15"
    and address: "offset_ok mot" "a = transfer_address p mot"
    and ok: "transfer_ok (mem p) mot a"
  shows "arm_step p = Some (0, (fetched p)\<lparr>reg := (reg (fetched p))\<lparr>regs := (regs (reg p))
    [unat (field mot 12 15) := transfer_load (mem p) mot a, unat (field mot 16 15) := a]\<rparr>\<rparr>)"
proof -
  have "arm_load_store (fetched p) mot = Some (0, (fetched p)\<lparr>reg := (reg (fetched p))
    \<lparr>regs := (regs (reg p))
      [unat (field mot 12 15) := transfer_load (mem p) mot a, unat (field mot 16 15) := a]\<rparr>\<rparr>)"
    using cls(2) rn rd address ok by (simp add: arm_load_store_at transfer_address_fetched LDR_LDRB_ok)
  then show ?thesis
    by (simp only: arm_step_executes [OF ex] select_transfer [OF cls(1)]) simp
qed

lemma arm_step_store:
  assumes ex: "executes p mot" and cls: "field mot 26 3 = 1" "\<not> bit mot 20"
    and rn: "unat (field mot 16 15) < 15" and rd: "unat (field mot 12 15) < 15"
    and address: "offset_ok mot" "a = transfer_address p mot"
    and ok: "transfer_ok (mem p) mot a"
  shows "arm_step p = Some (0, (fetched p)\<lparr>
    mem := transfer_store (mem p) mot a (regs (reg p) ! unat (field mot 12 15)),
    reg := (reg (fetched p))\<lparr>regs := (if \<not> bit mot 25 \<and> (\<not> bit mot 24 \<or> bit mot 21)
      then (regs (reg p))[unat (field mot 16 15) := a] else regs (reg p))\<rparr>\<rparr>)"
proof -
  have "arm_load_store (fetched p) mot = Some (0, (fetched p)\<lparr>
    mem := transfer_store (mem p) mot a (regs (reg p) ! unat (field mot 12 15)),
    reg := (reg (fetched p))\<lparr>regs := (if \<not> bit mot 25 \<and> (\<not> bit mot 24 \<or> bit mot 21)
      then (regs (reg p))[unat (field mot 16 15) := a] else regs (reg p))\<rparr>\<rparr>)"
    using cls(2) rn rd address ok
    by (auto simp: arm_load_store_at transfer_address_fetched STR_STRB_ok arm_write_low Let_def)
  then show ?thesis
    by (simp only: arm_step_executes [OF ex] select_transfer [OF cls(1)]) simp
qed

lemma arm_step_half:
  assumes ex: "executes p mot" and cls: "field mot 26 3 = 0" "bit mot 7" "bit mot 4"
    and rn: "unat (field mot 16 15) < 15" and rd: "unat (field mot 12 15) < 15"
    and rm: "bit mot 22 \<or> unat (field mot 0 15) < 15" and address: "a = half_address p mot"
    and ok: "half_ok (mem p) a"
    and rs: "rs = (if bit mot 20 then (regs (reg p))[unat (field mot 12 15) := ucast (half_load (mem p) a)]
      else regs (reg p))"
  shows "arm_step p = Some (0, (fetched p)\<lparr>
    mem := (if bit mot 20 then mem p
      else half_store (mem p) a (ucast (regs (reg p) ! unat (field mot 12 15)))),
    reg := (reg (fetched p))\<lparr>regs := (if \<not> bit mot 24 \<or> bit mot 21
      then rs[unat (field mot 16 15) := a] else rs)\<rparr>\<rparr>)"
proof -
  have "half_address (fetched p) mot = a" using address by (simp add: half_address_def)
  with arm_load_store_h_at [OF rn rd rm, of "fetched p"] ok rs
  have "arm_load_store_h (fetched p) mot = Some (0, (fetched p)\<lparr>
    mem := (if bit mot 20 then mem p
      else half_store (mem p) a (ucast (regs (reg p) ! unat (field mot 12 15)))),
    reg := (reg (fetched p))\<lparr>regs := (if \<not> bit mot 24 \<or> bit mot 21
      then rs[unat (field mot 16 15) := a] else rs)\<rparr>\<rparr>)"
    by (simp add: Let_def)
  then show ?thesis
    by (simp only: arm_step_executes [OF ex] select_half [OF cls]) simp
qed

subsection \<open>Properties\<close>

text \<open>
  C8: One step of the core on an executed data-processing instruction (AND, EOR, SUB, RSB, ADD,
  ADC, ORR, MOV, BIC, MVN) with a destination register below 15 writes that register the value
  the architecture gives for the shifter operand the code computed, advances the program counter
  by 4, and changes no other register and no memory.
\<close>

lemma data_processing_step:
  assumes wf: "wf_core p" and ex: "executes p mot"
    and cls: "field mot 26 3 = 0" "\<not> (bit mot 7 \<and> bit mot 4)"
    and opcode: "unat (field mot 21 15) \<notin> {6, 7, 8, 9, 10, 11}"
    and operand: "update_shifter_operand (fetched p) (field mot 12 15) (ucast (mot AND 4095))
      (field mot 25 1) (field (pc_word p + 4) 29 1) = Some (operand, carry)"
    and rn: "arm_read_usr_register (fetched p) (field mot 16 15) = Some rn"
    and rd: "unat (field mot 12 15) < 15"
  shows "\<exists>q. arm_step p = Some (0, q) \<and> mem q = mem p \<and> pc_word q = pc_word p + 4 \<and>
    regs (reg q) = (regs (reg p))[unat (field mot 12 15) :=
      arm_alu (unat (field mot 21 15)) rn (ucast operand) (of_bool (bit (pc_word p + 4) 29))]"
  using arm_step_data [OF ex cls opcode operand rn rd] by (simp add: pc_word_def fetched_def)

lemma data_processing_step_witness:
  "\<exists>q. arm_step (sample_core [0xE2810005, 0] [3, 7]) = Some (0, q) \<and> regs (reg q) ! 0 = 12"
proof -
  let ?p = "sample_core [0xE2810005, 0] [3, 7]"
  have "wf_core ?p" "executes ?p 0xE2810005" "field 0xE2810005 26 3 = 0"
    "\<not> (bit (0xE2810005 :: u32) 7 \<and> bit (0xE2810005 :: u32) 4)"
    "unat (field 0xE2810005 21 15) \<notin> {6, 7, 8, 9, 10, 11}"
    "update_shifter_operand (fetched ?p) (field 0xE2810005 12 15) (ucast (0xE2810005 AND 4095 :: u32))
       (field 0xE2810005 25 1) (field (pc_word ?p + 4) 29 1) = Some (5, 0)"
    "arm_read_usr_register (fetched ?p) (field 0xE2810005 16 15) = Some 7"
    "unat (field 0xE2810005 12 15) < 15"
    by code_simp+
  from data_processing_step [OF this] obtain q where
    q: "arm_step ?p = Some (0, q)" "regs (reg q) = (regs (reg ?p))[unat (field 0xE2810005 12 15) :=
      arm_alu (unat (field 0xE2810005 21 15)) 7 (ucast (5 :: u16)) (of_bool (bit (pc_word ?p + 4) 29))]"
    by blast
  have "(regs (reg ?p))[unat (field 0xE2810005 12 15) := arm_alu (unat (field 0xE2810005 21 15)) 7
    (ucast (5 :: u16)) (of_bool (bit (pc_word ?p + 4) 29))] ! 0 = 12" by code_simp
  with q show ?thesis by metis
qed

text \<open>
  C9: A step on LDR or LDRB, whose base and destination registers are below 15 and whose address
  is mapped (and aligned, for a word), loads the word or byte at the base plus or minus the
  offset into the destination register and always writes that address back to the base register,
  whatever the addressing mode (the base wins when both are the same); memory stays. The sum is
  the address also in the post-indexed modes, where the architecture's is the base alone. The
  offset is the immediate or the shifted register of the architecture, register offsets of
  register 15 and the shifts by 0 that stand for LSR and ASR by 32 and for RRX being left out.
\<close>

lemma load_step:
  assumes wf: "wf_core p" and ex: "executes p mot" and cls: "field mot 26 3 = 1" "bit mot 20"
    and rn: "unat (field mot 16 15) < 15" and rd: "unat (field mot 12 15) < 15"
    and address: "offset_ok mot" "a = transfer_address p mot"
    and ok: "transfer_ok (mem p) mot a"
  shows "\<exists>q. arm_step p = Some (0, q) \<and> mem q = mem p \<and> pc_word q = pc_word p + 4 \<and>
    regs (reg q) = (regs (reg p))[unat (field mot 12 15) := transfer_load (mem p) mot a,
      unat (field mot 16 15) := a]"
  using arm_step_load [OF ex cls rn rd address ok] by (simp add: pc_word_def fetched_def)

lemma load_step_witness:
  "\<exists>q. arm_step (sample_core [0xE7D10100, 0xCAFE] [1, 3]) = Some (0, q) \<and>
    regs (reg q) ! 0 = 0xFE \<and> regs (reg q) ! 1 = 7"
proof -
  let ?m = "0xE7D10100 :: u32"
  let ?p = "sample_core [?m, 0xCAFE] [1, 3]"
  have "wf_core ?p" "executes ?p ?m" "field ?m 26 3 = 1" "bit ?m 20" "unat (field ?m 16 15) < 15"
    "unat (field ?m 12 15) < 15" "offset_ok ?m" "7 = transfer_address ?p ?m" "transfer_ok (mem ?p) ?m 7"
    by code_simp+
  from load_step [OF this] obtain q where q: "arm_step ?p = Some (0, q)"
    "regs (reg q) = (regs (reg ?p))[unat (field ?m 12 15) := transfer_load (mem ?p) ?m 7,
      unat (field ?m 16 15) := 7]" by blast
  have v: "((regs (reg ?p))[unat (field ?m 12 15) := transfer_load (mem ?p) ?m 7,
      unat (field ?m 16 15) := 7]) ! i = [0xFE, 7] ! i" if "i \<in> {0, 1}" for i
    using that by (elim insertE emptyE) (simp only:, code_simp)+
  have "regs (reg q) ! 0 = 0xFE" "regs (reg q) ! 1 = 7" unfolding q(2) using v [of 0] v [of 1] by simp_all
  with q(1) show ?thesis by blast
qed

text \<open>
  C10: A step on STR or STRB, whose base and source registers are below 15 and whose address,
  the base plus or minus the offset in every addressing mode, is mapped (and aligned, for a
  word), changes memory exactly by the store of the source register, or of its low byte, at that
  address; with an immediate offset it writes the address back to the base when the instruction
  asks for it, and with a register offset it never does, the pre- and post-indexed modes
  included. The offsets are those of the loads.
\<close>

lemma store_step:
  assumes wf: "wf_core p" and ex: "executes p mot" and cls: "field mot 26 3 = 1" "\<not> bit mot 20"
    and rn: "unat (field mot 16 15) < 15" and rd: "unat (field mot 12 15) < 15"
    and address: "offset_ok mot" "a = transfer_address p mot"
    and ok: "transfer_ok (mem p) mot a"
  shows "\<exists>q. arm_step p = Some (0, q) \<and> pc_word q = pc_word p + 4 \<and>
    mem q = transfer_store (mem p) mot a (regs (reg p) ! unat (field mot 12 15)) \<and>
    regs (reg q) = (if \<not> bit mot 25 \<and> (\<not> bit mot 24 \<or> bit mot 21)
      then (regs (reg p))[unat (field mot 16 15) := a] else regs (reg p))"
  using arm_step_store [OF ex cls rn rd address ok] by (simp add: pc_word_def fetched_def)

lemma store_step_witness:
  "\<exists>q. arm_step (sample_core [0xE5810004, 0] [0xCAFE, 0]) = Some (0, q) \<and> memo (mem q) ! 7 = 0xFE"
proof -
  let ?m = "0xE5810004 :: u32"
  let ?p = "sample_core [?m, 0] [0xCAFE, 0]"
  have "wf_core ?p" "executes ?p ?m" "field ?m 26 3 = 1" "\<not> bit ?m 20" "unat (field ?m 16 15) < 15"
    "unat (field ?m 12 15) < 15" "offset_ok ?m" "4 = transfer_address ?p ?m" "transfer_ok (mem ?p) ?m 4"
    by code_simp+
  from store_step [OF this] obtain q where q: "arm_step ?p = Some (0, q)"
    "mem q = transfer_store (mem ?p) ?m 4 (regs (reg ?p) ! unat (field ?m 12 15))" by blast
  have v: "memo (transfer_store (mem ?p) ?m 4 (regs (reg ?p) ! unat (field ?m 12 15))) ! 7 = 0xFE"
    by code_simp
  have "memo (mem q) ! 7 = 0xFE" unfolding q(2) by (rule v)
  with q(1) show ?thesis by blast
qed

text \<open>
  C11: A step on B or BL sets the program counter to the instruction's address plus 8 plus four
  times the signed 24-bit offset; BL puts the address plus 8 in register 14; memory stays.
\<close>

lemma branch_step:
  assumes "executes p mot" "field mot 26 3 = 2" "bit mot 25"
  shows "\<exists>q. arm_step p = Some (0, q) \<and> pc_word q = pc_word p + 8 + branch_offset mot \<and> mem q = mem p \<and>
    regs (reg q) = (if bit mot 24 then (regs (reg p))[14 := pc_word p + 8] else regs (reg p))"
  using arm_step_branch [OF assms] by (simp add: pc_word_def fetched_def)

lemma branch_step_witness:
  "\<exists>q. arm_step (sample_core [0xEBFFFFFE] []) = Some (0, q) \<and> pc_word q = 0 \<and> regs (reg q) ! 14 = 8"
proof -
  let ?m = "0xEBFFFFFE :: u32"
  have "executes (sample_core [?m] []) ?m" "field ?m 26 3 = 2" "bit ?m 25"
    by code_simp+
  from branch_step [OF this] obtain q where q: "arm_step (sample_core [?m] []) = Some (0, q)"
    "pc_word q = pc_word (sample_core [?m] []) + 8 + branch_offset ?m"
    "regs (reg q) = (if bit ?m 24 then (regs (reg (sample_core [?m] [])))[14 := pc_word (sample_core [?m] []) + 8]
      else regs (reg (sample_core [?m] [])))" by blast
  have pc: "pc_word (sample_core [?m] []) + 8 + branch_offset ?m = 0"
    and lr: "(if bit ?m 24 then (regs (reg (sample_core [?m] [])))[14 := pc_word (sample_core [?m] []) + 8]
      else regs (reg (sample_core [?m] []))) ! 14 = 8"
    by code_simp+
  have "pc_word q = 0" by (rule trans [OF q(2) pc])
  moreover have "regs (reg q) ! 14 = 8" unfolding q(3) by (rule lr)
  ultimately show ?thesis using q(1) by blast
qed

text \<open>
  C13: A comparison (TST, TEQ, CMP, CMN) changes nothing but the program counter and the cycle
  count, no flag included, and is undefined when the low byte of its result is above 15, because
  the code takes the result for a register number.
\<close>

lemma comparison_step:
  assumes ex: "executes p mot"
    and cls: "field mot 26 3 = 0" "\<not> (bit mot 7 \<and> bit mot 4)"
    and opcode: "unat (field mot 21 15) \<in> {8, 9, 10, 11}"
    and operand: "update_shifter_operand (fetched p) (field mot 12 15) (ucast (mot AND 4095))
      (field mot 25 1) (field (pc_word p + 4) 29 1) = Some (operand, carry)"
    and rn: "arm_read_usr_register (fetched p) (field mot 16 15) = Some rn"
  shows "arm_step p =
    (if unat (ucast (comparison_result (unat (field mot 21 15)) rn (ucast operand)) :: u8) < 16
     then Some (0, fetched p) else None)"
proof -
  define k where "k = unat (field mot 21 15)"
  have k: "field mot 21 15 = of_nat k" by (simp add: k_def)
  from opcode have "k = 8 \<or> k = 9 \<or> k = 10 \<or> k = 11" by (simp add: k_def)
  then have "traitement_AR (fetched p) mot (field (pc_word p + 4) 29 1) =
    (if unat (ucast (comparison_result k rn (ucast operand)) :: u8) < 16
     then Some (0, fetched p) else None)"
    unfolding traitement_AR_def k Let_def operand Option.bind.simps prod.case
    by (elim disjE) (simp_all add: comparison_instrs rn comparison_result_def)
  then show ?thesis
    unfolding arm_step_executes [OF ex] select_data_processing [OF cls] k_def by simp
qed

lemma comparison_step_witness:
  "arm_step (sample_core [0xE3510005] [0, 7]) = Some (0, fetched (sample_core [0xE3510005] [0, 7]))"
proof -
  let ?m = "0xE3510005 :: u32"
  let ?p = "sample_core [?m] [0, 7]"
  have "executes ?p ?m" "field ?m 26 3 = 0" "\<not> (bit ?m 7 \<and> bit ?m 4)"
    "unat (field ?m 21 15) \<in> {8, 9, 10, 11}"
    "update_shifter_operand (fetched ?p) (field ?m 12 15) (ucast (?m AND 4095))
       (field ?m 25 1) (field (pc_word ?p + 4) 29 1) = Some (5, 0)"
    "arm_read_usr_register (fetched ?p) (field ?m 16 15) = Some 7"
    by code_simp+
  note step = comparison_step [OF this]
  have "unat (ucast (comparison_result (unat (field ?m 21 15)) 7 (ucast (5 :: u16))) :: u8) < 16"
    by code_simp
  with step show ?thesis by simp
qed

text \<open>
  C14: SBC and RSC with a destination register below 15 write the architecture's value plus 2,
  the code complementing the carry bitwise.
\<close>

lemma subtract_with_carry_off_by_two:
  assumes ex: "executes p mot"
    and cls: "field mot 26 3 = 0" "\<not> (bit mot 7 \<and> bit mot 4)"
    and opcode: "unat (field mot 21 15) \<in> {6, 7}"
    and operand: "update_shifter_operand (fetched p) (field mot 12 15) (ucast (mot AND 4095))
      (field mot 25 1) (field (pc_word p + 4) 29 1) = Some (operand, carry)"
    and rn: "arm_read_usr_register (fetched p) (field mot 16 15) = Some rn"
    and rd: "unat (field mot 12 15) < 15"
  shows "\<exists>q. arm_step p = Some (0, q) \<and> mem q = mem p \<and> regs (reg q) =
    (regs (reg p))[unat (field mot 12 15) := arm_alu (unat (field mot 21 15)) rn (ucast operand)
      (of_bool (bit (pc_word p + 4) 29)) + 2]"
proof -
  have c: "(ucast (field w 29 1) :: u32) = of_bool (bit w 29)" for w
    by (simp add: field_bit)
  have "arm_step p = Some (0, (fetched p)\<lparr>reg := (reg (fetched p))\<lparr>regs := (regs (reg p))
    [unat (field mot 12 15) := arm_alu (unat (field mot 21 15)) rn (ucast operand)
      (of_bool (bit (pc_word p + 4) 29)) + 2]\<rparr>\<rparr>)"
    unfolding arm_step_executes [OF ex] select_data_processing [OF cls]
      traitement_AR_subtract_carry [OF operand rn opcode]
    using rd by (simp add: c arm_write_low)
  then show ?thesis by simp
qed

lemma subtract_with_carry_off_by_two_witness:
  "\<exists>q. arm_step (sample_core [0xE0C10002, 0] [0, 9, 4]) = Some (0, q) \<and> regs (reg q) ! 0 = 9 - 4 - 1 + 2"
proof -
  let ?m = "0xE0C10002 :: u32"
  let ?p = "sample_core [?m, 0] [0, 9, 4]"
  have "executes ?p ?m" "field ?m 26 3 = 0" "\<not> (bit ?m 7 \<and> bit ?m 4)"
    "unat (field ?m 21 15) \<in> {6, 7}"
    "update_shifter_operand (fetched ?p) (field ?m 12 15) (ucast (?m AND 4095))
       (field ?m 25 1) (field (pc_word ?p + 4) 29 1) = Some (4, 0)"
    "arm_read_usr_register (fetched ?p) (field ?m 16 15) = Some 9"
    "unat (field ?m 12 15) < 15"
    by code_simp+
  from subtract_with_carry_off_by_two [OF this] obtain q where
    q: "arm_step ?p = Some (0, q)" "regs (reg q) = (regs (reg ?p))[unat (field ?m 12 15) :=
      arm_alu (unat (field ?m 21 15)) 9 (ucast (4 :: u16)) (of_bool (bit (pc_word ?p + 4) 29)) + 2]"
    by blast
  have "(regs (reg ?p))[unat (field ?m 12 15) := arm_alu (unat (field ?m 21 15)) 9
    (ucast (4 :: u16)) (of_bool (bit (pc_word ?p + 4) 29)) + 2] ! 0 = 9 - 4 - 1 + 2" by code_simp
  with q show ?thesis by metis
qed



text \<open>
  C17: Coprocessor instructions, software interrupts and block transfers (LDM, STM) are executed
  as no-operations: the step returns 0 and only the fetch has changed the core.
\<close>

lemma unimplemented_step:
  assumes "executes p mot" "field mot 26 3 = 3 \<or> field mot 26 3 = 2 \<and> \<not> bit mot 25"
  shows "arm_step p = Some (0, fetched p)"
  using assms arm_step_block_transfer arm_step_coprocessor by blast

lemma unimplemented_step_witness:
  "arm_step (sample_core [0xE8BD8000] []) = Some (0, fetched (sample_core [0xE8BD8000] []))"
proof -
  let ?m = "0xE8BD8000 :: u32"
  have "executes (sample_core [?m] []) ?m" by code_simp
  moreover have "field ?m 26 3 = 3 \<or> field ?m 26 3 = 2 \<and> \<not> bit ?m 25" by code_simp
  ultimately show ?thesis by (rule unimplemented_step)
qed

text \<open>
  C18: Every instruction of the data-processing class with bits 7 and 4 set is executed as an
  unsigned halfword transfer, whatever its other bits, where its registers are below 15 and the
  halfword at its address is mapped: the halfword goes between the register and the addressed
  memory, and the base is written back in the pre- and post-indexed modes. Bit 25 is not looked
  at, so that MOV R0,#0x90 stores a halfword, nor are bits 5 and 6, so that signed loads and
  multiplications are taken for one too.
\<close>

lemma half_transfer_step:
  assumes wf: "wf_core p" and ex: "executes p mot" and cls: "field mot 26 3 = 0" "bit mot 7" "bit mot 4"
    and rn: "unat (field mot 16 15) < 15" and rd: "unat (field mot 12 15) < 15"
    and rm: "bit mot 22 \<or> unat (field mot 0 15) < 15" and address: "a = half_address p mot"
    and ok: "half_ok (mem p) a"
    and rs: "rs = (if bit mot 20 then (regs (reg p))[unat (field mot 12 15) := ucast (half_load (mem p) a)]
      else regs (reg p))"
  shows "\<exists>q. arm_step p = Some (0, q) \<and> pc_word q = pc_word p + 4 \<and>
    mem q = (if bit mot 20 then mem p
      else half_store (mem p) a (ucast (regs (reg p) ! unat (field mot 12 15)))) \<and>
    regs (reg q) = (if \<not> bit mot 24 \<or> bit mot 21 then rs[unat (field mot 16 15) := a] else rs)"
  using arm_step_half [OF ex cls rn rd rm address ok rs] by (simp add: pc_word_def fetched_def)

lemma half_transfer_step_witness:
  "\<exists>q. arm_step (sample_core [0xE3A00090, 0, 0] [4]) = Some (0, q) \<and> regs (reg q) ! 0 = 8 \<and>
    memo (mem q) ! 9 = 4"
proof -
  let ?m = "0xE3A00090 :: u32"
  let ?p = "sample_core [?m, 0, 0] [4]"
  have h: "wf_core ?p" "executes ?p ?m" "field ?m 26 3 = 0" "bit ?m 7" "bit ?m 4" "unat (field ?m 16 15) < 15"
    "unat (field ?m 12 15) < 15" "bit ?m 22 \<or> unat (field ?m 0 15) < 15" "8 = half_address ?p ?m"
    "half_ok (mem ?p) 8" by code_simp+
  have b: "\<not> bit ?m 20" "bit ?m 21" by code_simp+
  from half_transfer_step [OF h refl] b obtain q where q: "arm_step ?p = Some (0, q)"
    "mem q = half_store (mem ?p) 8 (ucast (regs (reg ?p) ! unat (field ?m 12 15)))"
    "regs (reg q) = (regs (reg ?p))[unat (field ?m 16 15) := 8]" by auto
  have v: "(regs (reg ?p))[unat (field ?m 16 15) := 8] ! 0 = 8"
    "memo (half_store (mem ?p) 8 (ucast (regs (reg ?p) ! unat (field ?m 12 15)))) ! 9 = 4"
    by code_simp+
  have "regs (reg q) ! 0 = 8" "memo (mem q) ! 9 = 4" unfolding q(2,3) by (rule v)+
  with q(1) show ?thesis by blast
qed

end
