(* ===== verification/Cformat.thy ===== *)
theory Cformat
  imports Prelude "HOL-Library.Char_ord"
begin

text \<open>
  The conversions of the C library the program uses on text: \<open>%02x\<close>, \<open>%08X\<close> and \<open>%d\<close> of
  \<open>printf\<close>, \<open>%x\<close> of \<open>sscanf\<close> (with a width or without), and \<open>atoi\<close>. A C string is the list
  of its characters before the terminating null; a scan stops by itself at a null character,
  which is neither a space, a sign nor a digit.
\<close>

subsection \<open>Characters\<close>

definition NUL :: char where "NUL = CHR 0x00"

definition cstr :: "string \<Rightarrow> string" where
  "cstr s = takeWhile (\<lambda>c. c \<noteq> NUL) s"

definition byte_of :: "char \<Rightarrow> u8" where
  "byte_of c = of_char c"

definition char_of_byte :: "u8 \<Rightarrow> char" where
  "char_of_byte b = char_of (unat b)"

definition isspace :: "char \<Rightarrow> bool" where
  "isspace c \<longleftrightarrow> (let n = (of_char c :: nat) in n = 32 \<or> 9 \<le> n \<and> n \<le> 13)"

definition isdigit :: "char \<Rightarrow> bool" where
  "isdigit c \<longleftrightarrow> (let n = (of_char c :: nat) in 48 \<le> n \<and> n \<le> 57)"

definition hex_value :: "char \<Rightarrow> nat option" where
  "hex_value c =
     (let n = (of_char c :: nat) in
      if 48 \<le> n \<and> n \<le> 57 then Some (n - 48)
      else if 97 \<le> n \<and> n \<le> 102 then Some (n - 87)
      else if 65 \<le> n \<and> n \<le> 70 then Some (n - 55)
      else None)"

subsection \<open>Formatting\<close>

definition hex_lower :: "nat \<Rightarrow> char" where
  "hex_lower n = ''0123456789abcdef'' ! n"

definition hex_upper :: "nat \<Rightarrow> char" where
  "hex_upper n = ''0123456789ABCDEF'' ! n"

definition format_02x :: "u8 \<Rightarrow> string" where
  "format_02x b = [hex_lower (unat b div 16), hex_lower (unat b mod 16)]"

definition format_08X :: "u32 \<Rightarrow> string" where
  "format_08X w = map (\<lambda>k. hex_upper (unat (drop_bit (4 * k) w AND 15))) [7, 6, 5, 4, 3, 2, 1, 0]"

fun format_nat :: "nat \<Rightarrow> string" where
  "format_nat n =
     (if n < 10 then [hex_lower n] else format_nat (n div 10) @ [hex_lower (n mod 10)])"

declare format_nat.simps [simp del]

definition format_d :: "int \<Rightarrow> string" where
  "format_d i = (if i < 0 then CHR ''-'' # format_nat (nat (- i)) else format_nat (nat i))"

subsection \<open>Scanning\<close>

fun skip_sign :: "string \<Rightarrow> bool \<times> string" where
  "skip_sign [] = (False, [])"
| "skip_sign (c # s) =
     (if c = CHR ''-'' then (True, s) else if c = CHR ''+'' then (False, s) else (False, c # s))"

definition skip_0x :: "string \<Rightarrow> string" where
  "skip_0x s = (if take 2 s = ''0x'' \<or> take 2 s = ''0X'' then drop 2 s else s)"

fun hex_number :: "nat \<Rightarrow> string \<Rightarrow> nat" where
  "hex_number v [] = v"
| "hex_number v (c # s) = (case hex_value c of None \<Rightarrow> v | Some d \<Rightarrow> hex_number (16 * v + d) s)"

text \<open>
  \<open>%x\<close>: the converted value, as an \<open>unsigned int\<close>, with the rest of the input; \<open>None\<close> is a
  matching failure, which leaves the variable as it was. The number is read by \<open>strtoul\<close>,
  which saturates at the largest \<open>unsigned long\<close>.
\<close>

definition scan_x :: "nat option \<Rightarrow> string \<Rightarrow> (u32 \<times> string) option" where
  "scan_x width s =
     (let s = dropWhile isspace s;
          item = (case width of None \<Rightarrow> s | Some n \<Rightarrow> take n s);
          (neg, item') = skip_sign item;
          digits = skip_0x item';
          rest = dropWhile (\<lambda>c. hex_value c \<noteq> None) digits;
          v = hex_number 0 digits
      in if length rest = length digits then None
         else Some
           (if v \<ge> 2 ^ 64 then - 1 else if neg then - word_of_nat v else word_of_nat v,
            drop (length item - length rest) s))"

text \<open>\<open>sscanf(s, "%x,%x", &a, &b)\<close>: both variables, each unset when its conversion fails.\<close>

definition scan_x_x :: "string \<Rightarrow> u32 option \<times> u32 option" where
  "scan_x_x s =
     (case scan_x None s of
        None \<Rightarrow> (None, None)
      | Some (a, rest) \<Rightarrow>
          (case rest of
             c # rest' \<Rightarrow> if c = CHR '','' then (Some a, map_option fst (scan_x None rest'))
                         else (Some a, None)
           | [] \<Rightarrow> (Some a, None)))"

fun dec_number :: "nat \<Rightarrow> string \<Rightarrow> nat" where
  "dec_number v [] = v"
| "dec_number v (c # s) = (if isdigit c then dec_number (10 * v + (of_char c - 48)) s else v)"

text \<open>\<open>atoi\<close> is \<open>(int) strtol(s, NULL, 10)\<close>, with a 64-bit \<open>long\<close> that saturates.\<close>

definition atoi :: "string \<Rightarrow> int" where
  "atoi s =
     (let (neg, digits) = skip_sign (dropWhile isspace s);
          v = int (dec_number 0 digits);
          l = (if neg then max (- v) (- (2 ^ 63)) else min v (2 ^ 63 - 1))
      in sint (word_of_int l :: u32))"

subsection \<open>What is formatted is scanned back\<close>

lemma byte_of_char_of_byte [simp]: "byte_of (char_of_byte b) = b"
proof -
  have "unat b < 256" using unsigned_less [of b, where ?'a = nat] by simp
  then have "of_char (char_of (unat b)) = unat b" by simp
  then have "(of_nat (of_char (char_of (unat b))) :: u8) = of_nat (unat b)" by (simp only:)
  then show ?thesis
    by (simp only: byte_of_def char_of_byte_def of_nat_of_char of_nat_unat ucast_id)
qed

lemma nibble_cases:
  "n < 16 \<Longrightarrow> n \<in> {0, 1, 2, 3, 4, 5, 6, 7, 8, 9, 10, 11, 12, 13, 14, 15 :: nat}"
  by (simp add: numeral_eq_Suc less_Suc_eq)

lemma hex_lower_digit:
  assumes "n < 16"
  shows "hex_value (hex_lower n) = Some n" "\<not> isspace (hex_lower n)"
    "hex_lower n \<noteq> CHR ''-''" "hex_lower n \<noteq> CHR ''+''" "hex_lower n \<noteq> CHR ''x''"
    "hex_lower n \<noteq> CHR ''X''" "hex_lower n \<noteq> CHR ''#''" "hex_lower n \<noteq> NUL"
  using nibble_cases [OF assms]
  by (elim insertE emptyE;
      simp add: hex_lower_def hex_value_def isspace_def NUL_def)+

lemma nibbles: "unat (b :: u8) div 16 < 16" "unat (b :: u8) mod 16 < 16"
  using unsigned_less [of b, where ?'a = nat] by (simp_all add: less_mult_imp_div_less)

lemma scan_format_02x: "scan_x (Some 2) (format_02x b @ rest) = Some (ucast b, rest)"
proof -
  let ?h = "hex_lower (unat b div 16)" and ?l = "hex_lower (unat b mod 16)"
  note h = hex_lower_digit [OF nibbles(1) [of b]] and l = hex_lower_digit [OF nibbles(2) [of b]]
  have "hex_number 0 [?h, ?l] = unat b"
    using h(1) l(1) by simp
  moreover have "unat b < 2 ^ 64"
    using unsigned_less [of b, where ?'a = nat] by simp
  ultimately show ?thesis
    using h l by (simp add: scan_x_def format_02x_def skip_0x_def of_nat_unat)
qed

lemma scan_format_02x_unbounded:
  assumes "rest = [] \<or> hex_value (hd rest) = None"
  shows "scan_x None (format_02x b @ rest) = Some (ucast b, rest)"
proof -
  let ?h = "hex_lower (unat b div 16)" and ?l = "hex_lower (unat b mod 16)"
  note h = hex_lower_digit [OF nibbles(1) [of b]] and l = hex_lower_digit [OF nibbles(2) [of b]]
  have stop: "dropWhile (\<lambda>c. hex_value c \<noteq> None) rest = rest" "hex_number v rest = v" for v
    using assms by (cases rest; simp)+
  have "hex_number 0 (?h # ?l # rest) = unat b"
    using h(1) l(1) stop(2) by simp
  moreover have "unat b < 2 ^ 64"
    using unsigned_less [of b, where ?'a = nat] by simp
  ultimately show ?thesis
    using h l stop(1) by (simp add: scan_x_def format_02x_def skip_0x_def of_nat_unat)
qed

lemma ucast_byte [simp]: "ucast (ucast b :: u32) = b" for b :: u8
  by (rule bit_word_eqI) (simp add: bit_simps)

lemma ucast_byte_eq_iff [simp]: "(ucast a :: u32) = ucast b \<longleftrightarrow> a = b" for a b :: u8
  by (metis ucast_byte)

end
