(* ===== verification/Gdb.thy ===== *)
theory Gdb
  imports Step Cformat
begin

text \<open>
  \<open>gdb_protocol.c\<close>: the packets of the gdb remote protocol, their checksums, and the twelve
  request handlers that read and write the simulated core. Bytes are written to the client as
  strings, logged in \<open>sent\<close> one entry for each \<open>Rio_writen\<close>; debug messages and traces are left
  out. A handler gives \<open>None\<close> for undefined behaviour (an access outside the packet, an
  indeterminate variable used, the answer buffer overflown) and \<open>Aborts\<close> for a failed \<open>assert\<close>.
\<close>

subsection \<open>State\<close>

definition MAX_PACKET_SIZE :: nat where "MAX_PACKET_SIZE = 1024"

text \<open>\<open>Makefile.am\<close> compiles the simulator with this symbol defined.\<close>

definition BIG_ENDIAN_SIMULATOR :: bool where "BIG_ENDIAN_SIMULATOR = True"

text \<open>
  \<open>packet\<close> is the first \<open>len\<close> characters of the packet array. The field \<open>mem\<close> of the code is the
  memory of the core, the same object in every run.
\<close>

record gdb_data =
  arm :: arm_core_data
  target_exception :: int
  packet :: string
  sent :: "string list"
  shut :: bool

datatype gdb_result = Done gdb_data | Aborts

definition gdb_init_data :: "arm_core_data \<Rightarrow> gdb_data" where
  "gdb_init_data p = \<lparr>arm = p, target_exception = 0, packet = [], sent = [], shut = False\<rparr>"

definition Rio_writen :: "gdb_data \<Rightarrow> string \<Rightarrow> gdb_data" where
  "Rio_writen gdb s = gdb\<lparr>sent := sent gdb @ [s]\<rparr>"

subsection \<open>Packets\<close>

definition gdb_transmit_packet :: "gdb_data \<Rightarrow> gdb_data" where
  "gdb_transmit_packet gdb = Rio_writen gdb (packet gdb)"

definition gdb_send_ack :: "gdb_data \<Rightarrow> gdb_data" where
  "gdb_send_ack gdb = Rio_writen gdb ''+''"

definition gdb_require_retransmission :: "gdb_data \<Rightarrow> gdb_data" where
  "gdb_require_retransmission gdb = Rio_writen gdb ''-''"

definition checksum :: "string \<Rightarrow> u8" where
  "checksum s = foldl (\<lambda>check c. check + byte_of c) 0 s"

text \<open>
  \<open>content\<close> is what the handler has put at \<open>packet + 1\<close>. The frame needs five more places for
  the start, the end mark, the two digits and the terminating null.
\<close>

definition gdb_send_buffer :: "gdb_data \<Rightarrow> string \<Rightarrow> gdb_data option" where
  "gdb_send_buffer gdb content =
     (if length content + 5 > MAX_PACKET_SIZE then None
      else let check = checksum content
           in Some (gdb_transmit_packet
                (gdb\<lparr>packet := ''$'' @ content @ ''#'' @ format_02x check\<rparr>)))"

definition gdb_send_data :: "gdb_data \<Rightarrow> string \<Rightarrow> gdb_data option" where
  "gdb_send_data gdb data = gdb_send_buffer gdb data"

subsection \<open>Words as strings of bytes\<close>

text \<open>
  The indices the loop \<open>for (; (i<4) && (i>=0); i+=step)\<close> visits, with \<open>i\<close> and \<open>step\<close> unsigned:
  five tests are enough, downwards the index wraps after 0.
\<close>

fun byte_indices :: "nat \<Rightarrow> u32 \<Rightarrow> u32 \<Rightarrow> nat list" where
  "byte_indices 0 i step = []"
| "byte_indices (Suc n) i step =
     (if i < 4 \<and> i \<ge> 0 then unat i # byte_indices n (i + step) step else [])"

definition byte_order :: "bool \<Rightarrow> nat list" where
  "byte_order target_big_endian =
     (if is_big_endian = of_bool target_big_endian then byte_indices 5 0 1
      else byte_indices 5 3 (- 1))"

text \<open>
  The loop of \<open>read_uint32\<close>, at the character \<open>pos\<close> of \<open>data\<close>: the variable \<open>value\<close> keeps its
  content when nothing is scanned. The null that ends \<open>data\<close> may be read, nothing after it.
\<close>

fun read_uint32_loop :: "nat list \<Rightarrow> string \<Rightarrow> nat \<Rightarrow> u32 option \<Rightarrow> u8 list \<Rightarrow> u8 list option" where
  "read_uint32_loop [] data pos value bytes = Some bytes"
| "read_uint32_loop (i # is) data pos value bytes =
     (if pos \<le> length data
      then do {
        value \<leftarrow> (case scan_x (Some 2) (drop pos data) of Some (v, _) \<Rightarrow> Some v | None \<Rightarrow> value);
        read_uint32_loop is data (pos + 2) (Some value) (bytes[i := ucast value])
      }
      else None)"

definition read_uint32 :: "bool \<Rightarrow> string \<Rightarrow> nat \<Rightarrow> u32 option" where
  "read_uint32 target_big_endian data pos =
     map_option host_word
       (read_uint32_loop (byte_order target_big_endian) data pos None [0, 0, 0, 0])"

definition write_uint32 :: "bool \<Rightarrow> u32 \<Rightarrow> string" where
  "write_uint32 target_big_endian value =
     concat (map (\<lambda>i. format_02x (host_bytes value ! i)) (byte_order target_big_endian))"

subsection \<open>Handlers\<close>

definition gdb_send_stop_reason :: "gdb_data \<Rightarrow> gdb_data option" where
  "gdb_send_stop_reason gdb =
     (if target_exception gdb = UNDEFINED_INSTRUCTION then gdb_send_data gdb ''S04''
      else if target_exception gdb = PREFETCH_ABORT \<or> target_exception gdb = DATA_ABORT
      then gdb_send_data gdb ''S10''
      else gdb_send_data gdb ''S05'')"

text \<open>
  The loop of \<open>cont\<close>. It may run forever: then it has no value. \<open>instruction\<close> keeps its
  content when the memory read fails.
\<close>

definition breakpoint :: "u32 \<Rightarrow> bool" where
  "breakpoint instruction \<longleftrightarrow> instruction AND 0xFFF000F0 = 0xE7F000F0"

definition next_instruction :: "arm_core_data \<Rightarrow> u32 option \<Rightarrow> u32 option" where
  "next_instruction p instruction =
     do {
       r15 \<leftarrow> arm_read_register p 15;
       (_, instruction) \<leftarrow> arm_read_word p (r15 - 4) instruction;
       instruction
     }"

definition step_target :: "gdb_data \<Rightarrow> gdb_data option" where
  "step_target gdb = do { (result, p) \<leftarrow> arm_step (arm gdb);
                          Some (gdb\<lparr>arm := p, target_exception := result\<rparr>) }"

partial_function (option) cont_loop :: "gdb_data \<Rightarrow> u32 option \<Rightarrow> gdb_data option" where
  "cont_loop gdb instruction =
     do {
       instruction \<leftarrow> next_instruction (arm gdb) instruction;
       if breakpoint instruction then Some gdb
       else do { gdb \<leftarrow> step_target gdb; cont_loop gdb (Some instruction) }
     }"

definition cont :: "gdb_data \<Rightarrow> string \<Rightarrow> gdb_data option" where
  "cont gdb data = do { gdb \<leftarrow> cont_loop gdb None; gdb_send_stop_reason gdb }"

definition kill_request :: "gdb_data \<Rightarrow> string \<Rightarrow> gdb_data option" where
  "kill_request gdb data = Some (gdb\<lparr>shut := True\<rparr>)"

definition query :: "gdb_data \<Rightarrow> string \<Rightarrow> gdb_data option" where
  "query gdb data =
     (if cstr data = ''Offsets'' then gdb_send_data gdb ''Text=0;Data=0;Bss=0''
      else if take 9 (cstr data) = ''Supported'' then gdb_send_data gdb ''PacketSize=400''
      else if cstr data = ''TStatus'' then gdb_send_data gdb ''T0;tnotrun:0''
      else if cstr data = ''Symbol::'' then gdb_send_data gdb ''''
      else gdb_send_data gdb '''')"

fun hex_registers :: "arm_core_data \<Rightarrow> nat list \<Rightarrow> string option" where
  "hex_registers p [] = Some []"
| "hex_registers p (i # is) =
     do {
       v \<leftarrow> arm_read_register p (of_nat i);
       s \<leftarrow> hex_registers p is;
       Some (write_uint32 BIG_ENDIAN_SIMULATOR v @ s)
     }"

definition read_general_registers :: "gdb_data \<Rightarrow> string \<Rightarrow> gdb_data option" where
  "read_general_registers gdb data =
     do {
       low \<leftarrow> hex_registers (arm gdb) [0..<15];
       pc \<leftarrow> arm_read_register (arm gdb) 15;
       gdb_send_buffer gdb
         (low @ write_uint32 BIG_ENDIAN_SIMULATOR (pc - 4) @ concat (replicate (8 * 3) ''xxxxxxxx'') @
          ''xxxxxxxx'' @ write_uint32 BIG_ENDIAN_SIMULATOR (arm_read_cpsr (arm gdb)))
     }"

fun read_memory_loop :: "nat \<Rightarrow> arm_core_data \<Rightarrow> u32 \<Rightarrow> u8 option \<Rightarrow> string option" where
  "read_memory_loop 0 p address value = Some []"
| "read_memory_loop (Suc n) p address value =
     do {
       (result, value) \<leftarrow> memory_read_byte (mem p) address value;
       if result \<noteq> - 1
       then do {
         v \<leftarrow> value;
         s \<leftarrow> read_memory_loop n p (address + 1) value;
         Some (format_02x v @ s)
       }
       else Some []
     }"

definition read_memory :: "gdb_data \<Rightarrow> string \<Rightarrow> gdb_data option" where
  "read_memory gdb data =
     (let (address, n) = scan_x_x (cstr data) in
      do {
        n \<leftarrow> n;
        address \<leftarrow> address;
        s \<leftarrow> read_memory_loop (unat n) (arm gdb) address None;
        gdb_send_buffer gdb s
      })"

text \<open>The register number of \<open>p\<close> is read in decimal.\<close>

definition gdb_read_register :: "gdb_data \<Rightarrow> string \<Rightarrow> gdb_result option" where
  "gdb_read_register gdb data =
     (let reg = (word_of_int (atoi (cstr data)) :: u32) in
      if \<not> reg < 16 then Some Aborts
      else do {
        v \<leftarrow> arm_read_register (arm gdb) (ucast reg);
        gdb \<leftarrow> gdb_send_buffer gdb
          (write_uint32 BIG_ENDIAN_SIMULATOR (v - (if reg = 15 then 4 else 0)));
        Some (Done gdb)
      })"

definition reason :: "gdb_data \<Rightarrow> string \<Rightarrow> gdb_data option" where
  "reason gdb data = gdb_send_stop_reason gdb"

definition set_thread :: "gdb_data \<Rightarrow> string \<Rightarrow> gdb_data option" where
  "set_thread gdb data =
     (case data @ [NUL] of
        [] \<Rightarrow> None
      | type # rest \<Rightarrow>
          if rest = [] then None
          else (let v = atoi (cstr rest) in
            if (type = CHR ''c'' \<or> type = CHR ''g'') \<and> v < 1 \<and> v > - 2
            then gdb_send_data gdb ''OK'' else gdb_send_data gdb ''E01''))"

definition gdb_step :: "gdb_data \<Rightarrow> string \<Rightarrow> gdb_data option" where
  "gdb_step gdb data = do { gdb \<leftarrow> step_target gdb; gdb_send_stop_reason gdb }"

fun write_registers_loop :: "nat list \<Rightarrow> arm_core_data \<Rightarrow> string \<Rightarrow> arm_core_data option" where
  "write_registers_loop [] p data = Some p"
| "write_registers_loop (i # is) p data =
     do {
       v \<leftarrow> read_uint32 BIG_ENDIAN_SIMULATOR data (8 * i);
       p \<leftarrow> arm_write_register p (of_nat i) v;
       write_registers_loop is p data
     }"

text \<open>
  The 24 words of the floating point registers and the word \<open>fps\<close> are scanned and dropped: the
  status register is the word after them.
\<close>

definition write_general_registers :: "gdb_data \<Rightarrow> string \<Rightarrow> gdb_data option" where
  "write_general_registers gdb data =
     do {
       p \<leftarrow> write_registers_loop [0..<16] (arm gdb) data;
       v \<leftarrow> read_uint32 BIG_ENDIAN_SIMULATOR data (8 * (16 + 8 * 3 + 1));
       gdb_send_data (gdb\<lparr>arm := arm_write_cpsr p v\<rparr>) ''OK''
     }"

text \<open>
  \<open>content\<close> is the rest of the packet with its terminating null. A byte 0x7d escapes the next.
\<close>

fun write_memory_loop ::
  "nat \<Rightarrow> bool \<Rightarrow> arm_core_data \<Rightarrow> u32 \<Rightarrow> string \<Rightarrow> (bool \<times> arm_core_data) option" where
  "write_memory_loop 0 write_ok p address content = Some (write_ok, p)"
| "write_memory_loop (Suc n) write_ok p address content =
     (if \<not> write_ok then Some (write_ok, p)
      else case content of
        [] \<Rightarrow> None
      | c # content \<Rightarrow> do {
          (v, content) \<leftarrow>
            (if byte_of c = 0x7d
             then (case content of [] \<Rightarrow> None | c # content \<Rightarrow> Some (byte_of c XOR 0x20, content))
             else Some (byte_of c, content));
          (result, m) \<leftarrow> memory_write_byte (mem p) address v;
          write_memory_loop n (result = 0) (p\<lparr>mem := m\<rparr>) (address + 1) content
        })"

definition index_after :: "char \<Rightarrow> string \<Rightarrow> string option" where
  "index_after c s =
     (if c \<in> set (cstr s) then Some (drop (length (takeWhile (\<lambda>d. d \<noteq> c) s) + 1) (s @ [NUL]))
      else None)"

text \<open>Without a colon \<open>content\<close> is no valid pointer: it must not be read.\<close>

definition write_memory_binary :: "gdb_data \<Rightarrow> string \<Rightarrow> gdb_data option" where
  "write_memory_binary gdb data =
     (let (address, n) = scan_x_x (cstr data);
          content = (case index_after (CHR '':'') data of Some s \<Rightarrow> s | None \<Rightarrow> []) in
      do {
        address \<leftarrow> address;
        n \<leftarrow> n;
        let write_ok = (ucast address < memory_get_size (mem (arm gdb)));
        (write_ok, p) \<leftarrow> write_memory_loop (unat n) write_ok (arm gdb) address content;
        gdb_send_data (gdb\<lparr>arm := p\<rparr>) (if write_ok then ''OK'' else ''E02'')
      })"

definition gdb_write_register :: "gdb_data \<Rightarrow> string \<Rightarrow> gdb_result option" where
  "gdb_write_register gdb data =
     do {
       data' \<leftarrow> index_after (CHR ''='') data;
       v \<leftarrow> read_uint32 BIG_ENDIAN_SIMULATOR (butlast data') 0;
       (reg, _) \<leftarrow> scan_x None (cstr data);
       if \<not> reg < 16 then Some Aborts
       else do {
         p \<leftarrow> arm_write_register (arm gdb) (ucast reg) v;
         gdb \<leftarrow> gdb_send_data (gdb\<lparr>arm := p\<rparr>) ''OK'';
         Some (Done gdb)
       }
     }"

subsection \<open>Dispatch\<close>

datatype gdb_handler = Cont | Kill_request | Query | Read_general_registers | Read_memory
  | Read_register | Reason | Set_thread | Step_handler | Write_general_registers
  | Write_memory_binary | Write_register

definition gdb_init :: "char \<Rightarrow> gdb_handler option" where
  "gdb_init = (\<lambda>_. None)
     (CHR ''c'' := Some Cont, CHR ''k'' := Some Kill_request, CHR ''q'' := Some Query,
      CHR ''g'' := Some Read_general_registers, CHR ''m'' := Some Read_memory,
      CHR ''p'' := Some Read_register, CHR ''?'' := Some Reason, CHR ''H'' := Some Set_thread,
      CHR ''s'' := Some Step_handler, CHR ''G'' := Some Write_general_registers,
      CHR ''X'' := Some Write_memory_binary, CHR ''P'' := Some Write_register)"

fun run_handler :: "gdb_handler \<Rightarrow> gdb_data \<Rightarrow> string \<Rightarrow> gdb_result option" where
  "run_handler Cont gdb data = map_option Done (cont gdb data)"
| "run_handler Kill_request gdb data = map_option Done (kill_request gdb data)"
| "run_handler Query gdb data = map_option Done (query gdb data)"
| "run_handler Read_general_registers gdb data = map_option Done (read_general_registers gdb data)"
| "run_handler Read_memory gdb data = map_option Done (read_memory gdb data)"
| "run_handler Read_register gdb data = gdb_read_register gdb data"
| "run_handler Reason gdb data = map_option Done (reason gdb data)"
| "run_handler Set_thread gdb data = map_option Done (set_thread gdb data)"
| "run_handler Step_handler gdb data = map_option Done (gdb_step gdb data)"
| "run_handler Write_general_registers gdb data = map_option Done (write_general_registers gdb data)"
| "run_handler Write_memory_binary gdb data = map_option Done (write_memory_binary gdb data)"
| "run_handler Write_register gdb data = gdb_write_register gdb data"

text \<open>
  \<open>packet_in\<close> is the frame the scanner matched: \<open>$\<close>, the payload, \<open>#\<close> and two digits. The
  payload ends where the code overwrites the end mark with a null. The length the code takes
  is an \<open>int\<close>, so the index is 1 for an empty payload.
\<close>

definition gdb_packet_analysis :: "gdb_data \<Rightarrow> string \<Rightarrow> gdb_result option" where
  "gdb_packet_analysis gdb packet_in =
     (let i = max 1 (length packet_in - 3);
          check = checksum (drop 1 (take i packet_in)) in
      if i + 1 > length packet_in then None
      else do {
        (given, _) \<leftarrow> scan_x None (drop (i + 1) packet_in);
        if ucast check \<noteq> given then Some (Done (gdb_require_retransmission gdb))
        else do {
          let gdb = gdb_send_ack gdb;
          let payload = drop 1 (take i packet_in);
          case payload of
            [] \<Rightarrow> map_option Done (gdb_send_data gdb '''')
          | c # data \<Rightarrow>
              (case gdb_init c of
                 None \<Rightarrow> map_option Done (gdb_send_data gdb '''')
               | Some h \<Rightarrow> run_handler h gdb data)
        }
      })"

subsection \<open>Words as text: round trips\<close>

lemma byte_indices_up: "byte_indices 5 0 1 = [0, 1, 2, 3]"
  by code_simp

lemma byte_indices_down: "byte_indices 5 3 (- 1) = [3, 2, 1, 0]"
  by code_simp

lemma byte_order_values: "byte_order be = (if be then [3, 2, 1, 0] else [0, 1, 2, 3])"
  by (cases be) (simp_all add: byte_order_def is_big_endian_host byte_indices_up byte_indices_down)

lemma length_format_02x [simp]: "length (format_02x b) = 2"
  by (simp add: format_02x_def)

lemma length_write_uint32 [simp]: "length (write_uint32 be v) = 8"
  by (simp add: write_uint32_def byte_order_values)

lemma scan_at_byte:
  assumes "drop pos data = format_02x b @ rest"
  shows "read_uint32_loop (i # is) data pos x bytes
    = read_uint32_loop is data (pos + 2) (Some (ucast b)) (bytes[i := b])"
    and "drop (pos + 2) data = rest" and "pos \<le> length data"
proof -
  have "length (drop pos data) = length (format_02x b @ rest)" by (simp only: assms)
  then show pos: "pos \<le> length data" by simp
  have "drop (pos + 2) data = drop 2 (drop pos data)" by (simp add: add.commute)
  then show "drop (pos + 2) data = rest" by (simp add: assms)
  show "read_uint32_loop (i # is) data pos x bytes
    = read_uint32_loop is data (pos + 2) (Some (ucast b)) (bytes[i := b])"
    using pos by (simp add: assms scan_format_02x)
qed

lemma read_four_bytes:
  assumes "drop pos data = format_02x a @ format_02x b @ format_02x c @ format_02x d @ rest"
  shows "read_uint32_loop [i, j, k, l] data pos x bytes
    = Some (bytes[i := a, j := b, k := c, l := d])"
  using scan_at_byte(1) [OF assms] scan_at_byte(1) [OF scan_at_byte(2) [OF assms]]
    scan_at_byte(1) [OF scan_at_byte(2) [OF scan_at_byte(2) [OF assms]]]
    scan_at_byte(1) [OF scan_at_byte(2) [OF scan_at_byte(2) [OF scan_at_byte(2) [OF assms]]]]
  by (simp del: read_uint32_loop.simps(2))

lemma host_bytes_nth:
  "[host_bytes w ! 0, host_bytes w ! 1, host_bytes w ! 2, host_bytes w ! 3] = host_bytes w"
  by (simp add: host_bytes_def)

lemma read_write_uint32:
  assumes "drop pos data = write_uint32 be v @ rest"
  shows "read_uint32 be data pos = Some v"
proof (cases be)
  case True
  with assms have "drop pos data = format_02x (host_bytes v ! 3) @ format_02x (host_bytes v ! 2) @
      format_02x (host_bytes v ! 1) @ format_02x (host_bytes v ! 0) @ rest"
    by (simp add: write_uint32_def byte_order_values)
  from read_four_bytes [OF this] True show ?thesis
    using host_word_bytes [of v] host_bytes_nth [of v]
    by (simp add: read_uint32_def byte_order_values del: host_word.simps)
next
  case False
  with assms have "drop pos data = format_02x (host_bytes v ! 0) @ format_02x (host_bytes v ! 1) @
      format_02x (host_bytes v ! 2) @ format_02x (host_bytes v ! 3) @ rest"
    by (simp add: write_uint32_def byte_order_values)
  from read_four_bytes [OF this] False show ?thesis
    using host_word_bytes [of v] host_bytes_nth [of v]
    by (simp add: read_uint32_def byte_order_values del: host_word.simps)
qed

subsection \<open>Frames\<close>

definition frame :: "string \<Rightarrow> string" where
  "frame payload = ''$'' @ payload @ ''#'' @ format_02x (checksum payload)"

lemma gdb_send_data_frame:
  "length content \<le> 1019 \<Longrightarrow> gdb_send_data gdb content =
     Some (gdb\<lparr>packet := frame content, sent := sent gdb @ [frame content]\<rparr>)"
  by (simp add: gdb_send_data_def gdb_send_buffer_def MAX_PACKET_SIZE_def frame_def Let_def
      gdb_transmit_packet_def Rio_writen_def)

lemma gdb_send_buffer_frame:
  "length content \<le> 1019 \<Longrightarrow> gdb_send_buffer gdb content =
     Some (gdb\<lparr>packet := frame content, sent := sent gdb @ [frame content]\<rparr>)"
  using gdb_send_data_frame by (simp add: gdb_send_data_def)

lemma gdb_send_data_overflow: "1019 < length content \<Longrightarrow> gdb_send_data gdb content = None"
  by (simp add: gdb_send_data_def gdb_send_buffer_def MAX_PACKET_SIZE_def)

text \<open>What the dispatch of a payload does.\<close>

definition dispatch :: "gdb_data \<Rightarrow> string \<Rightarrow> gdb_result option" where
  "dispatch gdb payload =
     (case payload of
        [] \<Rightarrow> map_option Done (gdb_send_data gdb '''')
      | c # data \<Rightarrow>
          (case gdb_init c of
             None \<Rightarrow> map_option Done (gdb_send_data gdb '''')
           | Some h \<Rightarrow> run_handler h gdb data))"

lemma analysis_given:
  "gdb_packet_analysis gdb (''$'' @ payload @ ''#'' @ format_02x given) =
    (if given = checksum payload then dispatch (gdb_send_ack gdb) payload
     else Some (Done (gdb_require_retransmission gdb)))"
proof -
  let ?packet = "''$'' @ payload @ ''#'' @ format_02x given"
  have len: "length ?packet = length payload + 4" by simp
  have i: "max 1 (length ?packet - 3) = length payload + 1"
    unfolding len by simp
  have pay: "drop 1 (take (length payload + 1) ?packet) = payload" by simp
  have tail: "drop (length payload + 1 + 1) ?packet = format_02x given" by simp
  have scan: "scan_x None (format_02x given) = Some (ucast given, [])"
    using scan_format_02x_unbounded [of "[]" given] by simp
  show ?thesis
    unfolding gdb_packet_analysis_def i pay tail scan Let_def len
    by (auto simp: scan dispatch_def split: list.splits option.splits)
qed

lemma analysis_frame: "gdb_packet_analysis gdb (frame payload) = dispatch (gdb_send_ack gdb) payload"
  unfolding frame_def by (simp only: analysis_given refl if_True)

subsection \<open>Requests keep the core well-formed\<close>

lemma send_arm [simp]:
  "gdb_send_data gdb s = Some gdb' \<Longrightarrow> arm gdb' = arm gdb"
  "gdb_send_buffer gdb s = Some gdb' \<Longrightarrow> arm gdb' = arm gdb"
  by (auto simp: gdb_send_data_def gdb_send_buffer_def gdb_transmit_packet_def Rio_writen_def Let_def
      split: if_splits)

lemma stop_reason_arm: "gdb_send_stop_reason gdb = Some gdb' \<Longrightarrow> arm gdb' = arm gdb"
  by (auto simp: gdb_send_stop_reason_def split: if_splits)

text \<open>\<open>serves p q\<close>: as \<open>keeps\<close>, but the cycle count may grow.\<close>

definition serves :: "arm_core_data \<Rightarrow> arm_core_data \<Rightarrow> bool" where
  "serves p q \<longleftrightarrow> (wf_core p \<longrightarrow> wf_core q) \<and> geometry q = geometry p"

lemma serves_refl [simp]: "serves p p"
  by (simp add: serves_def)

lemma serves_trans: "serves p q \<Longrightarrow> serves q r \<Longrightarrow> serves p r"
  by (simp add: serves_def)

lemma keeps_serves: "keeps p q \<Longrightarrow> serves p q"
  by (simp add: keeps_def serves_def geometry_def)

lemma serves_write_cpsr: "serves p q \<Longrightarrow> serves p (arm_write_cpsr q v)"
  by (rule serves_trans [OF _ keeps_serves [OF keeps_write_cpsr]])

lemma step_target_serves: "step_target gdb = Some gdb' \<Longrightarrow> serves (arm gdb) (arm gdb')"
  by (auto simp: step_target_def serves_def geometry_def keeps_def Option.bind_eq_Some_conv
      dest!: arm_step_keeps)

lemma cont_loop_serves:
  assumes "cont_loop gdb i = Some gdb'"
  shows "serves (arm gdb) (arm gdb')"
proof (rule cont_loop.raw_induct [where P = "\<lambda>g k g'. serves (arm g) (arm g')", OF _ assms])
  fix loop g k g'
  assume IH: "\<And>g k g'. loop g k = Some g' \<Longrightarrow> serves (arm g) (arm g')"
    and "do { instruction \<leftarrow> next_instruction (arm g) k;
              if breakpoint instruction then Some g
              else do { gdb \<leftarrow> step_target g; loop gdb (Some instruction) } } = Some g'"
  then show "serves (arm g) (arm g')"
    by (auto simp: Option.bind_eq_Some_conv split: if_splits
        dest!: IH step_target_serves intro: serves_trans)
qed

lemma write_registers_serves:
  "write_registers_loop is p data = Some q \<Longrightarrow> serves p q"
proof (induction "is" arbitrary: p)
  case Nil
  then show ?case by simp
next
  case (Cons i "is")
  then show ?case
    by (auto simp: Option.bind_eq_Some_conv arm_write_register_same
        dest!: keeps_write_register keeps_serves dest: serves_trans)
qed

lemma write_memory_serves:
  "write_memory_loop n ok p a content = Some (ok', q) \<Longrightarrow> serves p q"
proof (induction n ok p a content rule: write_memory_loop.induct)
  case (1 ok p a content)
  then show ?case by simp
next
  case (2 n ok p a content)
  have mem: "serves p (p\<lparr>mem := m\<rparr>)" if "memory_write_byte (mem p) b v = Some (r, m)" for b v r m
    using that memory_write_wf(1) [of "mem p" b v r m] memory_write_geometry(1) [of "mem p" b v r m]
    by (auto simp: serves_def geometry_def wf_core_def)
  show ?case
  proof (cases "ok \<and> content \<noteq> []")
    case False
    with 2 show ?thesis by (auto split: if_splits list.splits)
  next
    case True
    then obtain c cs where content: "content = c # cs" by (cases content) auto
    with "2.prems" True obtain v rest r m where
      v: "(if byte_of c = 0x7d
           then (case cs of [] \<Rightarrow> None | c # content \<Rightarrow> Some (byte_of c XOR 0x20, content))
           else Some (byte_of c, cs)) = Some (v, rest)"
      and m: "memory_write_byte (mem p) a v = Some (r, m)"
      and rec: "write_memory_loop n (r = 0) (p\<lparr>mem := m\<rparr>) (a + 1) rest = Some (ok', q)"
      by (auto simp: Option.bind_eq_Some_conv)
    have "serves (p\<lparr>mem := m\<rparr>) q"
      using "2.IH" [OF _ content v refl m refl rec] True by simp
    with mem [OF m] show ?thesis by (rule serves_trans)
  qed
qed

lemma run_handler_serves:
  "run_handler h gdb data = Some (Done gdb') \<Longrightarrow> serves (arm gdb) (arm gdb')"
proof (cases h)
  case Cont
  then show "run_handler h gdb data = Some (Done gdb') \<Longrightarrow> ?thesis"
    by (auto simp: cont_def Option.bind_eq_Some_conv dest!: cont_loop_serves dest: stop_reason_arm)
next
  case Step_handler
  then show "run_handler h gdb data = Some (Done gdb') \<Longrightarrow> ?thesis"
    by (auto simp: gdb_step_def Option.bind_eq_Some_conv dest!: step_target_serves
        dest: stop_reason_arm)
next
  case Write_memory_binary
  then show "run_handler h gdb data = Some (Done gdb') \<Longrightarrow> ?thesis"
    by (auto simp: write_memory_binary_def Option.bind_eq_Some_conv Let_def
        dest!: write_memory_serves dest: send_arm split: prod.splits)
next
  case Write_general_registers
  then show "run_handler h gdb data = Some (Done gdb') \<Longrightarrow> ?thesis"
    by (auto simp: write_general_registers_def Option.bind_eq_Some_conv
        dest!: write_registers_serves dest: send_arm intro: serves_write_cpsr)
next
  case Write_register
  then show "run_handler h gdb data = Some (Done gdb') \<Longrightarrow> ?thesis"
    by (auto simp: gdb_write_register_def Option.bind_eq_Some_conv arm_write_register_same
        dest!: keeps_write_register keeps_serves dest: send_arm split: if_splits)
qed (auto simp: kill_request_def query_def read_general_registers_def read_memory_def
    gdb_read_register_def reason_def set_thread_def Option.bind_eq_Some_conv Let_def
    split: if_splits prod.splits list.splits dest: send_arm stop_reason_arm)

subsection \<open>Continuing to a breakpoint\<close>

text \<open>
  \<open>reaches_breakpoint n p\<close>: from \<open>p\<close>, the first \<open>n\<close> instructions lie in memory and are not
  breakpoints, and the one after them is.
\<close>

fun reaches_breakpoint :: "nat \<Rightarrow> arm_core_data \<Rightarrow> bool" where
  "reaches_breakpoint 0 p =
     (word_ok (mem p) (pc_word p) \<and> breakpoint (word_load (mem p) (pc_word p)))"
| "reaches_breakpoint (Suc n) p =
     (word_ok (mem p) (pc_word p) \<and> \<not> breakpoint (word_load (mem p) (pc_word p)) \<and>
      (case core_step p of None \<Rightarrow> False | Some q \<Rightarrow> reaches_breakpoint n q))"

lemma next_instruction_ok:
  assumes "word_ok (mem p) (pc_word p)"
  shows "next_instruction p k = Some (word_load (mem p) (pc_word p))"
proof -
  from assms have "unat (pc_word p) mod 4 = 0" by (simp add: word_ok_def)
  with assms show ?thesis
    by (simp add: next_instruction_def arm_read_register_same arm_read_pc aligned_pc_read
        arm_read_word_def memory_read_word_ok)
qed

lemma cont_loop_reaches:
  assumes "reaches_breakpoint n (arm gdb)"
  shows "\<exists>gdb'. cont_loop gdb k = Some gdb' \<and> run core_step n (arm gdb) = Some (arm gdb') \<and>
    packet gdb' = packet gdb \<and> sent gdb' = sent gdb \<and>
    breakpoint (word_load (mem (arm gdb')) (pc_word (arm gdb')))"
  using assms
proof (induction n arbitrary: gdb k)
  case 0
  then show ?case by (subst cont_loop.simps) (simp add: next_instruction_ok)
next
  case (Suc n)
  let ?p = "arm gdb"
  let ?w = "word_load (mem ?p) (pc_word ?p)"
  from Suc.prems obtain q where ok: "word_ok (mem ?p) (pc_word ?p)" and no: "\<not> breakpoint ?w"
    and q: "core_step ?p = Some q" "reaches_breakpoint n q"
    by (auto split: option.splits)
  from q(1) obtain r where st: "arm_step ?p = Some (r, q)"
    by (auto simp: core_step_def)
  let ?g = "gdb\<lparr>arm := q, target_exception := r\<rparr>"
  have "reaches_breakpoint n (arm ?g)" using q(2) by simp
  from Suc.IH [OF this, of "Some ?w"] obtain gdb' where
    "cont_loop ?g (Some ?w) = Some gdb'" "run core_step n q = Some (arm gdb')"
    "packet gdb' = packet gdb" "sent gdb' = sent gdb"
    "breakpoint (word_load (mem (arm gdb')) (pc_word (arm gdb')))" by auto
  moreover have "cont_loop gdb k = cont_loop ?g (Some ?w)"
    using ok no st by (subst cont_loop.simps) (simp add: next_instruction_ok step_target_def)
  ultimately show ?case using q(1) by auto
qed

text \<open>Whatever the loop returns from stands at a breakpoint.\<close>

lemma cont_loop_stops_at_breakpoint:
  assumes "cont_loop gdb k = Some gdb'"
  shows "\<exists>j w. next_instruction (arm gdb') j = Some w \<and> breakpoint w"
proof (rule cont_loop.raw_induct [where
      P = "\<lambda>g k g'. \<exists>j w. next_instruction (arm g') j = Some w \<and> breakpoint w", OF _ assms])
  fix loop g k g'
  assume "\<And>g k g'. loop g k = Some g' \<Longrightarrow> \<exists>j w. next_instruction (arm g') j = Some w \<and> breakpoint w"
    and "do { instruction \<leftarrow> next_instruction (arm g) k;
              if breakpoint instruction then Some g
              else do { gdb \<leftarrow> step_target g; loop gdb (Some instruction) } } = Some g'"
  then show "\<exists>j w. next_instruction (arm g') j = Some w \<and> breakpoint w"
    by (auto simp: Option.bind_eq_Some_conv split: if_splits)
qed

text \<open>
  Where a set of cores is closed under steps and no core of it stands at a breakpoint, the loop
  never returns.
\<close>

lemma cont_loop_diverges:
  assumes step: "\<And>p r q. I p \<Longrightarrow> arm_step p = Some (r, q) \<Longrightarrow> I q"
    and no: "\<And>p k w. I p \<Longrightarrow> next_instruction p k = Some w \<Longrightarrow> \<not> breakpoint w"
    and "I (arm gdb)"
  shows "cont_loop gdb k = None"
proof -
  have "I (arm g) \<longrightarrow> False" if "cont_loop g j = Some g'" for g j g'
  proof (rule cont_loop.raw_induct [where P = "\<lambda>g j g'. I (arm g) \<longrightarrow> False", OF _ that])
    fix loop g j g'
    assume IH: "\<And>g j g'. loop g j = Some g' \<Longrightarrow> I (arm g) \<longrightarrow> False"
      and run: "do { instruction \<leftarrow> next_instruction (arm g) j;
              if breakpoint instruction then Some g
              else do { gdb \<leftarrow> step_target g; loop gdb (Some instruction) } } = Some g'"
    show "I (arm g) \<longrightarrow> False"
    proof
      assume I: "I (arm g)"
      from run obtain w where w: "next_instruction (arm g) j = Some w"
        "(if breakpoint w then Some g else do { gdb \<leftarrow> step_target g; loop gdb (Some w) }) = Some g'"
        by (auto simp: Option.bind_eq_Some_conv)
      with no [OF I w(1)] obtain g1 where g1: "step_target g = Some g1" "loop g1 (Some w) = Some g'"
        by (auto simp: Option.bind_eq_Some_conv)
      from g1(1) obtain r where "arm_step (arm g) = Some (r, arm g1)"
        by (auto simp: step_target_def Option.bind_eq_Some_conv)
      from step [OF I this] IH [OF g1(2)] show False by blast
    qed
  qed
  with assms(3) show ?thesis by (cases "cont_loop gdb k") auto
qed

subsection \<open>Register requests\<close>

definition reply :: "gdb_data \<Rightarrow> string \<Rightarrow> gdb_data" where
  "reply gdb s = gdb\<lparr>packet := frame s, sent := sent gdb @ [frame s]\<rparr>"

lemma send_reply:
  "length s \<le> 1019 \<Longrightarrow> gdb_send_data gdb s = Some (reply gdb s)"
  "length s \<le> 1019 \<Longrightarrow> gdb_send_buffer gdb s = Some (reply gdb s)"
  by (simp_all add: gdb_send_data_frame gdb_send_buffer_frame reply_def)

lemma reply_simps [simp]: "arm (reply gdb s) = arm gdb" "sent (reply gdb s) = sent gdb @ [frame s]"
  "target_exception (reply gdb s) = target_exception gdb"
  by (simp_all add: reply_def)

lemma scan_hex_digit:
  assumes "k < 16" "rest = [] \<or> hex_value (hd rest) = None \<and> hd rest \<noteq> CHR ''x'' \<and> hd rest \<noteq> CHR ''X''"
  shows "scan_x None (hex_lower k # rest) = Some (of_nat k, rest)"
proof -
  note h = hex_lower_digit [OF assms(1)]
  have stop: "dropWhile (\<lambda>c. hex_value c \<noteq> None) rest = rest" "hex_number v rest = v" for v
    using assms(2) by (cases rest; auto)+
  have no0x: "take 2 (hex_lower k # rest) \<noteq> ''0x''" "take 2 (hex_lower k # rest) \<noteq> ''0X''"
    using assms(2) by (cases rest; auto)+
  have num: "hex_number 0 (hex_lower k # rest) = k"
    using h(1) stop(2) by simp
  have "k < 2 ^ 64" using assms(1) by simp
  with h stop(1) num no0x show ?thesis
    by (auto simp: scan_x_def skip_0x_def Let_def)
qed

lemma hex_lower_not_eq: "k < 16 \<Longrightarrow> hex_lower k \<noteq> CHR ''=''"
  by (drule nibble_cases) (elim insertE emptyE; simp add: hex_lower_def)

lemma u8_of_small: "k < 16 \<Longrightarrow> ucast (of_nat k :: u32) = (of_nat k :: u8)"
  by (drule nibble_cases) (elim insertE emptyE; simp)

lemma less_16: "k < 16 \<Longrightarrow> (of_nat k :: u32) < 16"
  by (simp add: word_less_nat_alt unat_of_nat)

lemma write_register_request:
  assumes k: "k < 16" and q: "arm_write_usr_register (arm gdb) (of_nat k) v = Some q"
  shows "gdb_write_register gdb (hex_lower k # CHR ''='' # write_uint32 BIG_ENDIAN_SIMULATOR v)
    = Some (Done (reply (gdb\<lparr>arm := q\<rparr>) ''OK''))"
proof -
  let ?w = "write_uint32 BIG_ENDIAN_SIMULATOR v"
  let ?data = "hex_lower k # CHR ''='' # ?w"
  note h = hex_lower_digit [OF k]
  have "CHR ''='' \<noteq> NUL" by (simp add: NUL_def)
  then have c: "cstr ?data = hex_lower k # CHR ''='' # cstr ?w"
    using h(8) by (simp add: cstr_def)
  have idx: "index_after (CHR ''='') ?data = Some (?w @ [NUL])"
    using hex_lower_not_eq [OF k] c by (simp add: index_after_def)
  have rd: "read_uint32 BIG_ENDIAN_SIMULATOR ?w 0 = Some v"
    using read_write_uint32 [of 0 ?w BIG_ENDIAN_SIMULATOR v "[]"] by simp
  have eq: "hex_value (CHR ''='') = None" by (simp add: hex_value_def)
  have sc: "scan_x None (cstr ?data) = Some (of_nat k, CHR ''='' # cstr ?w)"
    unfolding c using eq by (intro scan_hex_digit [OF k]) simp
  show ?thesis
    using q less_16 [OF k] unfolding gdb_write_register_def
    by (simp add: idx rd sc u8_of_small [OF k] arm_write_register_same send_reply)
qed

lemma atoi_hex_digit:
  assumes "k < 16"
  shows "atoi [hex_lower k] = (if k < 10 then int k else 0)"
  using nibble_cases [OF assms]
  by (elim insertE emptyE)
    (simp_all add: hex_lower_def atoi_def isspace_def isdigit_def)

lemma read_register_request:
  assumes k: "k < 16" and v: "arm_read_usr_register (arm gdb) (if k < 10 then of_nat k else 0) = Some v"
  shows "gdb_read_register gdb [hex_lower k]
    = Some (Done (reply gdb (write_uint32 BIG_ENDIAN_SIMULATOR v)))"
proof -
  let ?j = "if k < 10 then k else 0"
  have c: "cstr [hex_lower k] = [hex_lower k]"
    using hex_lower_digit [OF k] by (simp add: cstr_def)
  have j: "?j < 10" by simp
  have reg: "(word_of_int (atoi [hex_lower k]) :: u32) = of_nat ?j"
    by (simp add: atoi_hex_digit [OF k])
  have "(of_nat ?j :: u32) \<noteq> 15"
    using j nibble_cases [of ?j] by (auto simp: word_unat_eq_iff unat_of_nat)
  moreover have "arm_read_usr_register (arm gdb) (of_nat ?j) = Some v"
    using v by (simp split: if_splits)
  ultimately show ?thesis
    using j less_16 [of ?j] u8_of_small [of ?j] unfolding gdb_read_register_def c reg
    by (simp add: arm_read_register_same send_reply Let_def)
qed

lemma hex_registers_map:
  assumes "\<forall>i \<in> set is. arm_read_register p (of_nat i) = Some (f i)"
  shows "hex_registers p is = Some (concat (map (\<lambda>i. write_uint32 BIG_ENDIAN_SIMULATOR (f i)) is))"
  using assms by (induction "is") simp_all

lemma small_u8: "i < 256 \<Longrightarrow> unat (of_nat i :: u8) = i"
  by (simp add: unat_of_nat)

text \<open>The answer to \<open>g\<close>: 42 words of eight characters, whatever the core holds.\<close>

definition registers_text :: "arm_core_data \<Rightarrow> string" where
  "registers_text p =
     concat (map (\<lambda>i. write_uint32 BIG_ENDIAN_SIMULATOR (regs (reg p) ! i)) [0..<15]) @
     write_uint32 BIG_ENDIAN_SIMULATOR (((pc_word p + 4) AND 0xFFFFFFFD) - 4) @
     concat (replicate 25 ''xxxxxxxx'') @ write_uint32 BIG_ENDIAN_SIMULATOR (pc_word p)"

lemma length_concat_8: "(\<forall>x \<in> set xs. length (f x) = 8) \<Longrightarrow> length (concat (map f xs)) = 8 * length xs"
  by (induction xs) simp_all

lemma length_registers_text: "length (registers_text p) = 336"
  by (simp add: registers_text_def length_concat_8 numeral_eq_Suc)

lemma read_general_registers_reply:
  "read_general_registers gdb data = Some (reply gdb (registers_text (arm gdb)))"
proof -
  have low: "hex_registers (arm gdb) [0..<15] = Some (concat (map (\<lambda>i.
      write_uint32 BIG_ENDIAN_SIMULATOR (regs (reg (arm gdb)) ! i)) [0..<15]))"
    by (rule hex_registers_map) (simp add: arm_read_register_same arm_read_low small_u8)
  have cpsr: "arm_read_cpsr (arm gdb) = pc_word (arm gdb)"
    by (simp add: arm_read_cpsr_def read_cpsr_def pc_word_def)
  have x25: "concat (replicate 25 ''xxxxxxxx'') = concat (replicate 24 ''xxxxxxxx'') @ ''xxxxxxxx''"
    by (simp add: numeral_eq_Suc)
  have "read_general_registers gdb data = gdb_send_buffer gdb (registers_text (arm gdb))"
    unfolding read_general_registers_def low registers_text_def cpsr x25
    by (simp add: arm_read_register_same arm_read_pc)
  then show ?thesis by (simp add: send_reply length_registers_text)
qed

subsection \<open>Writing all registers\<close>

definition words_text :: "u32 list \<Rightarrow> string" where
  "words_text ws = concat (map (write_uint32 BIG_ENDIAN_SIMULATOR) ws)"

lemma read_words_text:
  assumes "i < length ws"
  shows "read_uint32 BIG_ENDIAN_SIMULATOR (words_text ws) (8 * i) = Some (ws ! i)"
proof -
  have "drop (8 * i) (words_text ws) = words_text (drop i ws)" for i
  proof (induction i arbitrary: ws)
    case 0
    then show ?case by simp
  next
    case (Suc i)
    show ?case
    proof (cases ws)
      case Nil
      then show ?thesis by (simp add: words_text_def)
    next
      case (Cons w ws')
      have "drop (8 * Suc i) (words_text (w # ws')) = drop (8 * i) (words_text ws')"
        by (simp add: words_text_def)
      with Suc.IH [of ws'] Cons show ?thesis by simp
    qed
  qed
  also have "words_text (drop i ws)
      = write_uint32 BIG_ENDIAN_SIMULATOR (ws ! i) @ words_text (drop (Suc i) ws)"
    using assms by (simp add: words_text_def Cons_nth_drop_Suc [symmetric])
  finally show ?thesis by (rule read_write_uint32)
qed

lemma write_registers_append:
  "write_registers_loop (is @ js) p data =
     do { q \<leftarrow> write_registers_loop is p data; write_registers_loop js q data }"
  by (induction "is" arbitrary: p) (auto split: Option.bind_splits)

lemma write_low_registers:
  assumes "wf_core p" "j \<le> 15" "15 \<le> length ws"
  shows "write_registers_loop [0..<j] p (words_text ws) =
    Some (p\<lparr>reg := (reg p)\<lparr>regs := take j ws @ drop j (regs (reg p))\<rparr>\<rparr>)"
  using assms(2)
proof (induction j)
  case 0
  then show ?case by simp
next
  case (Suc j)
  have len: "length (regs (reg p)) = 15" using assms(1) by (simp add: wf_core_def wf_registers_def)
  have "(take j ws @ drop j (regs (reg p)))[j := ws ! j] = take (Suc j) ws @ drop (Suc j) (regs (reg p))"
    using Suc.prems assms(3) len
    by (simp add: list_update_append take_Suc_conv_app_nth Cons_nth_drop_Suc [symmetric] del: drop_Suc)
  with Suc assms(3) show ?case
    by (simp add: write_registers_append read_words_text arm_write_register_same arm_write_low
        small_u8)
qed

lemma write_general_registers_reply:
  assumes wf: "wf_core (arm gdb)" and len: "length ws = 42"
  shows "write_general_registers gdb (words_text ws) =
    Some (reply (gdb\<lparr>arm := (arm gdb)\<lparr>reg := \<lparr>regs = take 15 ws, cpsr = ws ! 41\<rparr>\<rparr>\<rparr>) ''OK'')"
proof -
  let ?p = "arm gdb"
  let ?q = "?p\<lparr>reg := (reg ?p)\<lparr>regs := take 15 ws\<rparr>\<rparr>"
  have low: "write_registers_loop [0..<15] ?p (words_text ws) = Some ?q"
    using write_low_registers [OF wf, of 15 ws] wf len
    by (simp add: wf_core_def wf_registers_def)
  have split: "[0..<16] = [0..<15] @ [15]"
    by (simp add: upt_rec)
  have all: "write_registers_loop [0..<16] ?p (words_text ws)
      = Some (?q\<lparr>reg := (reg ?q)\<lparr>cpsr := ws ! 15\<rparr>\<rparr>)"
    unfolding split write_registers_append low
    using read_words_text [of 15 ws] len by (simp add: arm_write_register_same arm_write_pc)
  have cp: "read_uint32 BIG_ENDIAN_SIMULATOR (words_text ws) (8 * (16 + 8 * 3 + 1)) = Some (ws ! 41)"
    using read_words_text [of 41 ws] len by simp
  have full: "r\<lparr>regs := x, cpsr := y\<rparr> = \<lparr>regs = x, cpsr = y\<rparr>" for r :: registers_data and x y
    by simp
  show ?thesis
    unfolding write_general_registers_def all cp
    by (simp add: arm_write_cpsr_def write_cpsr_def send_reply full)
qed

subsection \<open>Memory requests\<close>

lemma read_memory_bytes:
  assumes "wf_memory (mem p)" "unat a + n \<le> length (memo (mem p))" "unat a + n < 2 ^ 32"
  shows "read_memory_loop n p a x =
    Some (concat (map format_02x (take n (drop (unat a) (memo (mem p))))))"
  using assms(2,3)
proof (induction n arbitrary: a x)
  case 0
  then show ?case by simp
next
  case (Suc n)
  let ?m = "memo (mem p)"
  have ok: "byte_ok (mem p) a" using Suc.prems assms(1) by (simp add: byte_ok_def)
  have next_a: "unat (a + 1) = unat a + 1"
    using Suc.prems(2) by (simp add: unat_word_ariths)
  have "drop (unat a) ?m = ?m ! unat a # drop (Suc (unat a)) ?m"
    using Suc.prems(1) by (simp add: Cons_nth_drop_Suc)
  with Suc next_a ok show ?case
    by (simp add: memory_read_byte_ok)
qed

text \<open>How the client escapes the bytes that have a meaning in a frame.\<close>

definition escape_byte :: "u8 \<Rightarrow> string" where
  "escape_byte b =
     (if b = 0x23 \<or> b = 0x24 \<or> b = 0x2A \<or> b = 0x7D then [char_of_byte 0x7D, char_of_byte (b XOR 0x20)]
      else [char_of_byte b])"

definition escape :: "u8 list \<Rightarrow> string" where
  "escape bs = concat (map escape_byte bs)"

lemma write_memory_bytes:
  assumes "wf_memory (mem p)" "unat a + length bs \<le> length (memo (mem p))"
    "unat a + length bs < 2 ^ 32"
  shows "write_memory_loop (length bs) True p a (escape bs @ rest) =
    Some (True, p\<lparr>mem := (mem p)\<lparr>memo := take (unat a) (memo (mem p)) @ bs @
      drop (unat a + length bs) (memo (mem p))\<rparr>\<rparr>)"
  using assms
proof (induction bs arbitrary: p a)
  case Nil
  then show ?case by (simp add: escape_def)
next
  case (Cons b bs)
  let ?m = "memo (mem p)"
  let ?p = "p\<lparr>mem := byte_store (mem p) a b\<rparr>"
  have ok: "byte_ok (mem p) a" using Cons.prems by (simp add: byte_ok_def)
  have next_a: "unat (a + 1) = unat a + 1"
    using Cons.prems(3) by (simp add: unat_word_ariths)
  have twice: "(x XOR 0x20) XOR 0x20 = (x :: u8)" for x by (simp add: xor.assoc)
  have "write_memory_loop (length (b # bs)) True p a (escape (b # bs) @ rest)
      = write_memory_loop (length bs) True ?p (a + 1) (escape bs @ rest)"
    using ok by (auto simp: escape_def escape_byte_def memory_write_byte_ok twice)
  also have "\<dots> = Some (True, ?p\<lparr>mem := (mem ?p)\<lparr>memo := take (unat (a + 1)) (memo (mem ?p)) @ bs @
      drop (unat (a + 1) + length bs) (memo (mem ?p))\<rparr>\<rparr>)"
    using Cons.prems next_a by (intro Cons.IH) simp_all
  also have "take (unat (a + 1)) (memo (mem ?p)) = take (unat a) ?m @ [b]"
    using Cons.prems(2) next_a by (simp add: byte_store_def take_Suc_conv_app_nth)
  also have "drop (unat (a + 1) + length bs) (memo (mem ?p)) = drop (unat a + length (b # bs)) ?m"
    using next_a by (simp add: byte_store_def)
  finally show ?case by (simp add: byte_store_def)
qed

lemma read_memory_reply:
  assumes "wf_memory (mem (arm gdb))" "scan_x_x (cstr data) = (Some a, Some n)"
    "unat a + unat n \<le> length (memo (mem (arm gdb)))" "unat a + unat n < 2 ^ 32" "unat n \<le> 509"
  shows "read_memory gdb data = Some (reply gdb
    (concat (map format_02x (take (unat n) (drop (unat a) (memo (mem (arm gdb))))))))"
proof -
  have "length (concat (map format_02x xs)) = 2 * length xs" for xs
    by (induction xs) simp_all
  with assms show ?thesis
    by (simp add: read_memory_def read_memory_bytes send_reply)
qed

lemma size_compare:
  "ucast a < memory_get_size m \<longleftrightarrow> unat (a :: u32) < unat (mem_size m)"
proof -
  have "unat (ucast a :: u64) = unat a"
    using unsigned_less [of a, where ?'a = nat] by (simp add: unsigned_ucast_eq take_bit_nat_eq_self)
  then show ?thesis by (simp add: word_less_nat_alt memory_get_size_def)
qed

lemma write_memory_binary_reply:
  assumes "wf_memory (mem (arm gdb))" "scan_x_x (cstr data) = (Some a, Some n)"
    and "index_after (CHR '':'') data = Some (escape bs @ rest)" "unat n = length bs"
    and "unat a + length bs \<le> length (memo (mem (arm gdb)))" "unat a + length bs < 2 ^ 32"
    and "unat a < unat (mem_size (mem (arm gdb)))"
  shows "write_memory_binary gdb data = Some (reply (gdb\<lparr>arm := (arm gdb)\<lparr>mem := (mem (arm gdb))
    \<lparr>memo := take (unat a) (memo (mem (arm gdb))) @ bs @
      drop (unat a + length bs) (memo (mem (arm gdb)))\<rparr>\<rparr>\<rparr>) ''OK'')"
  using assms write_memory_bytes [OF assms(1,5,6), of rest]
  by (simp add: write_memory_binary_def send_reply size_compare)

text \<open>The handler compares a byte address with a number of words.\<close>

lemma write_memory_binary_refused:
  assumes "scan_x_x (cstr data) = (Some a, Some n)"
    and "unat (mem_size (mem (arm gdb))) \<le> unat a"
  shows "write_memory_binary gdb data = Some (reply gdb ''E02'')"
proof -
  have "write_memory_loop k False p b content = Some (False, p)" for k p b content
    by (cases k) simp_all
  with assms show ?thesis by (simp add: write_memory_binary_def send_reply size_compare)
qed

text \<open>
  A binary write request at a byte address at or above the number of words of the memory is
  refused with E02, though three quarters of the memory lie there.
\<close>

lemma memory_write_refused:
  assumes "scan_x_x (cstr data) = (Some a, Some n)"
    and "unat (mem_size (mem (arm gdb))) \<le> unat a"
  shows "write_memory_binary gdb data = Some (reply gdb ''E02'')"
  using assms by (rule write_memory_binary_refused)

text \<open>
  A p request for a register numbered a to f, in the hexadecimal of the protocol, is answered
  with register 0, because the number is read in decimal.
\<close>

lemma high_registers_read_as_r0:
  assumes "10 \<le> k" "k < 16"
  shows "gdb_read_register gdb [hex_lower k] = Some (Done (reply gdb
    (write_uint32 BIG_ENDIAN_SIMULATOR (regs (reg (arm gdb)) ! 0))))"
  using assms by (intro read_register_request) (simp_all add: arm_read_low)

text \<open>
  A word written as text in the target's byte order is scanned back from any place of a packet,
  for both byte orders.
\<close>

lemma word_round_trip:
  assumes "drop pos data = write_uint32 be v @ rest"
  shows "read_uint32 be data pos = Some v"
  using assms by (rule read_write_uint32)

text \<open>
  Whenever the continue loop returns, the next instruction is a breakpoint, and the core is
  well-formed if it was.
\<close>

lemma continue_stops_at_breakpoint:
  assumes "cont_loop gdb k = Some gdb'"
  shows "(\<exists>j w. next_instruction (arm gdb') j = Some w \<and> breakpoint w) \<and>
    (wf_core (arm gdb) \<longrightarrow> wf_core (arm gdb'))"
  using cont_loop_stops_at_breakpoint [OF assms] cont_loop_serves [OF assms] by (simp add: serves_def)

text \<open>
  A register numbered 0 to 9 written by a P request is what the p request of the same number
  answers.
\<close>

lemma register_write_then_read:
  assumes "wf_core (arm gdb)" "k < 10"
  shows "\<exists>q. gdb_write_register gdb (hex_lower k # CHR ''='' # write_uint32 BIG_ENDIAN_SIMULATOR v)
      = Some (Done (reply (gdb\<lparr>arm := q\<rparr>) ''OK'')) \<and>
    gdb_read_register (reply (gdb\<lparr>arm := q\<rparr>) ''OK'') [hex_lower k]
      = Some (Done (reply (reply (gdb\<lparr>arm := q\<rparr>) ''OK'') (write_uint32 BIG_ENDIAN_SIMULATOR v)))"
proof -
  have k: "k < 16" "unat (of_nat k :: u8) < 15" using assms(2) by (simp_all add: unat_of_nat)
  from core_registers.write_read [OF assms(1) k(2)] obtain q where
    "arm_write_usr_register (arm gdb) (of_nat k) v = Some q"
    "arm_read_usr_register q (of_nat k) = Some v" by blast
  with write_register_request [OF k(1)] read_register_request [OF k(1)] assms(2)
  show ?thesis by (intro exI [of _ q]) simp
qed

text \<open>
  A frame whose two digits are the checksum of its payload is acknowledged and its payload
  dispatched; with any other digits a retransmission is asked for and nothing else changes.
\<close>

lemma frames_are_checked:
  "gdb_packet_analysis gdb (''$'' @ payload @ ''#'' @ format_02x given) =
    (if given = checksum payload then dispatch (gdb_send_ack gdb) payload
     else Some (Done (gdb\<lparr>sent := sent gdb @ [''-'']\<rparr>)))"
  by (simp only: analysis_given gdb_require_retransmission_def Rio_writen_def)

subsection \<open>Properties\<close>

text \<open>
  C20: The continue request returns when execution reaches a breakpoint: if the core, stepping
  through mapped instructions, meets its first breakpoint after n steps, the loop returns with
  the core those n steps lead to, standing at the breakpoint, and nothing is sent meanwhile.
\<close>

lemma continue_reaches_breakpoint:
  assumes "reaches_breakpoint n (arm gdb)"
  shows "\<exists>gdb'. cont_loop gdb k = Some gdb' \<and> run core_step n (arm gdb) = Some (arm gdb') \<and>
    sent gdb' = sent gdb \<and> breakpoint (word_load (mem (arm gdb')) (pc_word (arm gdb')))"
  using cont_loop_reaches [OF assms, of k] by blast

lemma continue_reaches_breakpoint_witness:
  "\<exists>gdb'. cont_loop (gdb_init_data (sample_core [0xE1A00001, 0xE7F000F0] [])) None = Some gdb' \<and>
    run core_step 1 (sample_core [0xE1A00001, 0xE7F000F0] []) = Some (arm gdb')"
proof -
  have "reaches_breakpoint 1 (arm (gdb_init_data (sample_core [0xE1A00001, 0xE7F000F0] [])))"
    by code_simp
  from continue_reaches_breakpoint [OF this, of None] show ?thesis by (auto simp: gdb_init_data_def)
qed

text \<open>
  C27: Answers of at most 1019 characters are sent as frames that the packet analysis of a peer
  accepts with their content; a longer one overflows the packet array.
\<close>

lemma answers_are_frames:
  "gdb_send_data gdb content = (if length content \<le> 1019 then
     Some (gdb\<lparr>packet := frame content, sent := sent gdb @ [frame content]\<rparr>) else None) \<and>
   (\<forall>other. gdb_packet_analysis other (frame content) = dispatch (gdb_send_ack other) content)"
  using gdb_send_data_frame gdb_send_data_overflow analysis_frame by (auto simp: not_le)

text \<open>
  C28: Bytes written by a binary write request, escaped as the protocol says, are what a read
  request of the same range answers, in hexadecimal.
\<close>

lemma memory_write_then_read:
  assumes wf: "wf_memory (mem (arm gdb))" and a: "scan_x_x (cstr data) = (Some a, Some n)"
    and content: "index_after (CHR '':'') data = Some (escape bs @ rest)" "unat n = length bs"
    and inside: "unat a + length bs \<le> length (memo (mem (arm gdb)))" "unat a + length bs < 2 ^ 32"
      "unat a < unat (mem_size (mem (arm gdb)))"
    and req: "scan_x_x (cstr request) = (Some a, Some n)" and "length bs \<le> 509"
  shows "\<exists>gdb' gdb''. write_memory_binary gdb data = Some gdb' \<and>
    sent gdb' = sent gdb @ [frame ''OK''] \<and> read_memory gdb' request = Some gdb'' \<and>
    sent gdb'' = sent gdb' @ [frame (concat (map format_02x bs))]"
proof -
  let ?m = "mem (arm gdb)"
  let ?memo = "take (unat a) (memo ?m) @ bs @ drop (unat a + length bs) (memo ?m)"
  let ?g = "reply (gdb\<lparr>arm := (arm gdb)\<lparr>mem := ?m\<lparr>memo := ?memo\<rparr>\<rparr>\<rparr>) ''OK''"
  have w: "write_memory_binary gdb data = Some ?g"
    using assms by (intro write_memory_binary_reply) simp_all
  have wf': "wf_memory (mem (arm ?g))" using wf inside(1) by (simp add: wf_memory_def)
  have bytes: "take (length bs) (drop (unat a) ?memo) = bs" using inside(1) by simp
  have "read_memory ?g request = Some (reply ?g (concat (map format_02x bs)))"
    using read_memory_reply [OF wf' req] content(2) inside(1,2) assms(9) by (simp add: bytes)
  with w show ?thesis by auto
qed

lemma memory_write_then_read_witness:
  "\<exists>gdb' gdb''. write_memory_binary (gdb_init_data (sample_core [0, 0] [])) (''1,2:A}'' @ [CHR 0x04]) = Some gdb' \<and>
    read_memory gdb' ''1,2'' = Some gdb'' \<and>
    sent gdb'' = sent gdb' @ [frame (concat (map format_02x [0x41, 0x24]))]"
proof -
  let ?g = "gdb_init_data (sample_core [0, 0] [])"
  have esc: "escape [0x41, 0x24] = ''A}'' @ [CHR 0x04]" by code_simp
  have m: "wf_memory (mem (arm ?g))" "unat (2 :: u32) = length [0x41, 0x24 :: u8]"
    "unat (1 :: u32) + length [0x41, 0x24 :: u8] \<le> length (memo (mem (arm ?g)))"
    "unat (1 :: u32) < unat (mem_size (mem (arm ?g)))"
    by code_simp+
  have s: "scan_x_x (cstr (''1,2:A}'' @ [CHR 0x04])) = (Some 1, Some 2)" "scan_x_x (cstr ''1,2'') = (Some 1, Some 2)"
    by (simp_all add: scan_x_x_def scan_x_def cstr_def NUL_def hex_value_def isspace_def skip_0x_def
        Let_def)
  have i: "index_after (CHR '':'') (''1,2:A}'' @ [CHR 0x04]) = Some (escape [0x41, 0x24] @ [NUL])"
    unfolding esc by (simp add: index_after_def cstr_def NUL_def)
  have "unat (1 :: u32) + length [0x41, 0x24 :: u8] < 2 ^ 32" "length [0x41, 0x24 :: u8] \<le> 509"
    by simp_all
  from memory_write_then_read [OF m(1) s(1) i m(2,3) this(1) m(4) s(2) this(2)] show ?thesis by blast
qed

text \<open>
  C29: A read request for mapped memory is answered with the bytes in hexadecimal when they are
  at most 509, and overflows the packet array when they are more, although the stub announces
  that it takes packets of 1024 characters (PacketSize=400).
\<close>

lemma long_reads_overflow:
  assumes "wf_memory (mem (arm gdb))" and "scan_x_x (cstr data) = (Some a, Some n)"
    and "unat a + unat n \<le> length (memo (mem (arm gdb)))" "unat a + unat n < 2 ^ 32"
  shows "read_memory gdb data = (if unat n \<le> 509 then Some (reply gdb
      (concat (map format_02x (take (unat n) (drop (unat a) (memo (mem (arm gdb))))))))
    else None) \<and> query gdb ''Supported'' = Some (reply gdb ''PacketSize=400'')"
proof -
  have q: "query gdb ''Supported'' = Some (reply gdb ''PacketSize=400'')"
    by (simp add: query_def cstr_def NUL_def send_reply)
  have len: "length (concat (map format_02x xs)) = 2 * length xs" for xs
    by (induction xs) simp_all
  have "gdb_send_buffer gdb s = None" if "1019 < length s" for s
    using gdb_send_data_overflow [OF that] by (simp add: gdb_send_data_def)
  with assms(2) read_memory_bytes [OF assms(1,3,4)] len assms(3)
  have "\<not> unat n \<le> 509 \<Longrightarrow> read_memory gdb data = None" by (simp add: read_memory_def)
  with q read_memory_reply [OF assms] show ?thesis by simp
qed

lemma long_reads_overflow_witness:
  "read_memory (gdb_init_data (sample_core (replicate 128 0) [])) ''0,1fe'' = None"
proof -
  let ?g = "gdb_init_data (sample_core (replicate 128 0) [])"
  have m: "length (memo (mem (arm ?g))) = 512" "mem_size (mem (arm ?g)) = 128"
    by (simp_all add: sample_core_def gdb_init_data_def length_concat comp_def sum_list_replicate)
  have wf: "wf_memory (mem (arm ?g))" by (simp add: wf_memory_def m)
  have s: "scan_x_x (cstr ''0,1fe'') = (Some 0, Some 0x1FE)"
    by (simp add: scan_x_x_def scan_x_def cstr_def NUL_def hex_value_def isspace_def skip_0x_def Let_def)
  have "unat (0 :: u32) + unat (0x1FE :: u32) \<le> length (memo (mem (arm ?g)))"
    "unat (0 :: u32) + unat (0x1FE :: u32) < 2 ^ 32" unfolding m by simp_all
  from long_reads_overflow [OF wf s this] show ?thesis by simp
qed

text \<open>
  C30: A G request sets registers 0 to 14 to the words of the packet, and the program counter
  not to the word sent for it but to the one sent for the CPSR.
\<close>

lemma all_registers_written:
  assumes "wf_core (arm gdb)" "length ws = 42"
  shows "write_general_registers gdb (words_text ws) =
    Some (reply (gdb\<lparr>arm := (arm gdb)\<lparr>reg := \<lparr>regs = take 15 ws, cpsr = ws ! 41\<rparr>\<rparr>\<rparr>) ''OK'')"
  using assms by (rule write_general_registers_reply)

lemma all_registers_written_witness:
  "\<exists>gdb'. write_general_registers (gdb_init_data (sample_core [0] []))
     (words_text (replicate 15 1 @ [0x8000] @ replicate 25 0 @ [0x1D3])) = Some gdb' \<and>
   pc_word (arm gdb') = 0x1D3"
proof -
  have wf: "wf_core (arm (gdb_init_data (sample_core [0] [])))" by code_simp
  have "length (replicate 15 1 @ [0x8000] @ replicate 25 0 @ [0x1D3 :: u32]) = 42" by simp
  note w = all_registers_written [OF wf this]
  have "(replicate 15 1 @ [0x8000] @ replicate 25 0 @ [0x1D3 :: u32]) ! 41 = 0x1D3"
    by (simp add: nth_append)
  then show ?thesis unfolding w by (simp add: pc_word_def del: append_Cons)
qed

end
