(* ===== verification/Refinement.thy ===== *)
theory Refinement
  imports Isa Transfers Gdb
begin

text \<open>
  The core implements the instruction set of the theory \<open>Isa\<close>, within limits that are computed
  from the abstract state alone: a simulation step by step, hence of whole programs. The
  limits say where the code departs from the architecture.
\<close>

subsection \<open>The abstract state of a core\<close>

definition bytes_of :: "memory_data \<Rightarrow> u32 \<Rightarrow> u8 option" where
  "bytes_of m a = (if unat a < length (memo m) then Some (memo m ! unat a) else None)"

definition isa_of :: "arm_core_data \<Rightarrow> isa" where
  "isa_of p = \<lparr>ipc = pc_word p, ireg = regs (reg p), imem = bytes_of (mem p),
     ibig = mem_is_big_endian (mem p)\<rparr>"

lemma isa_of_simps [simp]:
  "ipc (isa_of p) = pc_word p" "ireg (isa_of p) = regs (reg p)"
  "imem (isa_of p) = bytes_of (mem p)" "ibig (isa_of p) = mem_is_big_endian (mem p)"
  by (simp_all add: isa_of_def)

lemma isa_reg_low: "r < 15 \<Longrightarrow> isa_reg (isa_of p) r = regs (reg p) ! r"
  by (simp add: isa_reg_def)

lemma isa_reg_read:
  assumes "word_ok (mem p) (pc_word p)" "unat r < 16"
  shows "arm_read_usr_register (fetched p) r = Some (isa_reg (isa_of p) (unat r))"
proof (cases "unat r = 15")
  case True
  then have "r = 15" by (simp add: word_unat_eq_iff)
  with pc_read_fetched [OF assms(1)] show ?thesis by (simp add: isa_reg_def)
next
  case False
  with assms(2) show ?thesis by (simp add: arm_read_low isa_reg_def)
qed

subsection \<open>Loads\<close>

lemma bytes_of_outside: "length (memo m) \<le> unat a \<Longrightarrow> bytes_of m a = None"
  by (simp add: bytes_of_def)

lemma isa_load_byte:
  assumes "wf_core p"
  shows "isa_load (isa_of p) Byte a =
    (if byte_ok (mem p) a then Some (ucast (memo (mem p) ! unat a)) else None)"
  using assms by (simp add: bytes_of_def byte_ok_def wf_core_def)

lemma isa_load_half:
  assumes "wf_core p"
  shows "isa_load (isa_of p) Half a =
    (if unat a mod 2 = 0 \<and> half_ok (mem p) a then Some (ucast (half_load (mem p) a)) else None)"
proof -
  have even: "unat a mod 2 = 0 \<Longrightarrow> unat a mod 4 \<le> 2" by presburger
  show ?thesis
    using assms even
    by (auto simp: bytes_of_def half_ok_def half_load_def wf_core_def half_offset Let_def)
qed

lemma isa_load_word:
  assumes "wf_core p"
  shows "isa_load (isa_of p) Word a =
    (if word_ok (mem p) a then Some (word_load (mem p) a) else None)"
  using assms
  by (auto simp: bytes_of_def word_ok_def word_load_def wf_core_def word_offsets Let_def
      simp del: host_word.simps)

text \<open>The memory of an abstract state is that of any state with its memory and byte order.\<close>

lemma isa_load_frame:
  assumes "imem t = imem s" "ibig t = ibig s"
  shows "isa_load t width a = isa_load s width a"
  using assms by (cases width) simp_all

lemma isa_put_frame:
  assumes "imem t = imem s" "ibig t = ibig s"
  shows "isa_put t width a v = isa_put s width a v"
  using assms by (cases width) simp_all

subsection \<open>Stores\<close>

lemma isa_put_byte:
  assumes "byte_ok (mem p) a"
  shows "isa_put (isa_of p) Byte a v = bytes_of (byte_store (mem p) a (ucast v))"
  using assms
  by (auto simp: fun_eq_iff bytes_of_def byte_ok_def byte_store_def nth_list_update word_unat_eq_iff)

lemma isa_put_half:
  assumes "half_ok (mem p) a"
  shows "isa_put (isa_of p) Half a v = bytes_of (half_store (mem p) a (ucast v))"
proof
  fix x
  have low: "(ucast (ucast v :: u16) :: u8) = ucast v" "(ucast (drop_bit 8 (ucast v :: u16)) :: u8) = ucast (drop_bit 8 v)"
    by (intro bit_word_eqI; simp add: bit_simps)+
  have off: "unat (a + 1) = unat a + 1" using assms by (simp add: half_ok_def half_offset)
  have len: "unat a + 1 < length (memo (mem p))" using assms by (simp add: half_ok_def)
  have pos: "unat a \<le> unat x \<and> unat x < unat a + 2 \<longleftrightarrow> x = a \<or> x = a + 1"
    unfolding word_unat_eq_iff off by linarith
  show "isa_put (isa_of p) Half a v x = bytes_of (half_store (mem p) a (ucast v)) x"
    unfolding bytes_of_def half_store_nth [OF assms] pos
    using len off by (auto simp: bytes_of_def half_layout_def low Let_def)
qed

lemma isa_put_word:
  assumes "word_ok (mem p) a"
  shows "isa_put (isa_of p) Word a v = bytes_of (word_store (mem p) a v)"
proof
  fix x
  have off: "unat (a + 1) = unat a + 1" "unat (a + 2) = unat a + 2" "unat (a + 3) = unat a + 3"
    using assms by (simp_all add: word_ok_def word_offsets)
  have len: "unat a + 3 < length (memo (mem p))" using assms by (simp add: word_ok_def)
  have pos: "unat a \<le> unat x \<and> unat x < unat a + 4 \<longleftrightarrow> x = a \<or> x = a + 1 \<or> x = a + 2 \<or> x = a + 3"
    unfolding word_unat_eq_iff off by linarith
  show "isa_put (isa_of p) Word a v x = bytes_of (word_store (mem p) a v) x"
    unfolding bytes_of_def word_store_nth [OF assms] pos
    using len off by (auto simp: bytes_of_def word_layout_def Let_def)
qed

declare isa_load.simps [simp del] isa_put.simps [simp del]

subsection \<open>The limits\<close>

text \<open>
  A shifter operand fits when the byte and the 16-bit variable it goes through hold it; RRX is
  not computed, and an immediate with bits 7 and 4 set is decoded as a halfword transfer.
\<close>

fun operand_fits :: "isa \<Rightarrow> operand \<Rightarrow> bool" where
  "operand_fits s (Immediate imm r) \<longleftrightarrow>
     isa_value s (Immediate imm r) < 0x10000 \<and> \<not> (bit imm 7 \<and> bit imm 4)"
| "operand_fits s (Shifted rm kind n) \<longleftrightarrow>
     isa_reg s rm < 0x100 \<and> isa_value s (Shifted rm kind n) < 0x10000 \<and>
     (kind = 3 \<longrightarrow> n \<noteq> 0)"

fun offset_fits :: "offset \<Rightarrow> bool" where
  "offset_fits (Immediate_offset v) \<longleftrightarrow> True"
| "offset_fits (Register_offset rm kind n) \<longleftrightarrow> rm < 15 \<and> (kind = 0 \<or> n \<noteq> 0)"

fun immediate_offset :: "offset \<Rightarrow> bool" where
  "immediate_offset (Immediate_offset v) \<longleftrightarrow> True"
| "immediate_offset (Register_offset rm kind n) \<longleftrightarrow> False"

text \<open>
  A word or byte load always writes the base back, a store with a register offset never does,
  and a post-indexed transfer is made at the updated address.
\<close>

definition indexing_fits :: "isa \<Rightarrow> bool \<Rightarrow> width \<Rightarrow> indexing \<Rightarrow> nat \<Rightarrow> nat \<Rightarrow> offset \<Rightarrow> bool" where
  "indexing_fits s load width ix rd rn off \<longleftrightarrow>
     (if width = Half
      then (load \<and> ix \<noteq> Plain \<longrightarrow> rd \<noteq> rn) \<and> (ix = Post_indexed \<longrightarrow> isa_offset s off = 0)
      else if load then rd \<noteq> rn \<and> (ix = Pre_indexed \<or> isa_offset s off = 0)
      else ix = Plain \<or> ix = Pre_indexed \<and> immediate_offset off \<or> isa_offset s off = 0)"

fun supported :: "isa \<Rightarrow> instruction \<Rightarrow> bool" where
  "supported s (Data opcode rd rn opd) \<longleftrightarrow> opcode \<notin> {6, 7} \<and> rd < 15 \<and> operand_fits s opd"
| "supported s (Transfer load width ix up rd rn off) \<longleftrightarrow>
     rd < 15 \<and> rn < 15 \<and> offset_fits off \<and> indexing_fits s load width ix rd rn off"
| "supported s (Branch link off) \<longleftrightarrow> \<not> link"

text \<open>
  The flags are the top bits of the program counter, clear below 2^28; a failed condition resets
  the core, and LS is not the architecture's.
\<close>

definition isa_limits :: "isa \<Rightarrow> bool" where
  "isa_limits s \<longleftrightarrow>
     (case do { w \<leftarrow> isa_load s Word (ipc s); i \<leftarrow> isa_decode w; Some (w, i) } of
        None \<Rightarrow> True
      | Some (w, i) \<Rightarrow> ipc s < 0xFFFFFFC \<and> isa_passes w \<and> field w 28 15 \<noteq> 9 \<and> supported s i)"

subsection \<open>Conditions\<close>

lemma small_no_bit:
  assumes "unat (w :: u32) < 2 ^ k" "k \<le> n"
  shows "\<not> bit w n"
proof -
  have "take_bit k w = w"
    using assms(1) by (simp add: word_unat_eq_iff unsigned_take_bit_eq take_bit_nat_eq_self)
  with assms(2) show ?thesis by (metis bit_take_bit_iff not_less)
qed

lemma low_pc_flags:
  assumes "pc_word p < 0xFFFFFFC" "28 \<le> n"
  shows "\<not> bit (pc_word p + 4) n"
proof -
  have "unat (pc_word p + 4) < 2 ^ 28"
    using assms(1) by (simp add: unat_word_ariths word_less_nat_alt)
  with assms(2) show ?thesis by (intro small_no_bit)
qed

lemma isa_executes:
  assumes ok: "word_ok (mem p) (pc_word p)" and low: "pc_word p < 0xFFFFFFC"
    and cond: "isa_passes (word_load (mem p) (pc_word p))" "field (word_load (mem p) (pc_word p)) 28 15 \<noteq> 9"
  shows "executes p (word_load (mem p) (pc_word p))"
proof -
  define k where "k = unat (field (word_load (mem p) (pc_word p)) 28 15)"
  have k: "field (word_load (mem p) (pc_word p)) 28 15 = of_nat k" by (simp add: k_def)
  have "k < 16" unfolding k_def by (rule field_nibble)
  moreover have "k \<noteq> 9" using cond(2) k by auto
  moreover have "arm_condition False False False False k"
    using cond(1) by (simp add: isa_passes_def k_def)
  ultimately have "check_cond_failed 0 0 0 0 (of_nat k) = 0"
    using nat_16_cases [of k] by (auto simp: arm_condition_def check_cond_failed_def)
  then show ?thesis
    using ok low_pc_flags [OF low]
    by (simp add: executes_def condition_of_def k field_bit)
qed

subsection \<open>Operands\<close>

lemma operand_immediate:
  assumes i: "bit w 25"
    and fits: "operand_fits s (Immediate (w AND 0xFF) (unat (field w 8 15)))"
  shows "\<exists>op c. update_shifter_operand p rd (ucast (w AND 4095)) (field w 25 1) 0 = Some (op, c) \<and>
    ucast op = isa_value s (Immediate (w AND 0xFF) (unat (field w 8 15)))"
proof -
  let ?so = "ucast (w AND 4095) :: u16"
  have r: "unat (drop_bit 8 ?so AND 15) = unat (field w 8 15)"
  proof -
    have "drop_bit 8 ?so AND 15 = take_bit 4 (drop_bit 8 ?so)"
      by (simp add: take_bit_eq_mask mask_eq_exp_minus_1)
    then have "unat (drop_bit 8 ?so AND 15) < 16"
      using take_bit_nat_less_exp [of 4 "unat (drop_bit 8 ?so)"] by (simp only: unsigned_take_bit_eq) simp
    then have "unat (ucast (drop_bit 8 ?so AND 15) :: u8) = unat (drop_bit 8 ?so AND 15)"
      by (simp add: unsigned_ucast_eq take_bit_nat_eq_self)
    then show ?thesis by (simp only: low_12_fields)
  qed
  have "ucast (fst (rotated_immediate ?so 0)) = isa_value s (Immediate (w AND 0xFF) (unat (field w 8 15)))"
    using rotated_immediate_arm(1) [of ?so 0] fits by (simp add: low_12_fields r word_less_nat_alt)
  moreover have "update_shifter_operand p rd ?so (field w 25 1) 0 = Some (rotated_immediate ?so 0)"
    using i by (simp add: update_shifter_operand_def)
  ultimately show ?thesis by (metis prod.collapse)
qed

lemma operand_shifted:
  assumes ok: "word_ok (mem p) (pc_word p)" and i: "\<not> bit w 25" "\<not> bit w 4"
    and fits: "operand_fits (isa_of p) (Shifted (unat (field w 0 15)) (unat (field w 5 3)) (unat (field w 7 31)))"
  shows "\<exists>op c. update_shifter_operand (fetched p) rd (ucast (w AND 4095)) (field w 25 1) 0 = Some (op, c) \<and>
    ucast op = isa_value (isa_of p) (Shifted (unat (field w 0 15)) (unat (field w 5 3)) (unat (field w 7 31)))"
proof -
  let ?so = "ucast (w AND 4095) :: u16"
  let ?rm = "isa_reg (isa_of p) (unat (field w 0 15))"
  let ?k = "unat (field w 5 3)"
  have "drop_bit 4 ?so AND 1 = of_bool (bit w 4)"
    by (rule bit_word_eqI) (auto simp: bit_simps bit_and_iff)
  then have bit4: "drop_bit 4 ?so AND 1 = 0" using i(2) by simp
  have rm: "arm_read_usr_register (fetched p) (field w 0 15) = Some ?rm"
    by (rule isa_reg_read [OF ok field_nibble])
  have k: "?k < 4" by (rule field_3)
  have "\<exists>op c. immediate_shift (of_nat ?k) (ucast ?rm) (field w 7 31) 0 = Some (op, c) \<and>
    ucast op = fst (arm_immediate_shift ?k ?rm (unat (field w 7 31)) False)"
  proof (cases "field w 7 31 = 0")
    case True
    with fits k have "?k \<le> 2" by auto
    with immediate_shift_zero [of ?rm ?k 0] fits True show ?thesis by (auto simp: word_less_nat_alt)
  next
    case False
    then have "0 < unat (field w 7 31)" by (simp add: unat_gt_0)
    with immediate_shift_nonzero [of ?rm "field w 7 31" ?k 0] fits k field_31 [of w 7]
    show ?thesis by (auto simp: word_less_nat_alt)
  qed
  then show ?thesis
    using i(1) rm by (simp add: update_shifter_operand_def bit4 low_12_fields)
qed

subsection \<open>Steps\<close>

lemma isa_of_fetched: "isa_of (fetched p) = isa_next (isa_of p)"
  by (simp add: isa_of_def isa_next_def fetched_def pc_word_def)

lemma isa_of_update:
  "isa_of ((fetched p)\<lparr>reg := (reg (fetched p))\<lparr>regs := rs\<rparr>\<rparr>) =
     (isa_next (isa_of p))\<lparr>ireg := rs\<rparr>"
  "mem_is_big_endian m = mem_is_big_endian (mem p) \<Longrightarrow>
     isa_of ((fetched p)\<lparr>mem := m, reg := (reg (fetched p))\<lparr>regs := rs\<rparr>\<rparr>) =
     (isa_next (isa_of p))\<lparr>ireg := rs, imem := bytes_of m\<rparr>"
  by (simp_all add: isa_of_def isa_next_def fetched_def pc_word_def)

lemma isa_next_mem:
  "(isa_next (isa_of p))\<lparr>ireg := rs, imem := bytes_of (mem p)\<rparr> = (isa_next (isa_of p))\<lparr>ireg := rs\<rparr>"
  by (simp add: isa_of_def isa_next_def)

lemma isa_write_low: "r < 15 \<Longrightarrow> isa_write r v s = s\<lparr>ireg := (ireg s)[r := v]\<rparr>"
  by (simp add: isa_write_def)

lemma step_data:
  assumes ex: "executes p w" and cls: "field w 26 3 = 0" "\<not> (\<not> bit w 25 \<and> bit w 7 \<and> bit w 4)"
    and low: "pc_word p < 0xFFFFFFC"
    and dec: "isa_decode_data w = Some i" and sup: "supported (isa_of p) i"
  shows "\<exists>q. arm_step p = Some (0, q) \<and> isa_exec i (isa_of p) = Some (isa_of q)"
proof -
  define opd where "opd = (if bit w 25 then Immediate (w AND 0xFF) (unat (field w 8 15))
    else Shifted (unat (field w 0 15)) (unat (field w 5 3)) (unat (field w 7 31)))"
  have ok: "word_ok (mem p) (pc_word p)" using ex by (simp add: executes_def)
  from dec have i: "i = Data (unat (field w 21 15)) (unat (field w 12 15)) (unat (field w 16 15)) opd"
    and opcode: "unat (field w 21 15) \<notin> {8, 9, 10, 11}" and reg: "bit w 25 \<or> \<not> bit w 4"
    by (auto simp: isa_decode_data_def opd_def split: if_splits)
  from sup have opcode': "unat (field w 21 15) \<notin> {6, 7}" and rd: "unat (field w 12 15) < 15"
    and fits: "operand_fits (isa_of p) opd" by (simp_all add: i)
  have half: "\<not> (bit w 7 \<and> bit w 4)"
  proof
    assume b: "bit w 7 \<and> bit w 4"
    with cls(2) have "bit w 25" by blast
    with fits b show False by (simp add: opd_def bit_simps bit_1_iff)
  qed
  have c: "field (pc_word p + 4) 29 1 = 0"
    using low_pc_flags [OF low] by simp
  have "\<exists>op c. update_shifter_operand (fetched p) (field w 12 15) (ucast (w AND 4095))
      (field w 25 1) 0 = Some (op, c) \<and> ucast op = isa_value (isa_of p) opd"
  proof (cases "bit w 25")
    case True
    with operand_immediate [OF True] fits show ?thesis by (simp add: opd_def del: isa_value.simps)
  next
    case False
    with operand_shifted [OF ok False] fits reg show ?thesis by (simp add: opd_def del: isa_value.simps)
  qed
  then obtain op cy where op: "update_shifter_operand (fetched p) (field w 12 15) (ucast (w AND 4095))
      (field w 25 1) (field (pc_word p + 4) 29 1) = Some (op, cy)" "ucast op = isa_value (isa_of p) opd"
    unfolding c by blast
  have "unat (field w 21 15) \<notin> {6, 7, 8, 9, 10, 11}" using opcode opcode' by simp
  from arm_step_data [OF ex cls(1) half this op(1) isa_reg_read [OF ok field_nibble] rd]
  show ?thesis
    using rd low_pc_flags [OF low]
    by (simp add: i op(2) isa_of_update isa_write_low isa_next_def)
qed

lemma step_branch:
  assumes ex: "executes p w" and cls: "field w 26 3 = 2" "bit w 25" and link: "\<not> bit w 24"
  shows "\<exists>q. arm_step p = Some (0, q) \<and> isa_exec (Branch (bit w 24) (ucast w)) (isa_of p) = Some (isa_of q)"
  using arm_step_branch [OF ex cls] link
  by (simp add: isa_of_def branch_offset_def pc_word_def fetched_def)

lemma isa_address_transfer:
  assumes "unat (field w 16 15) < 15" "offset_fits off"
    and "off = (if bit w 25 then Register_offset (unat (field w 0 15)) (unat (field w 5 3)) (unat (field w 7 31))
      else Immediate_offset (take_bit 12 w))"
  shows "offset_ok w" "isa_address (isa_of p) (bit w 23) (unat (field w 16 15)) off = transfer_address p w"
proof -
  show "offset_ok w"
    using assms(2,3) by (auto simp: offset_ok_def unat_eq_zero)
  show "isa_address (isa_of p) (bit w 23) (unat (field w 16 15)) off = transfer_address p w"
    using assms
    by (auto simp: isa_address_def transfer_address_def transfer_offset_def imm12_def isa_reg_low)
qed

lemma isa_load_transfer:
  assumes "wf_core p"
  shows "isa_load (isa_of p) (if bit w 22 then Byte else Word) a =
    (if transfer_ok (mem p) w a then Some (transfer_load (mem p) w a) else None)"
  using assms by (simp add: transfer_ok_def transfer_load_def isa_load_byte isa_load_word)

lemma isa_put_transfer:
  assumes "transfer_ok (mem p) w a"
  shows "isa_put (isa_of p) (if bit w 22 then Byte else Word) a v = bytes_of (transfer_store (mem p) w a v)"
  using assms by (simp add: transfer_ok_def transfer_store_def isa_put_byte isa_put_word)

lemma transfer_store_geometry [simp]:
  "mem_is_big_endian (transfer_store m w a v) = mem_is_big_endian m"
  by (simp add: transfer_store_def)

text \<open>A transfer whose offset is 0, or that is not post-indexed, is made at the updated address.\<close>

lemma isa_address_zero:
  "isa_offset s off = 0 \<Longrightarrow> isa_address s up rn off = isa_reg s rn"
  by (simp add: isa_address_def)

text \<open>
  \<open>wb\<close> says whether the code writes the base back: as the addressing mode asks, or at an
  offset of 0, where it makes no difference.
\<close>

lemma isa_base_written:
  assumes rn: "rn < 15" and modes: "ix = Plain \<and> \<not> wb \<or> ix = Pre_indexed \<and> wb \<or> isa_offset (isa_of p) off = 0"
  shows "(if ix = Plain then isa_next (isa_of p) else isa_write rn (isa_address (isa_of p) up rn off) (isa_next (isa_of p)))
    = (isa_next (isa_of p))\<lparr>ireg := if wb then (regs (reg p))[rn := isa_address (isa_of p) up rn off] else regs (reg p)\<rparr>"
    "(if ix = Post_indexed then isa_reg (isa_of p) rn else isa_address (isa_of p) up rn off) =
      isa_address (isa_of p) up rn off"
  using modes by (elim disjE; simp add: isa_address_zero isa_reg_low [OF rn] isa_write_low [OF rn] isa_next_def)+

lemma isa_exec_load:
  assumes rd: "rd < 15" and rn: "rn < 15" and ne: "wb \<Longrightarrow> rd \<noteq> rn"
    and modes: "ix = Plain \<and> \<not> wb \<or> ix = Pre_indexed \<and> wb \<or> isa_offset (isa_of p) off = 0"
    and exec: "isa_exec (Transfer True width ix up rd rn off) (isa_of p) = Some t"
    and u: "u = isa_address (isa_of p) up rn off"
  shows "\<exists>v. isa_load (isa_of p) width u = Some v \<and> t = (isa_next (isa_of p))\<lparr>ireg :=
    (if wb then (regs (reg p))[rd := v, rn := u] else (regs (reg p))[rd := v])\<rparr>"
  using exec isa_base_written [OF rn modes, of up] ne rd
  by (auto simp: u Let_def isa_write_low isa_next_def list_update_swap split: if_splits)

lemma isa_exec_store:
  assumes rd: "rd < 15" and rn: "rn < 15"
    and modes: "ix = Plain \<and> \<not> wb \<or> ix = Pre_indexed \<and> wb \<or> isa_offset (isa_of p) off = 0"
    and exec: "isa_exec (Transfer False width ix up rd rn off) (isa_of p) = Some t"
    and u: "u = isa_address (isa_of p) up rn off"
  shows "isa_load (isa_of p) width u \<noteq> None \<and> t = (isa_next (isa_of p))\<lparr>
    ireg := (if wb then (regs (reg p))[rn := u] else regs (reg p)),
    imem := isa_put (isa_of p) width u (regs (reg p) ! rd)\<rparr>"
proof -
  let ?t = "(isa_next (isa_of p))\<lparr>ireg := if wb then (regs (reg p))[rn := u] else regs (reg p)\<rparr>"
  have "isa_store ?t width u (regs (reg p) ! rd) = Some t"
    using exec unfolding isa_exec.simps Let_def isa_base_written [OF rn modes]
    by (cases wb) (simp_all add: isa_reg_low [OF rd] u)
  moreover have "imem ?t = imem (isa_of p)" "ibig ?t = ibig (isa_of p)" by (simp_all add: isa_next_def)
  note isa_load_frame [OF this] isa_put_frame [OF this]
  ultimately show ?thesis by (auto simp: isa_store_def split: if_splits)
qed

lemma step_transfer:
  assumes wf: "wf_core p" and ex: "executes p w" and cls: "field w 26 3 = 1"
    and dec: "isa_decode_transfer w = Some i" and sup: "supported (isa_of p) i"
    and exec: "isa_exec i (isa_of p) = Some t"
  shows "\<exists>q. arm_step p = Some (0, q) \<and> isa_of q = t"
proof -
  define off where "off = (if bit w 25 then Register_offset (unat (field w 0 15)) (unat (field w 5 3)) (unat (field w 7 31))
      else Immediate_offset (take_bit 12 w))"
  let ?rd = "unat (field w 12 15)" and ?rn = "unat (field w 16 15)"
  let ?width = "if bit w 22 then Byte else Word" and ?wb = "\<not> bit w 25 \<and> (\<not> bit w 24 \<or> bit w 21)"
  from dec obtain ix where i: "i = Transfer (bit w 20) ?width ix (bit w 23) ?rd ?rn off"
    and ix: "isa_indexing w = Some ix"
    by (auto simp: isa_decode_transfer_def off_def split: if_splits)
  from sup have rd: "?rd < 15" and rn: "?rn < 15" and fits: "offset_fits off"
    and idx: "indexing_fits (isa_of p) (bit w 20) ?width ix ?rd ?rn off" by (simp_all add: i)
  have imm: "immediate_offset off \<longleftrightarrow> \<not> bit w 25" by (simp add: off_def)
  have ok: "offset_ok w" and u: "transfer_address p w = isa_address (isa_of p) (bit w 23) ?rn off"
    using isa_address_transfer [OF rn fits off_def] by simp_all
  show ?thesis
  proof (cases "bit w 20")
    case True
    with idx have ne: "?rd \<noteq> ?rn" and "ix = Pre_indexed \<or> isa_offset (isa_of p) off = 0"
      by (auto simp: indexing_fits_def split: if_splits)
    then have modes: "ix = Plain \<and> \<not> True \<or> ix = Pre_indexed \<and> True \<or> isa_offset (isa_of p) off = 0" by blast
    have "isa_exec (Transfer True ?width ix (bit w 23) ?rd ?rn off) (isa_of p) = Some t"
      using exec True by (simp add: i)
    from isa_exec_load [OF rd rn ne modes this u] have "transfer_ok (mem p) w (transfer_address p w)"
      "t = (isa_next (isa_of p))\<lparr>ireg := (regs (reg p))
         [?rd := transfer_load (mem p) w (transfer_address p w), ?rn := transfer_address p w]\<rparr>"
      by (auto simp: isa_load_transfer [OF wf] split: if_splits)
    then show ?thesis
      using arm_step_load [OF ex cls True rn rd ok refl] by (simp add: isa_of_update)
  next
    case False
    with idx ix have modes: "ix = Plain \<and> \<not> ?wb \<or> ix = Pre_indexed \<and> ?wb \<or> isa_offset (isa_of p) off = 0"
      by (auto simp: indexing_fits_def isa_indexing_def imm split: if_splits)
    have "isa_exec (Transfer False ?width ix (bit w 23) ?rd ?rn off) (isa_of p) = Some t"
      using exec False by (simp add: i)
    note st = isa_exec_store [OF rd rn modes this u]
    then have "transfer_ok (mem p) w (transfer_address p w)"
      by (simp add: isa_load_transfer [OF wf] split: if_splits)
    with st show ?thesis
      using arm_step_store [OF ex cls False rn rd ok refl]
      by (simp add: isa_of_update isa_put_transfer)
  qed
qed

lemma step_half:
  assumes wf: "wf_core p" and ex: "executes p w"
    and cls: "field w 26 3 = 0" "bit w 7" "bit w 4"
    and dec: "isa_decode_half w = Some i" and sup: "supported (isa_of p) i"
    and exec: "isa_exec i (isa_of p) = Some t"
  shows "\<exists>q. arm_step p = Some (0, q) \<and> isa_of q = t"
proof -
  define off where "off = (if bit w 22
    then Immediate_offset (push_bit 4 (ucast (field w 8 15)) OR ucast (field w 0 15))
    else Register_offset (unat (field w 0 15)) 0 0)"
  let ?rd = "unat (field w 12 15)" and ?rn = "unat (field w 16 15)"
  let ?wb = "\<not> bit w 24 \<or> bit w 21" and ?a = "half_address p w"
  from dec obtain ix where i: "i = Transfer (bit w 20) Half ix (bit w 23) ?rd ?rn off"
    and ix: "isa_indexing w = Some ix"
    by (auto simp: isa_decode_half_def off_def split: if_splits)
  from sup have rd: "?rd < 15" and rn: "?rn < 15" and fits: "offset_fits off"
    and idx: "indexing_fits (isa_of p) (bit w 20) Half ix ?rd ?rn off" by (simp_all add: i)
  have rm: "bit w 22 \<or> unat (field w 0 15) < 15" using fits by (cases "bit w 22") (simp_all add: off_def)
  have u: "?a = isa_address (isa_of p) (bit w 23) ?rn off"
    using rm rn by (auto simp: half_address_def isa_address_def off_def isa_reg_low
        arm_immediate_shift_def Let_def)
  have modes: "ix = Plain \<and> \<not> ?wb \<or> ix = Pre_indexed \<and> ?wb \<or> isa_offset (isa_of p) off = 0"
    and ne: "bit w 20 \<Longrightarrow> ?wb \<Longrightarrow> ?rd \<noteq> ?rn"
    using idx ix by (auto simp: indexing_fits_def isa_indexing_def split: if_splits)
  show ?thesis
  proof (cases "bit w 20")
    case True
    have "isa_exec (Transfer True Half ix (bit w 23) ?rd ?rn off) (isa_of p) = Some t"
      using exec True by (simp add: i)
    from isa_exec_load [OF rd rn ne [OF True] modes this u]
    have ok: "half_ok (mem p) ?a" and t: "t = (isa_next (isa_of p))\<lparr>ireg :=
        (if ?wb then (regs (reg p))[?rd := ucast (half_load (mem p) ?a), ?rn := ?a]
         else (regs (reg p))[?rd := ucast (half_load (mem p) ?a)])\<rparr>"
      by (auto simp: isa_load_half [OF wf] split: if_splits)
    from arm_step_half [OF ex cls rn rd rm refl ok refl] True t show ?thesis
      by (simp add: isa_of_update isa_next_mem)
  next
    case False
    have "isa_exec (Transfer False Half ix (bit w 23) ?rd ?rn off) (isa_of p) = Some t"
      using exec False by (simp add: i)
    note st = isa_exec_store [OF rd rn modes this u]
    then have ok: "half_ok (mem p) ?a"
      by (simp add: isa_load_half [OF wf] split: if_splits)
    from arm_step_half [OF ex cls rn rd rm refl ok refl] False st show ?thesis
      by (simp add: isa_of_update isa_put_half [OF ok])
  qed
qed

lemma step_refines:
  assumes wf: "wf_core p" and limits: "isa_limits (isa_of p)" and step: "isa_step (isa_of p) = Some t"
  shows "\<exists>q. arm_step p = Some (0, q) \<and> isa_of q = t"
proof -
  let ?w = "word_load (mem p) (pc_word p)"
  from step wf obtain i where ok: "word_ok (mem p) (pc_word p)" and dec: "isa_decode ?w = Some i"
    by (auto simp: isa_step_def isa_load_word Option.bind_eq_Some_conv split: if_splits)
  with limits wf have low: "pc_word p < 0xFFFFFFC" and pass: "isa_passes ?w"
    and cond: "field ?w 28 15 \<noteq> 9" and sup: "supported (isa_of p) i"
    by (simp_all add: isa_limits_def isa_load_word)
  from step wf ok dec pass have exec: "isa_exec i (isa_of p) = Some t"
    by (simp add: isa_step_def isa_load_word)
  note ex = isa_executes [OF ok low pass cond]
  from dec consider
      "field ?w 26 3 = 0" "\<not> bit ?w 25" "bit ?w 7" "bit ?w 4" "isa_decode_half ?w = Some i"
    | "field ?w 26 3 = 0" "\<not> (\<not> bit ?w 25 \<and> bit ?w 7 \<and> bit ?w 4)" "isa_decode_data ?w = Some i"
    | "field ?w 26 3 = 1" "isa_decode_transfer ?w = Some i"
    | "field ?w 26 3 = 2" "bit ?w 25" "i = Branch (bit ?w 24) (ucast ?w)"
    by (auto simp: isa_decode_def split: if_splits)
  then show ?thesis
  proof cases
    case 1
    with step_half [OF wf ex] sup exec show ?thesis by blast
  next
    case 2
    with step_data [OF ex 2(1,2) low 2(3) sup] exec show ?thesis by auto
  next
    case 3
    with step_transfer [OF wf ex] sup exec show ?thesis by blast
  next
    case 4
    with sup have "\<not> bit ?w 24" by simp
    with step_branch [OF ex 4(1,2)] exec 4(3) show ?thesis by auto
  qed
qed

interpretation core_isa: simulation core_step wf_core isa_of isa_step isa_limits
  by unfold_locales (auto simp: core_step_def dest!: step_refines)

subsection \<open>Programs under the debugger\<close>

text \<open>
  The words gdb plants as breakpoints are no instructions of the part, so a program the abstract
  machine runs up to one is what the continue loop runs.
\<close>

lemma breakpoint_undefined:
  assumes "breakpoint w"
  shows "isa_decode w = None"
proof -
  have w: "w AND 0xFFF000F0 = 0xE7F000F0" using assms by (simp add: breakpoint_def)
  have bits: "bit w n \<longleftrightarrow> bit (0xE7F000F0 :: u32) n" if "bit (0xFFF000F0 :: u32) n" for n
    using arg_cong [OF w, of "\<lambda>x. bit x n"] that by (simp add: bit_and_iff)
  have m: "(3 :: u32) = mask 2" "(15 :: u32) = mask 4" by (simp_all add: mask_eq_exp_minus_1)
  have at: "bit w 4" "bit w 25" "bit w 26" "\<not> bit w 27" "\<not> bit w 28"
    using bits [of 4] bits [of 25] bits [of 26] bits [of 27] bits [of 28] by simp_all
  have "field w 26 3 = 1"
  proof (rule bit_word_eqI)
    fix k :: nat
    have "k = 0 \<or> k = 1 \<or> 2 \<le> k" by linarith
    then show "bit (field w 26 3) k \<longleftrightarrow> bit (1 :: u8) k"
      using at by (elim disjE) (auto simp: field_def m bit_simps bit_1_iff)
  qed
  moreover have "\<not> bit (field w 28 15) 0" using at by (simp add: field_def m bit_simps)
  then have "field w 28 15 \<noteq> 15" by auto
  moreover note at
  ultimately show ?thesis by (simp add: isa_decode_def isa_decode_transfer_def)
qed

definition isa_at_breakpoint :: "isa \<Rightarrow> bool" where
  "isa_at_breakpoint s \<longleftrightarrow> (case isa_load s Word (ipc s) of None \<Rightarrow> False | Some w \<Rightarrow> breakpoint w)"

lemma cont_loop_runs:
  assumes "wf_core (arm g)" "stays isa_step isa_limits n (isa_of (arm g))"
    "run isa_step n (isa_of (arm g)) = Some t" "isa_at_breakpoint t" "target_exception g = 0"
  shows "\<exists>q. cont_loop g k = Some (g\<lparr>arm := q\<rparr>) \<and> isa_of q = t \<and> wf_core q"
  using assms
proof (induction n arbitrary: g k)
  case 0
  then have "word_ok (mem (arm g)) (pc_word (arm g))" "breakpoint (word_load (mem (arm g)) (pc_word (arm g)))"
    by (auto simp: isa_at_breakpoint_def isa_load_word split: if_splits)
  with 0 show ?case by (intro exI [of _ "arm g"], subst cont_loop.simps) (simp add: next_instruction_ok)
next
  case (Suc n)
  let ?p = "arm g"
  let ?w = "word_load (mem ?p) (pc_word ?p)"
  from Suc.prems obtain s where s: "isa_step (isa_of ?p) = Some s" "run isa_step n s = Some t"
    by (auto split: Option.bind_splits)
  with Suc.prems have lim: "isa_limits (isa_of ?p)" "stays isa_step isa_limits n s" by auto
  from step_refines [OF Suc.prems(1) lim(1) s(1)] obtain q where q: "arm_step ?p = Some (0, q)" "isa_of q = s"
    by blast
  then have "wf_core q" using core_machine.step_inv [OF Suc.prems(1)] by (simp add: core_step_def)
  from s(1) Suc.prems(1) have ok: "word_ok (mem ?p) (pc_word ?p)" and "isa_decode ?w \<noteq> None"
    by (auto simp: isa_step_def isa_load_word Option.bind_eq_Some_conv split: if_splits)
  then have "\<not> breakpoint ?w" using breakpoint_undefined [of ?w] by metis
  have "g\<lparr>arm := q, target_exception := 0\<rparr> = g\<lparr>arm := q\<rparr>"
    using Suc.prems(5) by (cases g) simp
  with \<open>\<not> breakpoint ?w\<close> ok q have "cont_loop g k = cont_loop (g\<lparr>arm := q\<rparr>) (Some ?w)"
    by (subst cont_loop.simps) (simp add: next_instruction_ok step_target_def)
  with Suc.IH [of "g\<lparr>arm := q\<rparr>" "Some ?w"] \<open>wf_core q\<close> lim(2) s(2) q(2) Suc.prems(4,5)
  show ?case by simp
qed

lemma cont_reply:
  assumes "wf_core (arm g)" "stays isa_step isa_limits n (isa_of (arm g))"
    "run isa_step n (isa_of (arm g)) = Some t" "isa_at_breakpoint t" "target_exception g = 0"
  shows "\<exists>q. cont g data = Some (reply (g\<lparr>arm := q\<rparr>) ''S05'') \<and> isa_of q = t \<and> wf_core q"
proof -
  from cont_loop_runs [OF assms, of None] obtain q where
    q: "cont_loop g None = Some (g\<lparr>arm := q\<rparr>)" "isa_of q = t" "wf_core q" by blast
  moreover have "gdb_send_stop_reason (g\<lparr>arm := q\<rparr>) = Some (reply (g\<lparr>arm := q\<rparr>) ''S05'')"
    using assms(5) by (simp add: gdb_send_stop_reason_def send_reply UNDEFINED_INSTRUCTION_def
        PREFETCH_ABORT_def DATA_ABORT_def)
  ultimately show ?thesis by (intro exI [of _ q]) (simp add: cont_def)
qed

subsection \<open>Properties\<close>

text \<open>
  C1: The core implements the architecture for whole programs of the flag-free part of the ARMv5
  instruction set (data processing, word, byte and halfword transfers, branches), in either byte
  order: if the reference machine of the theory Isa, started on the core's own registers and
  memory, makes n steps within the limits isa_limits computes, the core makes n steps too, none
  of them undefined, and ends with the registers, program counter and memory of the reference
  machine.
\<close>

lemma program_refines_isa:
  assumes "wf_core p" and "stays isa_step isa_limits n (isa_of p)" and "run isa_step n (isa_of p) = Some t"
  shows "\<exists>q. run core_step n p = Some q \<and> isa_of q = t \<and> wf_core q"
  using core_isa.run_simulates [OF assms] .

lemma program_refines_isa_witness:
  "\<exists>q. run core_step 6 (sample_core [0xE3A00005, 0xE2800007, 0xE581001C, 0xE5F1201F, 0xEA000000, 0,
      0xE0803002, 0] []) = Some q \<and> regs (reg q) ! 3 = 24 \<and> pc_word q = 28"
proof -
  let ?p = "sample_core [0xE3A00005, 0xE2800007, 0xE581001C, 0xE5F1201F, 0xEA000000, 0, 0xE0803002, 0] []"
  have h: "wf_core ?p" "stays isa_step isa_limits 6 (isa_of ?p)" by code_simp+
  have r: "map_option (\<lambda>t. (ireg t ! 3, ipc t)) (run isa_step 6 (isa_of ?p)) = Some (24, 28)" by code_simp
  then obtain t where t: "run isa_step 6 (isa_of ?p) = Some t" by (cases "run isa_step 6 (isa_of ?p)") auto
  from program_refines_isa [OF h t] obtain q where q: "run core_step 6 ?p = Some q" "isa_of q = t" by blast
  from r t have "ireg t ! 3 = 24" "ipc t = 28" by simp_all
  with q show ?thesis by auto
qed

end
