(* ===== verification/Scanner.thy ===== *)
theory Scanner
  imports Gdb "HOL-Library.Sublist"
begin

text \<open>
  \<open>scanner.l\<close>: the flex scanner between the client and \<open>gdb_protocol.c\<close>. Its rules, the longest
  match among them, the action of each, the buffer that collects what no frame covers, and the
  loop over the input to its end. The input is the bytes the client sends before it closes the
  connection (or a request to kill shuts it down). A byte no rule matches, the newline outside
  a frame, is copied to the standard output, as flex does by default; debug messages are left
  out. \<open>None\<close> is a write outside the error buffer, or undefined behaviour of a request.
\<close>

subsection \<open>Rules\<close>

datatype token = Ack | Resend | Frame string | Junk char | Echo char

fun lexeme :: "token \<Rightarrow> string" where
  "lexeme Ack = ''+''"
| "lexeme Resend = ''-''"
| "lexeme (Frame s) = s"
| "lexeme (Junk c) = [c]"
| "lexeme (Echo c) = [c]"

text \<open>\<open>"$"[^$#]*"#"{HEX}{HEX}\<close>: what it matches at the start of the input, with the rest.\<close>

definition in_frame :: "char \<Rightarrow> bool" where
  "in_frame c \<longleftrightarrow> c \<noteq> CHR ''$'' \<and> c \<noteq> CHR ''#''"

definition is_hex :: "char \<Rightarrow> bool" where
  "is_hex c \<longleftrightarrow> hex_value c \<noteq> None"

fun match_frame :: "string \<Rightarrow> (string \<times> string) option" where
  "match_frame [] = None"
| "match_frame (c # s) =
     (if c = CHR ''$''
      then (case dropWhile in_frame s of
              h # a # b # rest \<Rightarrow>
                if h = CHR ''#'' \<and> is_hex a \<and> is_hex b
                then Some (c # takeWhile in_frame s @ [h, a, b], rest) else None
            | _ \<Rightarrow> None)
      else None)"

definition next_token :: "string \<Rightarrow> (token \<times> string) option" where
  "next_token input =
     (case match_frame input of
        Some (f, rest) \<Rightarrow> Some (Frame f, rest)
      | None \<Rightarrow>
          (case input of
             [] \<Rightarrow> None
           | c # rest \<Rightarrow>
               Some (if c = CHR ''+'' then Ack else if c = CHR ''-'' then Resend
                     else if c = CHR 0x0A then Echo c else Junk c, rest)))"

subsection \<open>Actions\<close>

definition MAX_ERROR_SIZE :: nat where "MAX_ERROR_SIZE = 1024"

text \<open>\<open>buffer\<close> is the first \<open>len\<close> characters of the array; \<open>echoed\<close> is the standard output.\<close>

record parser_data =
  gdb :: gdb_data
  buffer :: string
  echoed :: string

definition handle_error :: "parser_data \<Rightarrow> parser_data option" where
  "handle_error data =
     (if length (buffer data) \<noteq> 0
      then (if length (buffer data) < MAX_ERROR_SIZE
            then Some (data\<lparr>gdb := gdb_require_retransmission (gdb data), buffer := []\<rparr>) else None)
      else Some data)"

definition add_character_to_error :: "parser_data \<Rightarrow> char \<Rightarrow> parser_data option" where
  "add_character_to_error data c =
     do {
       data \<leftarrow> (if length (buffer data) > MAX_ERROR_SIZE - 2 then handle_error data else Some data);
       if length (buffer data) < MAX_ERROR_SIZE
       then Some (data\<lparr>buffer := buffer data @ [c]\<rparr>) else None
     }"

datatype scan_result = Scanned parser_data | Scan_aborts

fun token_action :: "parser_data \<Rightarrow> token \<Rightarrow> scan_result option" where
  "token_action data Ack = map_option Scanned (handle_error data)"
| "token_action data Resend =
     do {
       data \<leftarrow> handle_error data;
       Some (Scanned (data\<lparr>gdb := gdb_transmit_packet (gdb data)\<rparr>))
     }"
| "token_action data (Frame s) =
     do {
       data \<leftarrow> handle_error data;
       r \<leftarrow> gdb_packet_analysis (gdb data) s;
       Some (case r of Done g \<Rightarrow> Scanned (data\<lparr>gdb := g\<rparr>) | Aborts \<Rightarrow> Scan_aborts)
     }"
| "token_action data (Junk c) = map_option Scanned (add_character_to_error data c)"
| "token_action data (Echo c) = Some (Scanned (data\<lparr>echoed := echoed data @ [c]\<rparr>))"

declare match_frame.simps [simp del]

lemma match_frame_iff:
  "match_frame s = Some (f, rest) \<longleftrightarrow>
     (\<exists>body a b. f = CHR ''$'' # body @ [CHR ''#'', a, b] \<and> s = f @ rest \<and>
       (\<forall>c \<in> set body. in_frame c) \<and> is_hex a \<and> is_hex b)" (is "?l \<longleftrightarrow> ?r")
proof
  assume ?l
  then obtain s' a b where s: "s = CHR ''$'' # s'" "is_hex a" "is_hex b"
    and d: "dropWhile in_frame s' = CHR ''#'' # a # b # rest"
    and f: "f = CHR ''$'' # takeWhile in_frame s' @ [CHR ''#'', a, b]"
    by (cases s) (auto simp: match_frame.simps split: if_splits list.splits)
  have "s' = takeWhile in_frame s' @ CHR ''#'' # a # b # rest"
    by (metis d takeWhile_dropWhile_id)
  with s f show ?r
    by (intro exI [of _ "takeWhile in_frame s'"] exI [of _ a] exI [of _ b])
      (auto dest: set_takeWhileD)
next
  assume ?r
  then obtain body a b where f: "f = CHR ''$'' # body @ [CHR ''#'', a, b]" "s = f @ rest"
    "\<forall>c \<in> set body. in_frame c" "is_hex a" "is_hex b" by blast
  have h: "\<not> in_frame (CHR ''#'')" by (simp add: in_frame_def)
  have "dropWhile in_frame (body @ CHR ''#'' # a # b # rest) = CHR ''#'' # a # b # rest"
    "takeWhile in_frame (body @ CHR ''#'' # a # b # rest) = body"
    using f(3) h by simp_all
  with f show ?l by (simp add: match_frame.simps)
qed

lemma next_token_lexeme: "next_token s = Some (t, rest) \<Longrightarrow> s = lexeme t @ rest \<and> lexeme t \<noteq> []"
  by (auto simp: next_token_def match_frame_iff split: option.splits list.splits if_splits)

subsection \<open>The loop\<close>

lemma next_token_shorter: "next_token s = Some (t, rest) \<Longrightarrow> length rest < length s"
  by (drule next_token_lexeme) auto

lemma match_frame_Nil [simp]: "match_frame [] = None"
  by (simp add: match_frame.simps)

lemma next_token_Nil [simp]: "next_token [] = None"
  by (simp add: next_token_def)

lemma next_token_None [simp]: "next_token s = None \<longleftrightarrow> s = []"
  by (cases s) (auto simp: next_token_def split: option.splits)

function yylex :: "parser_data \<Rightarrow> string \<Rightarrow> scan_result option" where
  "yylex data input =
     (case next_token input of
        None \<Rightarrow> map_option Scanned (handle_error data)
      | Some (t, rest) \<Rightarrow>
          do {
            r \<leftarrow> token_action data t;
            case r of Scanned data \<Rightarrow> yylex data rest | Scan_aborts \<Rightarrow> Some Scan_aborts
          })"
  by pat_completeness auto
termination
  by (relation "measure (\<lambda>(data, input). length input)") (auto dest: next_token_shorter)

declare yylex.simps [simp del]

text \<open>\<open>opened\<close> is the outcome of \<open>fdopen\<close>: without a stream the client is not served.\<close>

definition gdb_scanner :: "arm_core_data \<Rightarrow> bool \<Rightarrow> string \<Rightarrow> scan_result option" where
  "gdb_scanner p opened input =
     (let data = \<lparr>gdb = gdb_init_data p, buffer = [], echoed = []\<rparr> in
      if \<not> opened then Some (Scanned data) else yylex data input)"

subsection \<open>The longest match\<close>

text \<open>
  What flex promises: of the rules, with the default one last, the one with the longest match,
  and the first of those.
\<close>

fun rule_matches :: "nat \<Rightarrow> string \<Rightarrow> bool" where
  "rule_matches i l =
     (if i = 0 then l = ''+''
      else if i = 1 then l = ''-''
      else if i = 2 then (\<exists>body a b. l = CHR ''$'' # body @ [CHR ''#'', a, b] \<and>
        (\<forall>c \<in> set body. in_frame c) \<and> is_hex a \<and> is_hex b)
      else if i = 3 then (\<exists>c. l = [c] \<and> c \<noteq> CHR 0x0A)
      else i = 4 \<and> (\<exists>c. l = [c]))"

declare rule_matches.simps [simp del]

definition flex_choice :: "string \<Rightarrow> nat \<Rightarrow> string \<Rightarrow> bool" where
  "flex_choice s i l \<longleftrightarrow> rule_matches i l \<and> prefix l s \<and>
     (\<forall>j l'. rule_matches j l' \<and> prefix l' s \<longrightarrow>
        length l' < length l \<or> (length l' = length l \<and> i \<le> j))"

definition token_of :: "nat \<Rightarrow> string \<Rightarrow> token" where
  "token_of i l =
     (if i = 0 then Ack else if i = 1 then Resend else if i = 2 then Frame l
      else if i = 3 then Junk (hd l) else Echo (hd l))"

lemma flex_choice_unique:
  assumes "flex_choice s i l" "flex_choice s j l'"
  shows "i = j \<and> l = l'"
proof -
  from assms have "length l' < length l \<or> (length l' = length l \<and> i \<le> j)"
    "length l < length l' \<or> (length l = length l' \<and> j \<le> i)" "prefix l s" "prefix l' s"
    unfolding flex_choice_def by blast+
  then have "length l = length l'" "i = j" "prefix l s" "prefix l' s" by linarith+
  then show ?thesis by (auto simp: prefix_def)
qed

lemma frame_at_most_one:
  assumes "rule_matches 2 l" "prefix l s"
  shows "\<exists>rest. match_frame s = Some (l, rest)"
  using assms by (auto simp: rule_matches.simps prefix_def match_frame_iff)

lemma rule_length: "rule_matches j l \<Longrightarrow> j \<noteq> 2 \<Longrightarrow> length l = 1"
  by (auto simp: rule_matches.simps split: if_splits)

lemma next_token_choice:
  assumes "next_token s = Some (t, rest)"
  shows "\<exists>i l. flex_choice s i l \<and> s = l @ rest \<and> t = token_of i l"
proof (cases "match_frame s")
  case (Some r)
  then obtain f where m: "match_frame s = Some (f, rest)" and t: "t = Frame f"
    using assms by (cases r) (simp add: next_token_def)
  then obtain body a b where f: "f = CHR ''$'' # body @ [CHR ''#'', a, b]" "s = f @ rest"
    "\<forall>c \<in> set body. in_frame c" "is_hex a" "is_hex b"
    unfolding match_frame_iff by blast
  have "flex_choice s 2 f"
    unfolding flex_choice_def
  proof (intro conjI allI impI)
    show "rule_matches 2 f" using f by (auto simp: rule_matches.simps)
    show "prefix f s" using f by simp
    fix j l'
    assume l': "rule_matches j l' \<and> prefix l' s"
    then show "length l' < length f \<or> (length l' = length f \<and> 2 \<le> j)"
      using frame_at_most_one [of l' s] rule_length [of j l'] m f(1) by (cases "j = 2") auto
  qed
  with f t show ?thesis by (intro exI [of _ 2] exI [of _ f]) (simp add: token_of_def)
next
  case None
  with assms obtain c where s: "s = c # rest" and t: "t = (if c = CHR ''+'' then Ack
      else if c = CHR ''-'' then Resend else if c = CHR 0x0A then Echo c else Junk c)"
    by (auto simp: next_token_def split: list.splits)
  let ?i = "if c = CHR ''+'' then 0 else if c = CHR ''-'' then 1 else if c = CHR 0x0A then 4 else 3 :: nat"
  have "flex_choice s ?i [c]"
    unfolding flex_choice_def
  proof (intro conjI allI impI)
    show "rule_matches ?i [c]" by (simp add: rule_matches.simps)
    show "prefix [c] s" using s by simp
    fix j l'
    assume l': "rule_matches j l' \<and> prefix l' s"
    then have j: "j \<noteq> 2" using None frame_at_most_one by fastforce
    then have len: "length l' = 1" using l' rule_length by blast
    then have "l' = [c]" using l' s by (cases l') auto
    with l' j len show "length l' < length [c] \<or> (length l' = length [c] \<and> ?i \<le> j)"
      by (auto simp: rule_matches.simps split: if_splits)
  qed
  with s t show ?thesis by (intro exI [of _ ?i] exI [of _ "[c]"]) (simp add: token_of_def)
qed

subsection \<open>The loop as a pass over the tokens\<close>

function tokens :: "string \<Rightarrow> token list" where
  "tokens input = (case next_token input of None \<Rightarrow> [] | Some (t, rest) \<Rightarrow> t # tokens rest)"
  by pat_completeness auto
termination
  by (relation "measure length") (auto dest: next_token_shorter)

declare tokens.simps [simp del]

lemma tokens_Nil [simp]: "tokens [] = []"
  by (simp add: tokens.simps)

lemma tokens_next: "next_token s = Some (t, rest) \<Longrightarrow> tokens s = t # tokens rest"
  by (simp add: tokens.simps [of s])

lemma tokens_lexemes: "concat (map lexeme (tokens s)) = s"
proof (induction s rule: tokens.induct)
  case (1 s)
  show ?case
  proof (cases "next_token s")
    case (Some r)
    then obtain t rest where n: "next_token s = Some (t, rest)" by (cases r) simp
    with "1.IH" [OF n refl] next_token_lexeme [OF n] show ?thesis by (simp add: tokens_next)
  qed simp
qed

lemma tokens_length: "length (tokens s) \<le> length s"
proof (induction s rule: tokens.induct)
  case (1 s)
  show ?case
  proof (cases "next_token s")
    case (Some r)
    then obtain t rest where n: "next_token s = Some (t, rest)" by (cases r) simp
    with "1.IH" [OF n refl] next_token_shorter [OF n] show ?thesis by (simp add: tokens_next)
  qed simp
qed

fun scan_tokens :: "parser_data \<Rightarrow> token list \<Rightarrow> scan_result option" where
  "scan_tokens data [] = Some (Scanned data)"
| "scan_tokens data (t # ts) =
     do {
       r \<leftarrow> token_action data t;
       case r of Scanned data \<Rightarrow> scan_tokens data ts | Scan_aborts \<Rightarrow> Some Scan_aborts
     }"

definition scan_end :: "scan_result \<Rightarrow> scan_result option" where
  "scan_end r = (case r of Scanned data \<Rightarrow> map_option Scanned (handle_error data)
     | Scan_aborts \<Rightarrow> Some Scan_aborts)"

lemma scan_tokens_append:
  "scan_tokens data (ts @ us) =
     do { r \<leftarrow> scan_tokens data ts;
          case r of Scanned data \<Rightarrow> scan_tokens data us | Scan_aborts \<Rightarrow> Some Scan_aborts }"
  by (induction ts arbitrary: data) (auto split: Option.bind_splits scan_result.splits)

lemma yylex_tokens: "yylex data s = do { r \<leftarrow> scan_tokens data (tokens s); scan_end r }"
proof (induction data s rule: yylex.induct)
  case (1 data s)
  show ?case
  proof (cases "next_token s")
    case None
    then have "s = []" by simp
    then show ?thesis by (simp add: yylex.simps [of data "[]"] scan_end_def)
  next
    case (Some x)
    then obtain t rest where n: "next_token s = Some (t, rest)" by (cases x) simp
    show ?thesis
    proof (cases "token_action data t")
      case None
      with n show ?thesis by (simp add: yylex.simps [of data s] tokens_next)
    next
      case (Some r)
      with n "1.IH" [OF n refl Some] show ?thesis
        by (cases r) (simp_all add: yylex.simps [of data s] tokens_next scan_end_def)
    qed
  qed
qed

subsection \<open>The error buffer\<close>

definition wf_parser :: "parser_data \<Rightarrow> bool" where
  "wf_parser data \<longleftrightarrow> length (buffer data) < MAX_ERROR_SIZE"

text \<open>\<open>n\<close> requests for retransmission.\<close>

definition requests :: "nat \<Rightarrow> gdb_data \<Rightarrow> gdb_data" where
  "requests n g = g\<lparr>sent := sent g @ replicate n ''-''\<rparr>"

lemma requests_0 [simp]: "requests 0 g = g"
  by (simp add: requests_def)

lemma requests_requests [simp]: "requests n (requests m g) = requests (m + n) g"
  by (simp add: requests_def replicate_add)

lemma requests_Suc: "gdb_require_retransmission g = requests 1 g"
  by (simp add: requests_def gdb_require_retransmission_def Rio_writen_def)

lemma handle_error_wf:
  "wf_parser data \<Longrightarrow> handle_error data = Some (data\<lparr>buffer := [],
     gdb := (if buffer data = [] then gdb data else requests 1 (gdb data))\<rparr>)"
  by (cases data) (simp add: handle_error_def wf_parser_def requests_Suc)

lemma add_character_wf:
  "wf_parser data \<Longrightarrow> add_character_to_error data c = Some
     (if length (buffer data) = 1023 then data\<lparr>gdb := requests 1 (gdb data), buffer := [c]\<rparr>
      else data\<lparr>buffer := buffer data @ [c]\<rparr>)"
  by (auto simp: add_character_to_error_def handle_error_wf wf_parser_def MAX_ERROR_SIZE_def)

lemma token_action_wf: "wf_parser data \<Longrightarrow> token_action data t = Some (Scanned data') \<Longrightarrow> wf_parser data'"
  by (cases t)
    (auto simp: handle_error_wf add_character_wf split: Option.bind_splits gdb_result.splits if_splits,
      auto simp: wf_parser_def MAX_ERROR_SIZE_def)

text \<open>Only a frame's request can be undefined.\<close>

lemma token_action_None:
  assumes "wf_parser data" "token_action data t = None"
  obtains f g where "t = Frame f" "gdb_packet_analysis g f = None" "g = gdb data \<or> g = requests 1 (gdb data)"
  using assms by (cases t; cases "buffer data = []")
    (auto simp: handle_error_wf add_character_wf split: Option.bind_splits)

lemma scan_tokens_wf: "wf_parser data \<Longrightarrow> scan_tokens data ts = Some (Scanned data') \<Longrightarrow> wf_parser data'"
  by (induction ts arbitrary: data)
    (auto split: Option.bind_splits scan_result.splits dest: token_action_wf)

lemma scan_tokens_None:
  assumes "wf_parser data" "scan_tokens data ts = None"
  shows "\<exists>us f vs data' g. ts = us @ Frame f # vs \<and> scan_tokens data us = Some (Scanned data') \<and>
    gdb_packet_analysis g f = None \<and> (g = gdb data' \<or> g = requests 1 (gdb data'))"
  using assms
proof (induction ts arbitrary: data)
  case (Cons t ts)
  show ?case
  proof (cases "token_action data t")
    case None
    from token_action_None [OF Cons.prems(1) None] obtain f g where
      "t = Frame f" "gdb_packet_analysis g f = None" "g = gdb data \<or> g = requests 1 (gdb data)" by blast
    then have "t # ts = [] @ Frame f # ts \<and> scan_tokens data [] = Some (Scanned data) \<and>
      gdb_packet_analysis g f = None \<and> (g = gdb data \<or> g = requests 1 (gdb data))" by simp
    then show ?thesis by blast
  next
    case (Some r)
    with Cons.prems obtain d where d: "token_action data t = Some (Scanned d)" "scan_tokens d ts = None"
      by (cases r) auto
    from Cons.IH [OF token_action_wf [OF Cons.prems(1) d(1)] d(2)] obtain us f vs data' g where
      "ts = us @ Frame f # vs" "scan_tokens d us = Some (Scanned data')"
      "gdb_packet_analysis g f = None" "g = gdb data' \<or> g = requests 1 (gdb data')" by blast
    with d(1) have "t # ts = (t # us) @ Frame f # vs \<and> scan_tokens data (t # us) = Some (Scanned data') \<and>
      gdb_packet_analysis g f = None \<and> (g = gdb data' \<or> g = requests 1 (gdb data'))" by simp
    then show ?thesis by blast
  qed
qed simp

subsection \<open>What the input asks for\<close>

text \<open>
  The demands an input stands for, apart from the error buffer: \<open>n\<close> counts the bytes of noise since
  the last token of another kind, and every 1023 of them, or what is left of them before such a
  token or the end, ask for one retransmission. \<open>perform\<close> carries the demands out, in order.
\<close>

datatype demand = Rejects | Transmits | Requests string

fun demands :: "nat \<Rightarrow> token list \<Rightarrow> demand list" where
  "demands n [] = replicate ((n + 1022) div 1023) Rejects"
| "demands n (Junk c # ts) = demands (n + 1) ts"
| "demands n (Echo c # ts) = demands n ts"
| "demands n (Ack # ts) = replicate ((n + 1022) div 1023) Rejects @ demands 0 ts"
| "demands n (Resend # ts) = replicate ((n + 1022) div 1023) Rejects @ Transmits # demands 0 ts"
| "demands n (Frame f # ts) = replicate ((n + 1022) div 1023) Rejects @ Requests f # demands 0 ts"

fun perform :: "gdb_data \<Rightarrow> demand list \<Rightarrow> gdb_result option" where
  "perform g [] = Some (Done g)"
| "perform g (Rejects # es) = perform (g\<lparr>sent := sent g @ [''-'']\<rparr>) es"
| "perform g (Transmits # es) = perform (gdb_transmit_packet g) es"
| "perform g (Requests f # es) =
     (case gdb_packet_analysis g f of
        None \<Rightarrow> None
      | Some Aborts \<Rightarrow> Some Aborts
      | Some (Done g) \<Rightarrow> perform g es)"

text \<open>The bytes of a token list that are copied to the standard output.\<close>

fun echoes :: "token list \<Rightarrow> string" where
  "echoes [] = []"
| "echoes (Echo c # ts) = c # echoes ts"
| "echoes (t # ts) = echoes ts"

definition scan_outcome :: "parser_data \<Rightarrow> string \<Rightarrow> gdb_result \<Rightarrow> scan_result" where
  "scan_outcome data es r =
     (case r of
        Done g \<Rightarrow> Scanned (data\<lparr>gdb := g, buffer := [], echoed := echoed data @ es\<rparr>)
      | Aborts \<Rightarrow> Scan_aborts)"

lemma perform_rejects: "perform g (replicate k Rejects @ es) = perform (requests k g) es"
  by (induction k arbitrary: g) (simp_all add: requests_def)

lemma demands_full_buffer: "demands (n + 1023) ts = Rejects # demands n ts"
proof -
  have "(2045 + n) div 1023 = Suc ((n + 1022) div 1023)" for n :: nat
    using div_add_self2 [of 1023 "n + 1022"] by (simp add: ac_simps)
  then show ?thesis by (induction n ts rule: demands.induct) simp_all
qed

lemma rejects_once: "n < 1024 \<Longrightarrow> (n + 1022) div 1023 = (if n = 0 then 0 else 1 :: nat)"
  by (cases n) simp_all

lemma scan_demands:
  "wf_parser data \<Longrightarrow> do { r \<leftarrow> scan_tokens data ts; scan_end r } =
     map_option (scan_outcome data (echoes ts)) (perform (gdb data) (demands (length (buffer data)) ts))"
proof (induction ts arbitrary: data)
  case Nil
  then have "(length (buffer data) + 1022) div 1023 = (if buffer data = [] then 0 else 1)"
    by (simp add: rejects_once wf_parser_def MAX_ERROR_SIZE_def)
  with Nil show ?case
    using perform_rejects [of "gdb data" _ "[]"]
    by (simp add: scan_end_def handle_error_wf scan_outcome_def)
next
  case (Cons t ts)
  let ?g = "if buffer data = [] then gdb data else requests 1 (gdb data)"
  have once: "perform (gdb data) (replicate ((length (buffer data) + 1022) div 1023) Rejects @ es) = perform ?g es" for es
    using Cons.prems by (simp add: perform_rejects rejects_once wf_parser_def MAX_ERROR_SIZE_def)
  have empty: "wf_parser (data\<lparr>gdb := g, buffer := []\<rparr>)" "wf_parser (data\<lparr>buffer := [], gdb := g\<rparr>)" for g
    by (simp_all add: wf_parser_def MAX_ERROR_SIZE_def)
  have outcome: "scan_outcome (data\<lparr>buffer := b, gdb := g\<rparr>) = scan_outcome data" for b g
    by (simp add: fun_eq_iff scan_outcome_def split: gdb_result.splits)
  show ?case
  proof (cases t)
    case Ack
    with Cons.prems Cons.IH [OF empty(2)] show ?thesis
      by (simp add: handle_error_wf once outcome)
  next
    case Resend
    with Cons.prems Cons.IH [OF empty(2)] show ?thesis
      by (simp add: handle_error_wf once outcome)
  next
    case (Frame f)
    define g where "g = ?g"
    have h: "handle_error data = Some (data\<lparr>buffer := [], gdb := g\<rparr>)"
      using handle_error_wf [OF Cons.prems] by (simp add: g_def)
    show ?thesis
    proof (cases "gdb_packet_analysis g f")
      case None
      with Frame show ?thesis by (simp add: h once flip: g_def)
    next
      case (Some r)
      with Frame Cons.IH [OF empty(2)] show ?thesis
        by (cases r) (simp_all add: h once outcome scan_end_def scan_outcome_def flip: g_def)
    qed
  next
    case (Junk c)
    show ?thesis
    proof (cases "length (buffer data) = 1023")
      case True
      let ?d = "data\<lparr>gdb := requests 1 (gdb data), buffer := [c]\<rparr>"
      have "wf_parser ?d" by (simp add: wf_parser_def MAX_ERROR_SIZE_def)
      from Cons.IH [OF this] True Junk Cons.prems demands_full_buffer [of 1 ts] show ?thesis
        by (simp add: add_character_wf requests_def scan_outcome_def cong: gdb_result.case_cong)
    next
      case False
      let ?d = "data\<lparr>buffer := buffer data @ [c]\<rparr>"
      have "wf_parser ?d" using Cons.prems False by (simp add: wf_parser_def MAX_ERROR_SIZE_def)
      from Cons.IH [OF this] False Junk Cons.prems show ?thesis
        by (simp add: add_character_wf scan_outcome_def cong: gdb_result.case_cong)
    qed
  next
    case (Echo c)
    let ?d = "data\<lparr>echoed := echoed data @ [c]\<rparr>"
    have "wf_parser ?d" using Cons.prems by (simp add: wf_parser_def)
    from Cons.IH [OF this] Echo show ?thesis
      by (simp add: scan_outcome_def cong: gdb_result.case_cong)
  qed
qed

lemma yylex_demands:
  "wf_parser data \<Longrightarrow> yylex data s =
     map_option (scan_outcome data (echoes (tokens s)))
       (perform (gdb data) (demands (length (buffer data)) (tokens s)))"
  by (simp add: yylex_tokens scan_demands)

lemma perform_None:
  "perform g es = None \<longleftrightarrow> (\<exists>us f vs g'. es = us @ Requests f # vs \<and> perform g us = Some (Done g') \<and>
     gdb_packet_analysis g' f = None)" (is "_ \<longleftrightarrow> ?r g es")
proof
  show "perform g es = None \<Longrightarrow> ?r g es"
  proof (induction g es rule: perform.induct)
    case (4 g f es)
    show ?case
    proof (cases "gdb_packet_analysis g f")
      case None
      then have "Requests f # es = [] @ Requests f # es \<and> perform g [] = Some (Done g) \<and>
        gdb_packet_analysis g f = None" by simp
      then show ?thesis by blast
    next
      case (Some r)
      with "4.prems" obtain g1 where g1: "gdb_packet_analysis g f = Some (Done g1)" "perform g1 es = None"
        by (cases r) auto
      from "4.IH" [OF g1(1) refl g1(2)] obtain us f' vs g' where
        "es = us @ Requests f' # vs" "perform g1 us = Some (Done g')" "gdb_packet_analysis g' f' = None" by blast
      with g1(1) have "Requests f # es = (Requests f # us) @ Requests f' # vs \<and>
        perform g (Requests f # us) = Some (Done g') \<and> gdb_packet_analysis g' f' = None" by simp
      then show ?thesis by blast
    qed
  next
    case (2 g es)
    from "2.IH" "2.prems" show ?case by simp (metis append_Cons perform.simps(2))
  next
    case (3 g es)
    from "3.IH" "3.prems" show ?case by simp (metis append_Cons perform.simps(3))
  qed simp
next
  assume "?r g es"
  then obtain us f vs g' where "es = us @ Requests f # vs" "perform g us = Some (Done g')"
    "gdb_packet_analysis g' f = None" by blast
  then show "perform g es = None"
  proof (induction g us arbitrary: es rule: perform.induct)
    case (4 g f' us)
    from "4.prems"(2) obtain g1 where "gdb_packet_analysis g f' = Some (Done g1)" "perform g1 us = Some (Done g')"
      by (auto split: option.splits gdb_result.splits)
    with "4.IH" [OF this(1) refl refl] "4.prems" show ?case by simp
  qed simp_all
qed

subsection \<open>Bytes outside frames\<close>

text \<open>Noise: bytes no rule but that of errors takes, a start without its end mark included.\<close>

definition noise :: "string \<Rightarrow> bool" where
  "noise cs \<longleftrightarrow> set cs \<inter> {CHR ''#'', CHR ''+'', CHR ''-'', CHR 0x0A} = {}"

definition starts_frame :: "string \<Rightarrow> bool" where
  "starts_frame s \<longleftrightarrow> s = [] \<or> hd s = CHR ''$''"

lemma no_frame_in_noise:
  assumes "CHR ''#'' \<notin> set cs" "starts_frame s"
  shows "match_frame (CHR ''$'' # cs @ s) = None"
proof (cases "\<exists>c \<in> set cs. \<not> in_frame c")
  case True
  then have ne: "dropWhile in_frame cs \<noteq> []" by (auto simp: dropWhile_eq_Nil_conv)
  then have "hd (dropWhile in_frame cs) \<in> set cs" by (rule set_dropWhileD [OF hd_in_set])
  then have "hd (dropWhile in_frame cs) \<noteq> CHR ''#''" using assms(1) by metis
  with hd_dropWhile [OF ne] have "hd (dropWhile in_frame cs) = CHR ''$''"
    unfolding in_frame_def by blast
  then obtain d where d: "dropWhile in_frame cs = CHR ''$'' # d"
    using ne by (cases "dropWhile in_frame cs") auto
  obtain c where "c \<in> set cs" "\<not> in_frame c" using True by blast
  then have "dropWhile in_frame (cs @ s) = dropWhile in_frame cs @ s" by (rule dropWhile_append1)
  with d show ?thesis by (simp add: match_frame.simps split: list.split)
next
  case False
  then have "dropWhile in_frame (cs @ s) = dropWhile in_frame s" by simp
  also have "\<dots> = s" using assms(2) by (cases s) (simp_all add: starts_frame_def in_frame_def)
  finally have d: "dropWhile in_frame (cs @ s) = s" .
  show ?thesis
  proof (cases s)
    case Nil
    with d show ?thesis by (simp add: match_frame.simps del: dropWhile_eq_Nil_conv)
  next
    case (Cons c s')
    with assms(2) d show ?thesis by (simp add: match_frame.simps starts_frame_def split: list.split)
  qed
qed

lemma tokens_noise:
  "noise cs \<Longrightarrow> starts_frame s \<Longrightarrow> tokens (cs @ s) = map Junk cs @ tokens s"
proof (induction cs)
  case (Cons c cs)
  then have "match_frame (c # cs @ s) = None"
    using no_frame_in_noise [of cs s] by (cases "c = CHR ''$''") (auto simp: noise_def match_frame.simps)
  with Cons.prems(1) have "next_token (c # cs @ s) = Some (Junk c, cs @ s)"
    by (auto simp: next_token_def noise_def)
  with Cons show ?case by (simp add: tokens_next noise_def)
qed simp

lemma scan_noise:
  "wf_parser data \<Longrightarrow> scan_tokens data (map Junk cs @ ts) =
     scan_tokens (data\<lparr>gdb := requests ((length (buffer data) + length cs - 1) div 1023) (gdb data),
       buffer := drop (1023 * ((length (buffer data) + length cs - 1) div 1023)) (buffer data @ cs)\<rparr>) ts"
proof (induction cs arbitrary: data)
  case Nil
  then have "(length (buffer data) - 1) div 1023 = 0" by (auto simp: wf_parser_def MAX_ERROR_SIZE_def)
  then show ?case by simp
next
  case (Cons c cs)
  show ?case
  proof (cases "length (buffer data) = 1023")
    case True
    let ?d = "data\<lparr>gdb := requests 1 (gdb data), buffer := [c]\<rparr>"
    have "wf_parser ?d" by (simp add: wf_parser_def MAX_ERROR_SIZE_def)
    moreover have "(1023 + length cs) div 1023 = Suc (length cs div 1023)" by simp
    ultimately show ?thesis using Cons.IH [of ?d] Cons.prems True
      by (simp add: add_character_wf)
  next
    case False
    let ?d = "data\<lparr>buffer := buffer data @ [c]\<rparr>"
    have "wf_parser ?d" using Cons.prems False by (simp add: wf_parser_def MAX_ERROR_SIZE_def)
    from Cons.IH [OF this] Cons.prems False show ?thesis
      by (simp add: add_character_wf)
  qed
qed

lemma noise_then_error:
  assumes "buffer data = []"
  shows "handle_error (data\<lparr>gdb := requests ((length cs - 1) div 1023) (gdb data),
      buffer := drop (1023 * ((length cs - 1) div 1023)) cs\<rparr>) =
    Some (data\<lparr>gdb := requests ((length cs + 1022) div 1023) (gdb data)\<rparr>)"
proof (cases "cs = []")
  case True
  with assms show ?thesis by (simp add: handle_error_def)
next
  case False
  let ?k = "(length cs - 1) div 1023"
  let ?d = "data\<lparr>gdb := requests ?k (gdb data), buffer := drop (1023 * ?k) cs\<rparr>"
  have pos: "0 < length cs" using False by simp
  have k: "length cs - 1 = 1023 * ?k + (length cs - 1) mod 1023" by simp
  have "1023 * ?k < length cs" "length cs - 1023 * ?k < 1024"
    using pos k mod_less_divisor [of 1023 "length cs - 1"] by linarith+
  then have "wf_parser ?d" "buffer ?d \<noteq> []" by (simp_all add: wf_parser_def MAX_ERROR_SIZE_def)
  moreover have "(length cs + 1022) div 1023 = ?k + 1"
    using pos by (cases "length cs") simp_all
  ultimately show ?thesis using assms by (simp add: handle_error_wf)
qed

subsection \<open>Sessions\<close>

text \<open>Noise and frames, one after the other.\<close>

definition session :: "(string \<times> string) list \<Rightarrow> string" where
  "session xs = concat (map (\<lambda>(cs, payload). cs @ frame payload) xs)"

fun serve_all :: "gdb_data \<Rightarrow> (string \<times> string) list \<Rightarrow> gdb_result option" where
  "serve_all g [] = Some (Done g)"
| "serve_all g ((cs, payload) # xs) =
     do {
       r \<leftarrow> dispatch (gdb_send_ack (requests ((length cs + 1022) div 1023) g)) payload;
       case r of Done g \<Rightarrow> serve_all g xs | Aborts \<Rightarrow> Some Aborts
     }"

definition clean :: "string \<times> string \<Rightarrow> bool" where
  "clean x \<longleftrightarrow> noise (fst x) \<and> (\<forall>c \<in> set (snd x). in_frame c)"

lemma is_hex_lower: "n < 16 \<Longrightarrow> is_hex (hex_lower n)"
  using hex_lower_digit(1) [of n] by (simp add: is_hex_def)

lemma tokens_frame:
  assumes "\<forall>c \<in> set payload. in_frame c"
  shows "tokens (frame payload @ s) = Frame (frame payload) # tokens s"
proof -
  have "match_frame (frame payload @ s) = Some (frame payload, s)"
    unfolding match_frame_iff frame_def format_02x_def using assms is_hex_lower nibbles
    by (intro exI [of _ payload]) auto
  then show ?thesis by (intro tokens_next) (simp add: next_token_def)
qed

lemma tokens_session:
  assumes "\<forall>x \<in> set xs. clean x" "noise tail"
  shows "tokens (session xs @ tail) = concat (map (\<lambda>(cs, p). map Junk cs @ [Frame (frame p)]) xs) @
    map Junk tail"
  using assms(1)
proof (induction xs)
  case Nil
  show ?case using tokens_noise [OF assms(2), of "[]"] by (simp add: session_def starts_frame_def)
next
  case (Cons x xs)
  obtain cs p where x: "x = (cs, p)" by (cases x)
  have "tokens (session (x # xs) @ tail) = tokens (cs @ frame p @ session xs @ tail)"
    by (simp add: session_def x)
  also have "\<dots> = map Junk cs @ tokens (frame p @ session xs @ tail)"
    using Cons.prems x by (intro tokens_noise) (simp_all add: clean_def starts_frame_def frame_def)
  also have "\<dots> = map Junk cs @ Frame (frame p) # tokens (session xs @ tail)"
    using Cons.prems x by (subst tokens_frame) (simp_all add: clean_def)
  finally show ?case using Cons x by simp
qed

lemma scan_frame:
  assumes "buffer data = []"
  shows "scan_tokens data (map Junk cs @ Frame (frame p) # ts) =
    do {
      r \<leftarrow> dispatch (gdb_send_ack (requests ((length cs + 1022) div 1023) (gdb data))) p;
      case r of Done g \<Rightarrow> scan_tokens (data\<lparr>gdb := g\<rparr>) ts | Aborts \<Rightarrow> Some Scan_aborts
    }"
proof -
  have "wf_parser data" using assms by (simp add: wf_parser_def MAX_ERROR_SIZE_def)
  from scan_noise [OF this] noise_then_error [OF assms, of cs] assms show ?thesis
    by (auto simp: analysis_frame split: Option.bind_splits gdb_result.splits)
qed

lemma yylex_session:
  assumes "\<forall>x \<in> set xs. clean x" "noise tail" "buffer data = []"
  shows "yylex data (session xs @ tail) =
    do {
      r \<leftarrow> serve_all (gdb data) xs;
      Some (case r of
        Done g \<Rightarrow> Scanned (data\<lparr>gdb := requests ((length tail + 1022) div 1023) g\<rparr>)
      | Aborts \<Rightarrow> Scan_aborts)
    }"
proof -
  have "do { r \<leftarrow> scan_tokens d (concat (map (\<lambda>(cs, p). map Junk cs @ [Frame (frame p)]) xs) @ map Junk tail);
      scan_end r } =
    do {
      r \<leftarrow> serve_all (gdb d) xs;
      Some (case r of
        Done g \<Rightarrow> Scanned (d\<lparr>gdb := requests ((length tail + 1022) div 1023) g\<rparr>)
      | Aborts \<Rightarrow> Scan_aborts)
    }" if "buffer d = []" for d
    using that
  proof (induction xs arbitrary: d)
    case Nil
    then have "wf_parser d" by (simp add: wf_parser_def MAX_ERROR_SIZE_def)
    with scan_noise [OF this, of tail "[]"] noise_then_error [OF Nil, of tail] Nil show ?case
      by (simp add: scan_end_def)
  next
    case (Cons x xs)
    obtain cs p where x: "x = (cs, p)" by (cases x)
    let ?r = "dispatch (gdb_send_ack (requests ((length cs + 1022) div 1023) (gdb d))) p"
    show ?case
    proof (cases ?r)
      case None
      with Cons.prems show ?thesis by (simp add: x scan_frame)
    next
      case (Some r)
      with Cons.prems show ?thesis
        using Cons.IH [of "d\<lparr>gdb := g\<rparr>" for g] by (cases r)
          (simp_all add: x scan_frame scan_end_def cong: gdb_result.case_cong)
    qed
  qed
  with assms show ?thesis by (simp add: yylex_tokens tokens_session)
qed

subsection \<open>Properties\<close>

text \<open>
  C21: The scanner takes from its input exactly the token flex promises for the rules of the
  file: the longest match of any rule, the earliest rule among those, with the echo of an
  unmatched byte last.
\<close>

lemma scanner_longest_match:
  "next_token s = Some (t, rest) \<longleftrightarrow> (\<exists>i l. flex_choice s i l \<and> s = l @ rest \<and> t = token_of i l)"
proof
  assume "\<exists>i l. flex_choice s i l \<and> s = l @ rest \<and> t = token_of i l"
  then obtain i l where c: "flex_choice s i l" "s = l @ rest" "t = token_of i l" by blast
  then have "l \<noteq> []" by (auto simp: flex_choice_def rule_matches.simps split: if_splits)
  with c(2) obtain t' rest' where n: "next_token s = Some (t', rest')"
    by (cases "next_token s") auto
  then obtain i' l' where c': "flex_choice s i' l'" "s = l' @ rest'" "t' = token_of i' l'"
    using next_token_choice by blast
  have "i' = i" "l' = l" using flex_choice_unique [OF c'(1) c(1)] by simp_all
  with n c c' show "next_token s = Some (t, rest)" by (metis same_append_eq)
qed (rule next_token_choice)

text \<open>
  C22: The scanner splits any input into tokens whose texts make it up, and does exactly what
  they stand for, in order: an acknowledgement nothing, a request for retransmission a
  transmission of the last packet, a frame the analysis of its text, a newline outside a frame
  its echo, each but the echo after one rejection for every 1023 bytes of noise begun since the
  last of them, and the end of the input the same rejections; an analysis that aborts ends it.
  It has no result exactly when, after what comes before it, one of the frames has an analysis
  with none.
\<close>

lemma input_is_served:
  assumes "wf_parser data"
  shows "concat (map lexeme (tokens s)) = s \<and>
    yylex data s = map_option (scan_outcome data (echoes (tokens s)))
      (perform (gdb data) (demands (length (buffer data)) (tokens s))) \<and>
    (yylex data s = None \<longleftrightarrow>
      (\<exists>us f vs g. demands (length (buffer data)) (tokens s) = us @ Requests f # vs \<and>
        perform (gdb data) us = Some (Done g) \<and> gdb_packet_analysis g f = None))"
  by (simp only: tokens_lexemes yylex_demands [OF assms] map_option_is_None perform_None simp_thms)

lemma input_is_served_witness:
  "let data = \<lparr>gdb = gdb_init_data (sample_core [0] []), buffer = [], echoed = []\<rparr>
   in yylex data [CHR ''x'', CHR 0x0A, CHR ''-'', CHR ''y''] =
     Some (Scanned (data\<lparr>gdb := requests 1 (gdb_transmit_packet (requests 1 (gdb data))), echoed := [CHR 0x0A]\<rparr>))"
proof -
  let ?d = "\<lparr>gdb = gdb_init_data (sample_core [0] []), buffer = [], echoed = []\<rparr>"
  let ?s = "[CHR ''x'', CHR 0x0A, CHR ''-'', CHR ''y'']"
  have "wf_parser ?d" by (simp add: wf_parser_def MAX_ERROR_SIZE_def)
  note input_is_served [OF this, of ?s]
  moreover have "tokens ?s = [Junk (CHR ''x''), Echo (CHR 0x0A), Resend, Junk (CHR ''y'')]" by code_simp
  ultimately show ?thesis by (simp add: Let_def scan_outcome_def requests_def)
qed

text \<open>
  C23: However long the input without a frame, the error buffer is never written outside its
  1024 bytes: it stays within them after each token, it is empty at the end, and when a run has
  no value, the cause is the request of one of the frames.
\<close>

lemma error_buffer_in_bounds:
  assumes "wf_parser data"
  shows "(tokens s = us @ vs \<and> scan_tokens data us = Some (Scanned d) \<longrightarrow> wf_parser d) \<and>
    (yylex data s = Some (Scanned d) \<longrightarrow> buffer d = []) \<and>
    (yylex data s = None \<longrightarrow> (\<exists>us f vs d g. tokens s = us @ Frame f # vs \<and>
      scan_tokens data us = Some (Scanned d) \<and> gdb_packet_analysis g f = None \<and>
      (g = gdb d \<or> g = requests 1 (gdb d))))"
proof (intro conjI impI)
  assume "yylex data s = Some (Scanned d)"
  then obtain d' where "scan_tokens data (tokens s) = Some (Scanned d')" "handle_error d' = Some d"
    by (auto simp: yylex_tokens scan_end_def split: Option.bind_splits scan_result.splits)
  then show "buffer d = []" using scan_tokens_wf [OF assms] handle_error_wf [of d'] by auto
next
  assume n: "yylex data s = None"
  have "scan_tokens data (tokens s) = None"
  proof (cases "scan_tokens data (tokens s)")
    case (Some r)
    with n obtain d' where "scan_tokens data (tokens s) = Some (Scanned d')" "handle_error d' = None"
      by (auto simp: yylex_tokens scan_end_def split: scan_result.splits)
    then show ?thesis using scan_tokens_wf [OF assms] handle_error_wf [of d'] by auto
  qed
  then show "\<exists>us f vs d g. tokens s = us @ Frame f # vs \<and> scan_tokens data us = Some (Scanned d) \<and>
      gdb_packet_analysis g f = None \<and> (g = gdb d \<or> g = requests 1 (gdb d))"
    by (rule scan_tokens_None [OF assms])
qed (use scan_tokens_wf [OF assms] in blast)

lemma error_buffer_in_bounds_witness:
  "\<exists>d. yylex \<lparr>gdb = gdb_init_data (sample_core [0] []), buffer = [], echoed = []\<rparr>
      (replicate 2000 (CHR ''$'')) = Some (Scanned d) \<and> buffer d = [] \<and> sent (gdb d) = [''-'', ''-'']"
proof -
  let ?d = "\<lparr>gdb = gdb_init_data (sample_core [0] []), buffer = [], echoed = []\<rparr>"
  let ?s = "replicate 2000 (CHR ''$'')"
  have "wf_parser ?d" by (simp add: wf_parser_def MAX_ERROR_SIZE_def)
  note e = error_buffer_in_bounds [OF this, of ?s]
  have "noise ?s" by (simp add: noise_def)
  from yylex_session [of "[]", OF _ this, of ?d] have
    y: "yylex ?d ?s = Some (Scanned (?d\<lparr>gdb := requests 2 (gdb ?d)\<rparr>))"
    by (simp add: session_def)
  have r: "replicate 2 ''-'' = [''-'', ''-'']" by (simp add: numeral_2_eq_2)
  have "sent (requests 2 (gdb ?d)) = [''-'', ''-'']"
    unfolding requests_def gdb_init_data_def r by simp
  with y e show ?thesis by (intro exI [of _ "?d\<lparr>gdb := requests 2 (gdb ?d)\<rparr>"]) simp
qed

end
