(* ===== verification/Session.thy ===== *)
theory Session
  imports Refinement Scanner
begin

text \<open>
  The requests of a client that loads a program into memory, runs it to a breakpoint and reads
  memory back, as the protocol writes them, with \<open>%x\<close>; how the handlers parse them, and what
  they do to the core, against the instruction set of the theory \<open>Isa\<close>.
\<close>

subsection \<open>The client's numbers\<close>

fun format_x :: "nat \<Rightarrow> string" where
  "format_x n = (if n < 16 then [hex_lower n] else format_x (n div 16) @ [hex_lower (n mod 16)])"

declare format_x.simps [simp del]

definition ends_number :: "string \<Rightarrow> bool" where
  "ends_number s \<longleftrightarrow>
     s = [] \<or> (hex_value (hd s) = None \<and> hd s \<noteq> CHR ''x'' \<and> hd s \<noteq> CHR ''X'')"

lemma format_x_digits: "c \<in> set (format_x n) \<Longrightarrow> \<exists>k < 16. c = hex_lower k"
proof (induction n rule: format_x.induct)
  case (1 n)
  show ?case
  proof (cases "n < 16")
    case True
    with 1 show ?thesis by (auto simp: format_x.simps [of n])
  next
    case False
    with 1(2) have "c \<in> set (format_x (n div 16)) \<or> c = hex_lower (n mod 16)"
      by (auto simp: format_x.simps [of n])
    moreover have "n mod 16 < 16" by simp
    ultimately show ?thesis using 1(1) [OF False] by blast
  qed
qed

lemma format_x_not_Nil [simp]: "format_x n \<noteq> []"
  by (simp add: format_x.simps [of n])

lemma hex_number_append:
  "(\<forall>c \<in> set s. hex_value c \<noteq> None) \<Longrightarrow> hex_number v (s @ t) = hex_number (hex_number v s) t"
  by (induction s arbitrary: v) auto

lemma hex_number_format_x: "hex_number 0 (format_x n) = n"
proof (induction n rule: format_x.induct)
  case (1 n)
  show ?case
  proof (cases "n < 16")
    case True
    then show ?thesis by (simp add: format_x.simps [of n] hex_lower_digit)
  next
    case False
    have "\<forall>c \<in> set (format_x (n div 16)). hex_value c \<noteq> None"
      using format_x_digits hex_lower_digit(1) by fastforce
    with 1 [OF False] False show ?thesis
      by (simp add: format_x.simps [of n] hex_number_append hex_lower_digit)
  qed
qed

lemma scan_format_x:
  assumes "n < 2 ^ 32" "ends_number rest"
  shows "scan_x None (format_x n @ rest) = Some (word_of_nat n, rest)"
proof -
  let ?s = "format_x n"
  have digits: "hex_value c \<noteq> None" "\<not> isspace c" "c \<noteq> CHR ''-''" "c \<noteq> CHR ''+''" "c \<noteq> CHR ''x''" "c \<noteq> CHR ''X''"
    if "c \<in> set ?s" for c using format_x_digits [OF that] hex_lower_digit by fastforce+
  obtain c s' where s: "?s = c # s'" by (cases ?s) auto
  have hex: "\<forall>c \<in> set ?s. hex_value c \<noteq> None" using digits(1) by blast
  have stop: "dropWhile (\<lambda>c. hex_value c \<noteq> None) rest = rest" "hex_number v rest = v" for v
    using assms(2) by (cases rest; simp add: ends_number_def)+
  have "take 2 (?s @ rest) \<noteq> ''0x'' \<and> take 2 (?s @ rest) \<noteq> ''0X''"
  proof (cases s')
    case Nil
    with s assms(2) show ?thesis by (cases rest) (auto simp: ends_number_def)
  next
    case (Cons d s'')
    with s digits(5,6) [of d] show ?thesis by auto
  qed
  then have no0x: "skip_0x (?s @ rest) = ?s @ rest" by (simp add: skip_0x_def)
  have drop: "dropWhile (\<lambda>c. hex_value c \<noteq> None) (?s @ rest) = rest"
    using hex stop(1) by (simp add: dropWhile_append2)
  have num: "hex_number 0 (?s @ rest) = n"
    using hex stop(2) by (simp add: hex_number_append hex_number_format_x)
  have space: "dropWhile isspace (?s @ rest) = ?s @ rest" and sign: "skip_sign (?s @ rest) = (False, ?s @ rest)"
    using digits(2,3,4) [of c] s by simp_all
  have "n < 2 ^ 64" using assms(1) by simp
  then show ?thesis
    unfolding scan_x_def space Let_def option.case sign prod.case no0x drop num
    using s by simp
qed

subsection \<open>The client's requests\<close>

definition load_request :: "u32 \<Rightarrow> u8 list \<Rightarrow> string" where
  "load_request a bs =
     ''X'' @ format_x (unat a) @ '','' @ format_x (length bs) @ '':'' @ escape bs"

definition read_request :: "u32 \<Rightarrow> nat \<Rightarrow> string" where
  "read_request a n = ''m'' @ format_x (unat a) @ '','' @ format_x n"

lemma number_chars:
  assumes "c \<in> set (format_x n)"
  shows "in_frame c" "c \<noteq> NUL" "c \<noteq> CHR '':''"
proof -
  from format_x_digits [OF assms] obtain k where k: "k < 16" "c = hex_lower k" by blast
  from nibble_cases [OF k(1)] k(2) show "in_frame c" "c \<noteq> NUL" "c \<noteq> CHR '':''"
    by (elim insertE emptyE; simp add: hex_lower_def in_frame_def NUL_def)+
qed

lemma char_of_byte_eq:
  "char_of_byte b = c \<longleftrightarrow> b = byte_of c"
proof
  assume "b = byte_of c"
  moreover have "unat (of_nat (of_char c) :: u8) = of_char c"
    by (simp only: unat_of_nat) simp
  then have "unat (byte_of c) = of_char c" by (simp only: byte_of_def of_nat_of_char)
  ultimately show "char_of_byte b = c" by (simp add: char_of_byte_def)
qed auto

lemma escape_chars: "c \<in> set (escape bs) \<Longrightarrow> in_frame c"
proof -
  have "in_frame c" if "c \<in> set (escape_byte b)" for b
    using that by (auto simp: escape_byte_def in_frame_def char_of_byte_eq byte_of_def split: if_splits)
  then show "c \<in> set (escape bs) \<Longrightarrow> in_frame c" by (auto simp: escape_def)
qed

lemma request_clean:
  "\<forall>c \<in> set (load_request a bs). in_frame c" "\<forall>c \<in> set (read_request a n). in_frame c"
  by (auto simp: load_request_def read_request_def in_frame_def
      dest: number_chars(1) escape_chars)

lemma cstr_number: "cstr (format_x n @ s) = format_x n @ cstr s"
  using number_chars(2) by (auto simp: cstr_def takeWhile_append2)

lemma cstr_marks: "cstr (CHR '','' # s) = CHR '','' # cstr s" "cstr (CHR '':'' # s) = CHR '':'' # cstr s"
  "cstr [] = []"
  by (simp_all add: cstr_def NUL_def)

lemma scan_two_numbers:
  assumes "n < 2 ^ 32" "ends_number rest"
  shows "scan_x_x (format_x (unat (a :: u32)) @ '','' @ format_x n @ rest) = (Some a, Some (word_of_nat n))"
proof -
  have "unat a < 2 ^ 32" using unsigned_less [of a, where ?'a = nat] by simp
  moreover have "ends_number ('','' @ format_x n @ rest)" by (simp add: ends_number_def hex_value_def)
  ultimately have "scan_x None (format_x (unat a) @ '','' @ format_x n @ rest) = Some (a, '','' @ format_x n @ rest)"
    by (simp add: scan_format_x)
  with scan_format_x [OF assms] show ?thesis by (simp add: scan_x_x_def)
qed

lemma load_request_parsed:
  assumes "length bs < 2 ^ 32"
  shows "scan_x_x (cstr (tl (load_request a bs))) = (Some a, Some (word_of_nat (length bs)))"
    "index_after (CHR '':'') (tl (load_request a bs)) = Some (escape bs @ [NUL])"
proof -
  let ?h = "format_x (unat a) @ '','' @ format_x (length bs)"
  have t: "tl (load_request a bs) = ?h @ '':'' @ escape bs" by (simp add: load_request_def)
  have c: "cstr (?h @ '':'' @ escape bs) = ?h @ '':'' @ cstr (escape bs)"
    by (simp add: cstr_number cstr_marks)
  show "scan_x_x (cstr (tl (load_request a bs))) = (Some a, Some (word_of_nat (length bs)))"
    unfolding t c using scan_two_numbers [OF assms, of "'':'' @ cstr (escape bs)" a]
    by (simp add: ends_number_def hex_value_def)
  have "\<forall>x \<in> set ?h. x \<noteq> CHR '':''" using number_chars(3) by auto
  then have "takeWhile (\<lambda>d. d \<noteq> CHR '':'') (?h @ '':'' @ escape bs) = ?h"
    by (subst takeWhile_append2) auto
  then show "index_after (CHR '':'') (tl (load_request a bs)) = Some (escape bs @ [NUL])"
    unfolding t index_after_def c by simp
qed

lemma read_request_parsed:
  assumes "n < 2 ^ 32"
  shows "scan_x_x (cstr (tl (read_request a n))) = (Some a, Some (word_of_nat n))"
proof -
  have "cstr (format_x (unat a) @ '','' @ format_x n) = format_x (unat a) @ '','' @ format_x n"
    using cstr_number [of n "[]"] by (simp add: cstr_number cstr_marks)
  with scan_two_numbers [OF assms, of "[]" a] show ?thesis
    by (simp add: read_request_def ends_number_def)
qed

subsection \<open>Loading\<close>

text \<open>The abstract state with the bytes \<open>bs\<close> at \<open>a\<close>.\<close>

definition isa_loaded :: "isa \<Rightarrow> u32 \<Rightarrow> u8 list \<Rightarrow> isa" where
  "isa_loaded s a bs = s\<lparr>imem := (\<lambda>x. if unat a \<le> unat x \<and> unat x < unat a + length bs
     then Some (bs ! (unat x - unat a)) else imem s x)\<rparr>"

definition loaded :: "arm_core_data \<Rightarrow> u32 \<Rightarrow> u8 list \<Rightarrow> arm_core_data" where
  "loaded p a bs = p\<lparr>mem := (mem p)\<lparr>memo := take (unat a) (memo (mem p)) @ bs @
     drop (unat a + length bs) (memo (mem p))\<rparr>\<rparr>"

lemma isa_of_loaded:
  assumes "unat a + length bs \<le> length (memo (mem p))"
  shows "isa_of (loaded p a bs) = isa_loaded (isa_of p) a bs"
  using assms
  by (auto simp: isa_of_def isa_loaded_def loaded_def pc_word_def bytes_of_def fun_eq_iff
      nth_append min_def)

lemma wf_loaded:
  assumes "wf_core p" "unat a + length bs \<le> length (memo (mem p))"
  shows "wf_core (loaded p a bs)"
  using assms by (simp add: loaded_def wf_core_def wf_memory_def)

subsection \<open>The three requests\<close>

lemma dispatch_load:
  assumes "wf_core (arm g)" "unat a + length bs \<le> length (memo (mem (arm g)))"
    "unat a + length bs < 2 ^ 32" "unat a < unat (mem_size (mem (arm g)))"
  shows "dispatch g (load_request a bs) = Some (Done (reply (g\<lparr>arm := loaded (arm g) a bs\<rparr>) ''OK''))"
proof -
  have n: "length bs < 2 ^ 32" using assms(3) by linarith
  then have "unat (word_of_nat (length bs) :: u32) = length bs" by (simp add: unat_of_nat)
  then have "write_memory_binary g (tl (load_request a bs)) = Some (reply (g\<lparr>arm := loaded (arm g) a bs\<rparr>) ''OK'')"
    using load_request_parsed [OF n] assms unfolding loaded_def wf_core_def
    by (intro write_memory_binary_reply) auto
  then show ?thesis by (simp add: dispatch_def gdb_init_def load_request_def)
qed

lemma dispatch_continue:
  assumes "wf_core (arm g)" "stays isa_step isa_limits n (isa_of (arm g))"
    "run isa_step n (isa_of (arm g)) = Some t" "isa_at_breakpoint t" "target_exception g = 0"
  shows "\<exists>q. dispatch g ''c'' = Some (Done (reply (g\<lparr>arm := q\<rparr>) ''S05'')) \<and> isa_of q = t \<and> wf_core q"
  using cont_reply [OF assms, of "[]"] by (auto simp: dispatch_def gdb_init_def)

lemma memory_shown:
  assumes "out \<noteq> []" "unat b + length out < 2 ^ 32"
    and "\<forall>i < length out. bytes_of m (b + word_of_nat i) = Some (out ! i)"
  shows "unat b + length out \<le> length (memo m)" "take (length out) (drop (unat b) (memo m)) = out"
proof -
  have at: "unat (b + word_of_nat i) = unat b + i" if "i < length out" for i
    using that assms(2) by (simp add: unat_word_ariths unat_of_nat)
  have byte: "unat b + i < length (memo m) \<and> memo m ! (unat b + i) = out ! i" if "i < length out" for i
    using assms(3) at [OF that] that by (auto simp: bytes_of_def split: if_splits)
  from byte [of "length out - 1"] assms(1) show len: "unat b + length out \<le> length (memo m)"
    by (cases out) auto
  show "take (length out) (drop (unat b) (memo m)) = out"
    using len byte by (intro nth_equalityI) auto
qed

lemma dispatch_read:
  assumes "wf_core (arm g)" "out \<noteq> []" "unat b + length out < 2 ^ 32" "length out \<le> 509"
    and "\<forall>i < length out. imem (isa_of (arm g)) (b + word_of_nat i) = Some (out ! i)"
  shows "dispatch g (read_request b (length out)) = Some (Done (reply g (concat (map format_02x out))))"
proof -
  have n: "length out < 2 ^ 32" using assms(4) by simp
  then have u: "unat (word_of_nat (length out) :: u32) = length out" by (simp add: unat_of_nat)
  note shown = memory_shown [OF assms(2,3), of "mem (arm g)"]
  have "read_memory g (tl (read_request b (length out))) = Some (reply g (concat (map format_02x out)))"
    using read_memory_reply [of g "tl (read_request b (length out))" b "word_of_nat (length out)"]
      read_request_parsed [OF n] assms shown u by (simp add: wf_core_def)
  then show ?thesis by (simp add: dispatch_def gdb_init_def read_request_def)
qed

end
