(* ===== verification/Output.thy ===== *)
theory Output
  imports Scanner
begin

text \<open>
  What the simulator sends: acknowledgements, requests for retransmission, and frames whose
  payload holds neither end mark nor start mark, so that a peer with the same lexical rules
  reads back each of them, whatever the client has sent. A resend before the first answer is
  the empty string.
\<close>

subsection \<open>Answers\<close>

datatype sent_item = Plus | Minus | Nothing | Answer string

fun answer_text :: "sent_item \<Rightarrow> string" where
  "answer_text Plus = ''+''"
| "answer_text Minus = ''-''"
| "answer_text Nothing = ''''"
| "answer_text (Answer payload) = frame payload"

fun answer_tokens :: "sent_item \<Rightarrow> token list" where
  "answer_tokens Plus = [Ack]"
| "answer_tokens Minus = [Resend]"
| "answer_tokens Nothing = []"
| "answer_tokens (Answer payload) = [Frame (frame payload)]"

fun proper :: "sent_item \<Rightarrow> bool" where
  "proper (Answer payload) \<longleftrightarrow> length payload \<le> 1019 \<and> (\<forall>c \<in> set payload. in_frame c)"
| "proper _ \<longleftrightarrow> True"

definition is_answer :: "string \<Rightarrow> bool" where
  "is_answer s \<longleftrightarrow> (\<exists>a. proper a \<and> s = answer_text a)"

text \<open>A client's state in which everything sent so far, and the packet that may be sent again, is one.\<close>

definition answering :: "gdb_data \<Rightarrow> bool" where
  "answering g \<longleftrightarrow> is_answer (packet g) \<and> list_all is_answer (sent g)"

lemma is_answer_simple: "is_answer ''+''" "is_answer ''-''" "is_answer ''''"
  unfolding is_answer_def
  by (intro exI [of _ Plus] exI [of _ Minus] exI [of _ Nothing]; simp)+

lemma is_answer_frame: "length s \<le> 1019 \<Longrightarrow> \<forall>c \<in> set s. in_frame c \<Longrightarrow> is_answer (frame s)"
  unfolding is_answer_def by (intro exI [of _ "Answer s"]) simp

lemma answers_init: "answering (gdb_init_data p)"
  by (simp add: answering_def gdb_init_data_def is_answer_simple)

lemma answers_writes:
  "answering g \<Longrightarrow> answering (gdb_send_ack g)"
  "answering g \<Longrightarrow> answering (gdb_require_retransmission g)"
  "answering g \<Longrightarrow> answering (gdb_transmit_packet g)"
  by (simp_all add: answering_def gdb_send_ack_def gdb_require_retransmission_def
      gdb_transmit_packet_def Rio_writen_def is_answer_simple)

lemma answers_frame [simp]:
  "answering (g\<lparr>arm := p\<rparr>) = answering g" "answering (g\<lparr>shut := b\<rparr>) = answering g"
  "answering (g\<lparr>target_exception := e\<rparr>) = answering g"
  by (simp_all add: answering_def)

lemma answers_send [intro]:
  assumes "gdb_send_data g s = Some g'" "answering g" "\<forall>c \<in> set s. in_frame c"
  shows "answering g'"
proof -
  have "length s \<le> 1019 \<and> g' = g\<lparr>packet := frame s, sent := sent g @ [frame s]\<rparr>"
    using assms(1) gdb_send_data_frame [of s g] gdb_send_data_overflow [of s g]
    by (cases "length s \<le> 1019") auto
  with assms(2,3) show ?thesis by (simp add: answering_def is_answer_frame)
qed

lemma answers_send_buffer [intro]:
  assumes "gdb_send_buffer g s = Some g'" "answering g" "\<forall>c \<in> set s. in_frame c"
  shows "answering g'"
  using assms answers_send [of g s g'] by (simp add: gdb_send_data_def)

subsection \<open>The texts of the handlers\<close>

lemma hex_in_frame: "k < 16 \<Longrightarrow> in_frame (hex_lower k)"
  by (drule nibble_cases, elim insertE emptyE) (simp_all add: hex_lower_def in_frame_def)

lemma format_02x_in_frame: "\<forall>c \<in> set (format_02x b). in_frame c"
  by (simp add: format_02x_def hex_in_frame nibbles)

lemma write_uint32_in_frame: "\<forall>c \<in> set (write_uint32 be v). in_frame c"
  using format_02x_in_frame by (auto simp: write_uint32_def)

lemma hex_registers_in_frame: "hex_registers p ks = Some s \<Longrightarrow> \<forall>c \<in> set s. in_frame c"
proof (induction ks arbitrary: s)
  case (Cons k ks)
  then show ?case using write_uint32_in_frame by (auto simp: Option.bind_eq_Some_conv)
qed simp

lemma read_memory_in_frame: "read_memory_loop n p a x = Some s \<Longrightarrow> \<forall>c \<in> set s. in_frame c"
proof (induction n arbitrary: a x s)
  case (Suc n)
  then show ?case using format_02x_in_frame
    by (auto simp: Option.bind_eq_Some_conv split: if_splits)
qed simp

lemma cont_loop_sends_nothing:
  assumes "cont_loop g k = Some g'"
  shows "packet g' = packet g \<and> sent g' = sent g"
proof (rule cont_loop.raw_induct [where P = "\<lambda>g k g'. packet g' = packet g \<and> sent g' = sent g", OF _ assms])
  fix loop g k g'
  assume "\<And>g k g'. loop g k = Some g' \<Longrightarrow> packet g' = packet g \<and> sent g' = sent g"
    and "do { instruction \<leftarrow> next_instruction (arm g) k;
              if breakpoint instruction then Some g
              else do { gdb \<leftarrow> step_target g; loop gdb (Some instruction) } } = Some g'"
  then show "packet g' = packet g \<and> sent g' = sent g"
    by (fastforce simp: Option.bind_eq_Some_conv step_target_def split: if_splits)
qed

lemma stop_reason_answers:
  assumes "answering g" "gdb_send_stop_reason g = Some g'"
  shows "answering g'"
proof -
  from assms(2) obtain s where "gdb_send_data g s = Some g'" "s \<in> {''S04'', ''S10'', ''S05''}"
    by (auto simp: gdb_send_stop_reason_def split: if_splits)
  moreover from this(2) have "\<forall>c \<in> set s. in_frame c" by (auto simp: in_frame_def)
  ultimately show ?thesis using assms(1) by blast
qed

lemma cont_answers:
  assumes "answering g" "cont g data = Some g'"
  shows "answering g'"
proof -
  from assms(2) obtain h where h: "cont_loop g None = Some h" "gdb_send_stop_reason h = Some g'"
    by (auto simp: cont_def Option.bind_eq_Some_conv)
  with cont_loop_sends_nothing [OF h(1)] assms(1) have "answering h" by (simp add: answering_def)
  with h(2) show ?thesis by (auto intro: stop_reason_answers)
qed

lemma step_answers:
  assumes "answering g" "gdb_step g data = Some g'"
  shows "answering g'"
proof -
  from assms(2) obtain h where h: "step_target g = Some h" "gdb_send_stop_reason h = Some g'"
    by (auto simp: gdb_step_def Option.bind_eq_Some_conv)
  from h(1) have "packet h = packet g \<and> sent h = sent g"
    by (auto simp: step_target_def Option.bind_eq_Some_conv)
  with assms(1) have "answering h" by (simp add: answering_def)
  with h(2) show ?thesis by (auto intro: stop_reason_answers)
qed

lemma append_in_frame:
  "\<forall>c \<in> set s. in_frame c \<Longrightarrow> \<forall>c \<in> set t. in_frame c \<Longrightarrow> \<forall>c \<in> set (s @ t). in_frame c"
  by auto

definition filler :: string where
  "filler = concat (replicate (8 * 3) ''xxxxxxxx'') @ ''xxxxxxxx''"

lemma filler_in_frame: "\<forall>c \<in> set filler. in_frame c"
proof -
  have "in_frame (CHR ''x'')" by (simp add: in_frame_def)
  then show ?thesis by (auto simp: filler_def)
qed

lemma general_registers_answers:
  assumes "answering g" "read_general_registers g data = Some g'"
  shows "answering g'"
proof -
  from assms(2) obtain low v w where h: "hex_registers (arm g) [0..<15] = Some low"
    "gdb_send_buffer g (low @ write_uint32 BIG_ENDIAN_SIMULATOR v @ filler @
       write_uint32 BIG_ENDIAN_SIMULATOR w) = Some g'"
    unfolding read_general_registers_def filler_def append_assoc Option.bind_eq_Some_conv
    by (elim exE conjE)
  show ?thesis
    by (intro answers_send_buffer [OF h(2) assms(1)] append_in_frame hex_registers_in_frame [OF h(1)]
        write_uint32_in_frame filler_in_frame)
qed

lemma read_memory_answers:
  assumes "answering g" "read_memory g data = Some g'"
  shows "answering g'"
proof -
  from assms(2) obtain n a s where h: "read_memory_loop n (arm g) a None = Some s" "gdb_send_buffer g s = Some g'"
    by (auto simp: read_memory_def Option.bind_eq_Some_conv split: prod.splits)
  show ?thesis by (rule answers_send_buffer [OF h(2) assms(1) read_memory_in_frame [OF h(1)]])
qed

lemma read_register_answers:
  assumes "answering g" "gdb_read_register g data = Some (Done g')"
  shows "answering g'"
proof -
  from assms(2) obtain v where h: "gdb_send_buffer g (write_uint32 BIG_ENDIAN_SIMULATOR v) = Some g'"
    by (auto simp: gdb_read_register_def Option.bind_eq_Some_conv Let_def split: if_splits)
  show ?thesis by (rule answers_send_buffer [OF h assms(1) write_uint32_in_frame])
qed

text \<open>The fixed answers.\<close>

definition fixed_texts :: "string set" where
  "fixed_texts = {''OK'', ''E01'', ''E02'', [], ''Text=0;Data=0;Bss=0'', ''PacketSize=400'', ''T0;tnotrun:0''}"

lemma fixed_in_frame: "s \<in> fixed_texts \<Longrightarrow> \<forall>c \<in> set s. in_frame c"
  unfolding fixed_texts_def by (elim insertE emptyE) (simp_all add: in_frame_def)

lemma fixed_texts_members [simp]:
  "''OK'' \<in> fixed_texts" "''E01'' \<in> fixed_texts" "''E02'' \<in> fixed_texts" "[] \<in> fixed_texts"
  "''Text=0;Data=0;Bss=0'' \<in> fixed_texts" "''PacketSize=400'' \<in> fixed_texts" "''T0;tnotrun:0'' \<in> fixed_texts"
  by (simp_all add: fixed_texts_def)

lemma send_fixed:
  assumes "answering g" "s \<in> fixed_texts" "gdb_send_data (g\<lparr>arm := p\<rparr>) s = Some g'"
  shows "answering g'"
  using answers_send [OF assms(3)] assms(1) fixed_in_frame [OF assms(2)] by simp

lemma send_fixed_same:
  assumes "answering g" "gdb_send_data g s = Some g'" "s \<in> fixed_texts"
  shows "answering g'"
  using send_fixed [OF assms(1,3), of "arm g"] assms(2) by simp

lemma fixed_answers:
  assumes "answering g"
  shows "query g data = Some g' \<Longrightarrow> answering g'"
    and "set_thread g data = Some g' \<Longrightarrow> answering g'"
    and "write_general_registers g data = Some g' \<Longrightarrow> answering g'"
    and "write_memory_binary g data = Some g' \<Longrightarrow> answering g'"
    and "gdb_write_register g data = Some (Done g') \<Longrightarrow> answering g'"
proof -
  assume "query g data = Some g'"
  then show "answering g'"
    unfolding query_def by (simp split: if_splits) (erule send_fixed_same [OF assms], simp)+
next
  assume "set_thread g data = Some g'"
  then show "answering g'"
    unfolding set_thread_def Let_def by (simp split: if_splits list.splits) (erule send_fixed_same [OF assms], simp)+
next
  assume "write_general_registers g data = Some g'"
  then obtain p where "gdb_send_data (g\<lparr>arm := p\<rparr>) ''OK'' = Some g'"
    unfolding write_general_registers_def Option.bind_eq_Some_conv by blast
  then show "answering g'" by (rule send_fixed [OF assms fixed_texts_members(1)])
next
  assume "write_memory_binary g data = Some g'"
  then obtain p ok where "gdb_send_data (g\<lparr>arm := p\<rparr>) (if ok then ''OK'' else ''E02'') = Some g'"
    by (auto simp: write_memory_binary_def Let_def Option.bind_eq_Some_conv split: prod.splits)
  moreover have "(if ok then ''OK'' else ''E02'') \<in> fixed_texts" by simp
  ultimately show "answering g'" using send_fixed [OF assms] by blast
next
  assume "gdb_write_register g data = Some (Done g')"
  then obtain p where "gdb_send_data (g\<lparr>arm := p\<rparr>) ''OK'' = Some g'"
    by (auto simp: gdb_write_register_def Option.bind_eq_Some_conv split: if_splits)
  then show "answering g'" by (rule send_fixed [OF assms fixed_texts_members(1)])
qed

lemma run_handler_answers:
  assumes "answering g" "run_handler h g data = Some (Done g')"
  shows "answering g'"
proof -
  have "cont g data = Some g' \<or> kill_request g data = Some g' \<or> query g data = Some g' \<or>
    read_general_registers g data = Some g' \<or> read_memory g data = Some g' \<or>
    gdb_read_register g data = Some (Done g') \<or> reason g data = Some g' \<or> set_thread g data = Some g' \<or>
    gdb_step g data = Some g' \<or> write_general_registers g data = Some g' \<or>
    write_memory_binary g data = Some g' \<or> gdb_write_register g data = Some (Done g')"
    using assms(2) by (cases h) (simp only: run_handler.simps map_option_eq_Some gdb_result.inject; blast)+
  moreover have reason: "reason g data = Some g' \<Longrightarrow> answering g'"
    using stop_reason_answers [OF assms(1)] by (simp add: reason_def)
  moreover have kill: "kill_request g data = Some g' \<Longrightarrow> answering g'"
    using assms(1) by (auto simp: kill_request_def)
  ultimately show ?thesis
    by (elim disjE) (erule cont_answers [OF assms(1)] step_answers [OF assms(1)] general_registers_answers [OF assms(1)]
      read_memory_answers [OF assms(1)] read_register_answers [OF assms(1)]
      fixed_answers [OF assms(1)] reason kill)+
qed

subsection \<open>The scanner\<close>

lemma handle_error_answers:
  "answering (gdb d) \<Longrightarrow> handle_error d = Some d' \<Longrightarrow> answering (gdb d')"
  by (auto simp: handle_error_def answers_writes split: if_splits)

lemma analysis_answers:
  assumes "answering g" "gdb_packet_analysis g s = Some (Done g')"
  shows "answering g'"
proof -
  have "answering g'" if "map_option Done (gdb_send_data h []) = Some (Done g')" "answering h" for h
    using that answers_send [of h "[]" g'] by auto
  with assms answers_writes [OF assms(1)] show ?thesis
    by (auto simp: gdb_packet_analysis_def Let_def Option.bind_eq_Some_conv
        split: if_splits list.splits option.splits intro: run_handler_answers)
qed

lemma token_action_answers:
  assumes "answering (gdb d)" "token_action d t = Some (Scanned d')"
  shows "answering (gdb d')"
proof (cases t)
  case (Frame s)
  with assms(2) obtain e r where e: "handle_error d = Some e" "gdb_packet_analysis (gdb e) s = Some r"
    "(case r of Done g \<Rightarrow> Scanned (e\<lparr>gdb := g\<rparr>) | Aborts \<Rightarrow> Scan_aborts) = Scanned d'"
    by (auto simp: Option.bind_eq_Some_conv)
  then obtain g where "r = Done g" "gdb d' = g" by (cases r) auto
  with e have "handle_error d = Some e" "gdb_packet_analysis (gdb e) s = Some (Done g)" "gdb d' = g" by simp_all
  with assms(1) show ?thesis by (blast intro: handle_error_answers analysis_answers)
next
  case Resend
  with assms show ?thesis
    by (auto simp: Option.bind_eq_Some_conv answers_writes dest: handle_error_answers)
next
  case (Junk c)
  with assms show ?thesis
    by (auto simp: add_character_to_error_def Option.bind_eq_Some_conv split: if_splits
        dest: handle_error_answers)
qed (use assms in \<open>auto dest: handle_error_answers\<close>)

lemma yylex_answers: "answering (gdb d) \<Longrightarrow> yylex d s = Some (Scanned d') \<Longrightarrow> answering (gdb d')"
proof (induction d s rule: yylex.induct)
  case (1 d s)
  show ?case
  proof (cases "next_token s")
    case None
    with 1 show ?thesis by (auto simp: yylex.simps [of d s] dest: handle_error_answers)
  next
    case (Some r)
    then obtain t rest where n: "next_token s = Some (t, rest)" by (cases r) simp
    with "1.prems"(2) obtain e where e: "token_action d t = Some (Scanned e)" "yylex e rest = Some (Scanned d')"
      by (auto simp: yylex.simps [of d s] split: Option.bind_splits scan_result.splits)
    from "1.IH" [OF n refl e(1) refl] token_action_answers [OF "1.prems"(1) e(1)] e(2) show ?thesis by blast
  qed
qed

subsection \<open>The peer's view\<close>

lemma tokens_sign:
  "tokens (CHR ''+'' # s) = Ack # tokens s" "tokens (CHR ''-'' # s) = Resend # tokens s"
  by (intro tokens_next; simp add: next_token_def match_frame.simps)+

lemma tokens_answers:
  "list_all proper xs \<Longrightarrow> tokens (concat (map answer_text xs)) = concat (map answer_tokens xs)"
proof (induction xs)
  case (Cons a xs)
  then show ?case by (cases a) (simp_all add: tokens_sign tokens_frame)
qed simp

lemma answer_list:
  assumes "list_all is_answer ss"
  shows "\<exists>xs. list_all proper xs \<and> ss = map answer_text xs"
  using assms
proof (induction ss)
  case (Cons s ss)
  then obtain a xs where "proper a" "s = answer_text a" "list_all proper xs" "ss = map answer_text xs"
    by (auto simp: is_answer_def)
  then show ?case by (intro exI [of _ "a # xs"]) simp
qed simp

end
