(* ===== verification/Trace.thy ===== *)
theory Trace
  imports ArmCore Cformat
begin

text \<open>
  \<open>trace.c\<close>, with the traced accessors and \<open>arm_print_state\<close> of \<open>arm_core.c\<close> and the location
  macros of \<open>trace_location.h\<close>: the text the trace options produce, in the default format
  (\<open>ARM_TRACE_FORMAT\<close> not defined), and the stack of source locations the macros push around
  every access; and the lines of the other format (\<open>ARM_TRACE_FORMAT\<close>). \<open>None\<close> is an access
  outside a table or outside the stack. The instructions of \<open>arm_step\<close> are modelled without these
  traces; here each access is followed by itself.
\<close>

definition CPSR_REGISTER :: u8 where "CPSR_REGISTER = 16"
definition SPSR_REGISTER :: u8 where "SPSR_REGISTER = 17"
definition OTHER_ACCESS :: nat where "OTHER_ACCESS = 0"
definition OPCODE_FETCH :: nat where "OPCODE_FETCH = 1"
definition WRITE :: nat where "WRITE = 0"
definition READ :: nat where "READ = 1"
definition MEMORY :: u32 where "MEMORY = 1"
definition REGISTERS :: u32 where "REGISTERS = 2"
definition STATE :: u32 where "STATE = 4"
definition POSITION :: u32 where "POSITION = 8"

record trace_data =
  out_file :: "string option"
  trace_output :: string
  last_address :: u32
  enabled :: bool
  location_file_stack :: "string list"
  location_line_stack :: "int list"
  location_stack_top :: int
  trace_flags :: u32

text \<open>
  \<open>out_file\<close> (\<open>output\<close>) is the file the text goes to, \<open>None\<close> the null pointer it is before \<open>set_trace_file\<close>.
  The static initialisers follow; a null file name in the stack is never printed
  and is kept as the empty one.
\<close>

definition trace_initial :: trace_data where
  "trace_initial =
     \<lparr>out_file = None, trace_output = '''', last_address = 0x12345678, enabled = True,
      location_file_stack = replicate 128 '''', location_line_stack = replicate 128 0,
      location_stack_top = - 1, trace_flags = 0\<rparr>"

subsection \<open>Options and locations\<close>

definition set_trace_file :: "trace_data \<Rightarrow> string \<Rightarrow> trace_data" where
  "set_trace_file t f = t\<lparr>out_file := Some f\<rparr>"

definition print_output :: "trace_data \<Rightarrow> string \<Rightarrow> trace_data option" where
  "print_output t s =
     (if out_file t = None then None else Some (t\<lparr>trace_output := trace_output t @ s\<rparr>))"

definition trace_disable :: "trace_data \<Rightarrow> trace_data" where
  "trace_disable t = t\<lparr>enabled := False\<rparr>"

definition trace_enable :: "trace_data \<Rightarrow> trace_data" where
  "trace_enable t = t\<lparr>enabled := True\<rparr>"

definition trace_add :: "trace_data \<Rightarrow> u32 \<Rightarrow> trace_data" where
  "trace_add t flags = t\<lparr>trace_flags := trace_flags t OR flags\<rparr>"

definition trace_start_location :: "trace_data \<Rightarrow> string \<Rightarrow> int \<Rightarrow> trace_data option" where
  "trace_start_location t file line =
     (if enabled t
      then (let top = location_stack_top t + 1 in
        if 0 \<le> top \<and> nat top < length (location_file_stack t) \<and> nat top < length (location_line_stack t)
        then Some (t\<lparr>location_stack_top := top,
                     location_file_stack := (location_file_stack t)[nat top := file],
                     location_line_stack := (location_line_stack t)[nat top := line]\<rparr>)
        else None)
      else Some t)"

definition trace_end_location :: "trace_data \<Rightarrow> trace_data" where
  "trace_end_location t =
     (if enabled t then t\<lparr>location_stack_top := location_stack_top t - 1\<rparr> else t)"

text \<open>
  The macros: a location is pushed, the access made, the location popped. C leaves the order of
  the last two open, as they are operands of one sum; the host's compiler takes them as written.
\<close>

definition at_location ::
  "string \<Rightarrow> int \<Rightarrow> (trace_data \<Rightarrow> ('a \<times> trace_data) option) \<Rightarrow> trace_data \<Rightarrow> ('a \<times> trace_data) option"
  where
  "at_location file line access t =
     do {
       t \<leftarrow> trace_start_location t file line;
       (r, t) \<leftarrow> access t;
       Some (r, trace_end_location t)
     }"

subsection \<open>Traces of accesses\<close>

definition trace_memory_seq :: "string list" where "trace_memory_seq = ['''', '''']"
definition trace_memory_cause :: "string list" where "trace_memory_cause = ['''', '', fetch'']"
definition trace_memory_type :: "string list" where "trace_memory_type = [''write'', ''read'']"
definition trace_register_type :: "string list" where "trace_register_type = [''write'', ''read'']"

definition at_index :: "'a list \<Rightarrow> nat \<Rightarrow> 'a option" where
  "at_index xs i = (if i < length xs then Some (xs ! i) else None)"

definition trace_print_location :: "trace_data \<Rightarrow> trace_data option" where
  "trace_print_location t =
     (if enabled t \<and> trace_flags t AND POSITION \<noteq> 0 \<and> location_stack_top t \<ge> 0
      then do {
        file \<leftarrow> at_index (location_file_stack t) (nat (location_stack_top t));
        line \<leftarrow> at_index (location_line_stack t) (nat (location_stack_top t));
        print_output t (file @ '', '' @ format_d line @ '': '')
      }
      else Some t)"

definition newline :: string where "newline = [CHR 0x0A]"

definition trace_memory ::
  "trace_data \<Rightarrow> u32 \<Rightarrow> nat \<Rightarrow> u8 \<Rightarrow> nat \<Rightarrow> u32 \<Rightarrow> u32 \<Rightarrow> trace_data option" where
  "trace_memory t cycle type n cause address v =
     (if enabled t \<and> trace_flags t AND MEMORY \<noteq> 0
      then do {
        let seq = (if address = last_address t + 4 then 1 else 0);
        let t = t\<lparr>last_address := address\<rparr>;
        t \<leftarrow> trace_print_location t;
        s \<leftarrow> at_index trace_memory_seq seq;
        ty \<leftarrow> at_index trace_memory_type type;
        ca \<leftarrow> at_index trace_memory_cause cause;
        print_output t (''Cycle '' @ format_d (sint cycle) @ '', Mem '' @ s @ ty @ '' ('' @
          format_d (uint n) @ '' bytes'' @ ca @ '') addr: '' @ format_08X address @ '', val: '' @
          format_08X v @ newline)
      }
      else Some t)"

definition trace_register ::
  "trace_data \<Rightarrow> u32 \<Rightarrow> nat \<Rightarrow> u8 \<Rightarrow> u8 \<Rightarrow> u32 \<Rightarrow> trace_data option" where
  "trace_register t cycle type register mode v =
     (if enabled t \<and> trace_flags t AND REGISTERS \<noteq> 0
      then do {
        mode_entry \<leftarrow> arm_get_mode_name mode;
        let mode_name = (case mode_entry of None \<Rightarrow> '''' | Some m \<Rightarrow> ''_'' @ m);
        t \<leftarrow> trace_print_location t;
        ty \<leftarrow> at_index trace_register_type type;
        name \<leftarrow> arm_get_register_name register;
        print_output t (''Cycle '' @ format_d (sint cycle) @ '', Register '' @ ty @ '', '' @
          name @ mode_name @ '', val: '' @ format_08X v @ newline)
      }
      else Some t)"

text \<open>The lines with \<open>ARM_TRACE_FORMAT\<close> defined: other tables, and no location.\<close>

definition arm_format_memory_seq :: "string list" where "arm_format_memory_seq = [''N'', ''S'']"
definition arm_format_memory_cause :: "string list" where "arm_format_memory_cause = [''_'', ''O'']"
definition arm_format_type :: "string list" where "arm_format_type = [''W'', ''R'']"

definition arm_format_trace_memory ::
  "trace_data \<Rightarrow> u32 \<Rightarrow> nat \<Rightarrow> u8 \<Rightarrow> nat \<Rightarrow> u32 \<Rightarrow> u32 \<Rightarrow> trace_data option" where
  "arm_format_trace_memory t cycle type n cause address v =
     (if enabled t \<and> trace_flags t AND MEMORY \<noteq> 0
      then do {
        let seq = (if address = last_address t + 4 then 1 else 0);
        let t = t\<lparr>last_address := address\<rparr>;
        s \<leftarrow> at_index arm_format_memory_seq seq;
        ty \<leftarrow> at_index arm_format_type type;
        ca \<leftarrow> at_index arm_format_memory_cause cause;
        print_output t (''M'' @ s @ ty @ format_d (uint n) @ ca @ ''__ '' @
          format_08X address @ '' '' @ format_08X v @ newline)
      }
      else Some t)"

definition arm_format_trace_register ::
  "trace_data \<Rightarrow> u32 \<Rightarrow> nat \<Rightarrow> u8 \<Rightarrow> u8 \<Rightarrow> u32 \<Rightarrow> trace_data option" where
  "arm_format_trace_register t cycle type register mode v =
     (if enabled t \<and> trace_flags t AND REGISTERS \<noteq> 0
      then do {
        mode_entry \<leftarrow> arm_get_mode_name mode;
        let mode_name = (case mode_entry of None \<Rightarrow> '''' | Some m \<Rightarrow> ''_'' @ m);
        ty \<leftarrow> at_index arm_format_type type;
        name \<leftarrow> arm_get_register_name register;
        print_output t (''R'' @ ty @ '' '' @ name @ mode_name @ '' '' @
          format_08X v @ newline)
      }
      else Some t)"

text \<open>The two formats differ in the output only: both fail together, and keep the same state.\<close>

definition silent :: "trace_data \<Rightarrow> trace_data" where
  "silent t = t\<lparr>trace_output := ''''\<rparr>"

lemma formats_agree:
  assumes "trace_flags t AND POSITION = 0"
  shows "map_option silent (arm_format_trace_memory t c ty n ca a v) = map_option silent (trace_memory t c ty n ca a v)"
    and "map_option silent (arm_format_trace_register t c ty r m v) = map_option silent (trace_register t c ty r m v)"
  using assms
  by (auto simp: arm_format_trace_memory_def trace_memory_def arm_format_trace_register_def trace_register_def
      trace_print_location_def print_output_def silent_def at_index_def arm_format_memory_seq_def trace_memory_seq_def
      arm_format_type_def trace_memory_type_def arm_format_memory_cause_def trace_memory_cause_def
      trace_register_type_def Let_def split: Option.bind_splits option.splits)

subsection \<open>Traced accesses\<close>

text \<open>
  The accessors of \<open>arm_core.c\<close> with the call to the trace that ends each. The core's own part
  is the accessor of the theory \<open>ArmCore\<close>.
\<close>

definition traced_read_register ::
  "arm_core_data \<Rightarrow> u8 \<Rightarrow> trace_data \<Rightarrow> (u32 \<times> trace_data) option" where
  "traced_read_register p r t =
     do {
       v \<leftarrow> arm_read_register p r;
       t \<leftarrow> trace_register t (cycle_count p) READ r (get_mode (reg p)) v;
       Some (v, t)
     }"

definition traced_read_usr_register ::
  "arm_core_data \<Rightarrow> u8 \<Rightarrow> trace_data \<Rightarrow> (u32 \<times> trace_data) option" where
  "traced_read_usr_register p r t =
     do {
       v \<leftarrow> arm_read_usr_register p r;
       t \<leftarrow> trace_register t (cycle_count p) READ r USR v;
       Some (v, t)
     }"

definition traced_write_usr_register ::
  "arm_core_data \<Rightarrow> u8 \<Rightarrow> u32 \<Rightarrow> trace_data \<Rightarrow> (arm_core_data \<times> trace_data) option" where
  "traced_write_usr_register p r v t =
     do {
       q \<leftarrow> arm_write_usr_register p r v;
       t \<leftarrow> trace_register t (cycle_count q) WRITE r USR v;
       Some (q, t)
     }"

definition traced_write_word ::
  "arm_core_data \<Rightarrow> u32 \<Rightarrow> u32 \<Rightarrow> trace_data \<Rightarrow> ((int \<times> arm_core_data) \<times> trace_data) option" where
  "traced_write_word p address v t =
     do {
       (result, q) \<leftarrow> arm_write_word p address v;
       t \<leftarrow> trace_memory t (cycle_count q) WRITE 4 OTHER_ACCESS address v;
       Some ((result, q), t)
     }"

definition traced_read_cpsr :: "arm_core_data \<Rightarrow> trace_data \<Rightarrow> (u32 \<times> trace_data) option" where
  "traced_read_cpsr p t =
     do {
       let v = arm_read_cpsr p;
       t \<leftarrow> trace_register t (cycle_count p) READ CPSR_REGISTER 0 v;
       Some (v, t)
     }"

definition traced_read_spsr :: "arm_core_data \<Rightarrow> trace_data \<Rightarrow> (u32 \<times> trace_data) option" where
  "traced_read_spsr p t =
     do {
       let v = arm_read_spsr p;
       t \<leftarrow> trace_register t (cycle_count p) READ SPSR_REGISTER (get_mode (reg p)) v;
       Some (v, t)
     }"

definition traced_write_register ::
  "arm_core_data \<Rightarrow> u8 \<Rightarrow> u32 \<Rightarrow> trace_data \<Rightarrow> (arm_core_data \<times> trace_data) option" where
  "traced_write_register p r v t =
     do {
       q \<leftarrow> arm_write_register p r v;
       t \<leftarrow> trace_register t (cycle_count q) WRITE r (get_mode (reg q)) v;
       Some (q, t)
     }"

definition traced_write_cpsr ::
  "arm_core_data \<Rightarrow> u32 \<Rightarrow> trace_data \<Rightarrow> (arm_core_data \<times> trace_data) option" where
  "traced_write_cpsr p v t =
     do {
       let q = arm_write_cpsr p v;
       t \<leftarrow> trace_register t (cycle_count q) WRITE CPSR_REGISTER 0 v;
       Some (q, t)
     }"

definition traced_write_spsr ::
  "arm_core_data \<Rightarrow> u32 \<Rightarrow> trace_data \<Rightarrow> (arm_core_data \<times> trace_data) option" where
  "traced_write_spsr p v t =
     do {
       let q = arm_write_spsr p v;
       t \<leftarrow> trace_register t (cycle_count q) WRITE SPSR_REGISTER (get_mode (reg q)) v;
       Some (q, t)
     }"

text \<open>
  A read passes the content of the caller's variable to the trace, whether the read succeeded
  or not; an indeterminate one matters only when it is printed.
\<close>

definition trace_content ::
  "trace_data \<Rightarrow> u32 \<Rightarrow> u8 \<Rightarrow> nat \<Rightarrow> u32 \<Rightarrow> u32 option \<Rightarrow> trace_data option" where
  "trace_content t cycle n cause address content =
     (if enabled t \<and> trace_flags t AND MEMORY \<noteq> 0
      then do { v \<leftarrow> content; trace_memory t cycle READ n cause address v }
      else Some t)"

definition traced_read_byte ::
  "arm_core_data \<Rightarrow> u32 \<Rightarrow> u8 option \<Rightarrow> trace_data \<Rightarrow> ((int \<times> u8 option) \<times> trace_data) option" where
  "traced_read_byte p address value t =
     do {
       (result, value) \<leftarrow> arm_read_byte p address value;
       t \<leftarrow> trace_content t (cycle_count p) 1 OTHER_ACCESS address (map_option ucast value);
       Some ((result, value), t)
     }"

definition traced_read_half ::
  "arm_core_data \<Rightarrow> u32 \<Rightarrow> u16 option \<Rightarrow> trace_data \<Rightarrow> ((int \<times> u16 option) \<times> trace_data) option" where
  "traced_read_half p address value t =
     do {
       (result, value) \<leftarrow> arm_read_half p address value;
       t \<leftarrow> trace_content t (cycle_count p) 2 OTHER_ACCESS address (map_option ucast value);
       Some ((result, value), t)
     }"

definition traced_read_word ::
  "arm_core_data \<Rightarrow> u32 \<Rightarrow> u32 option \<Rightarrow> trace_data \<Rightarrow> ((int \<times> u32 option) \<times> trace_data) option" where
  "traced_read_word p address value t =
     do {
       (result, value) \<leftarrow> arm_read_word p address value;
       t \<leftarrow> trace_content t (cycle_count p) 4 OTHER_ACCESS address value;
       Some ((result, value), t)
     }"

definition traced_write_byte ::
  "arm_core_data \<Rightarrow> u32 \<Rightarrow> u8 \<Rightarrow> trace_data \<Rightarrow> ((int \<times> arm_core_data) \<times> trace_data) option" where
  "traced_write_byte p address v t =
     do {
       (result, q) \<leftarrow> arm_write_byte p address v;
       t \<leftarrow> trace_memory t (cycle_count q) WRITE 1 OTHER_ACCESS address (ucast v);
       Some ((result, q), t)
     }"

definition traced_write_half ::
  "arm_core_data \<Rightarrow> u32 \<Rightarrow> u16 \<Rightarrow> trace_data \<Rightarrow> ((int \<times> arm_core_data) \<times> trace_data) option" where
  "traced_write_half p address v t =
     do {
       (result, q) \<leftarrow> arm_write_half p address v;
       t \<leftarrow> trace_memory t (cycle_count q) WRITE 2 OTHER_ACCESS address (ucast v);
       Some ((result, q), t)
     }"

text \<open>The fetch reads and writes the program counter through the traced accessors.\<close>

definition traced_fetch ::
  "arm_core_data \<Rightarrow> u32 option \<Rightarrow> trace_data \<Rightarrow> ((int \<times> u32 option \<times> arm_core_data) \<times> trace_data) option"
  where
  "traced_fetch p value t =
     do {
       let p = p\<lparr>cycle_count := cycle_count p + 1\<rparr>;
       (r15, t) \<leftarrow> traced_read_register p 15 t;
       let address = r15 - 4;
       (result, value) \<leftarrow> memory_read_word (mem p) address value;
       t \<leftarrow> trace_content t (cycle_count p) 4 OPCODE_FETCH address value;
       (p, t) \<leftarrow> traced_write_register p 15 (address + 4) t;
       Some ((result, value, p), t)
     }"

subsection \<open>The state of the core as text\<close>

definition format_3s :: "string \<Rightarrow> string" where
  "format_3s s = replicate (3 - length s) (CHR '' '') @ s"

text \<open>
  \<open>arm_print_state\<close>, called by \<open>trace_arm_state\<close> only, with the file of the traces as \<open>out\<close>. It
  reads the core through the traced accessors, whose lines, when registers are traced too, go
  to the same file before the text that shows the value. The inner loop prints five registers
  on a line (the counters \<open>reg\<close> and \<open>count\<close> have the same value at the test).
\<close>

fun print_registers :: "arm_core_data \<Rightarrow> bool \<Rightarrow> nat list \<Rightarrow> trace_data \<Rightarrow> trace_data option" where
  "print_registers p usr [] t = Some t"
| "print_registers p usr (r # rs) t =
     do {
       t \<leftarrow> (if r > 0 \<and> r mod 5 = 0 then print_output t (newline @ ''    '') else Some t);
       name \<leftarrow> arm_get_register_name (of_nat r);
       (v, t) \<leftarrow> (if usr then traced_read_usr_register p (of_nat r) t
                 else traced_read_register p (of_nat r) t);
       t \<leftarrow> print_output t (''   '' @ format_3s name @ ''='' @ format_08X v);
       print_registers p usr rs t
     }"

definition print_mode :: "arm_core_data \<Rightarrow> u8 \<Rightarrow> trace_data \<Rightarrow> trace_data option" where
  "print_mode p mode t =
     do {
       entry \<leftarrow> arm_get_mode_name mode;
       case entry of
         None \<Rightarrow> Some t
       | Some name \<Rightarrow> do {
           t \<leftarrow> (if mode \<noteq> SYS then print_output t (name @ '':'') else Some t);
           t \<leftarrow> print_registers p (mode = USR) [0..<16] t;
           t \<leftarrow> (if mode = USR
                then do { (v, t) \<leftarrow> traced_read_cpsr p t; print_output t (''  CPSR='' @ format_08X v) }
                else Some t);
           if mode = USR \<or> mode = FIQ \<or> mode = SVC \<or> mode = UND then print_output t newline
           else if mode = IRQ \<or> mode = ABT then print_output t ''          ''
           else Some t
         }
     }"

fun print_modes :: "arm_core_data \<Rightarrow> nat list \<Rightarrow> trace_data \<Rightarrow> trace_data option" where
  "print_modes p [] t = Some t"
| "print_modes p (m # ms) t = do { t \<leftarrow> print_mode p (of_nat m) t; print_modes p ms t }"

definition arm_print_state :: "arm_core_data \<Rightarrow> trace_data \<Rightarrow> trace_data option" where
  "arm_print_state p t = print_modes p [0..<32] t"

definition trace_arm_state :: "trace_data \<Rightarrow> arm_core_data \<Rightarrow> trace_data option" where
  "trace_arm_state t p =
     (if enabled t \<and> trace_flags t AND STATE \<noteq> 0 then arm_print_state p t else Some t)"

subsection \<open>The location stack\<close>

definition wf_trace :: "trace_data \<Rightarrow> bool" where
  "wf_trace t \<longleftrightarrow> length (location_file_stack t) = 128 \<and> length (location_line_stack t) = 128 \<and>
     - 1 \<le> location_stack_top t \<and> location_stack_top t < 128"

lemma wf_trace_initial: "wf_trace trace_initial"
  by (simp add: wf_trace_def trace_initial_def)

text \<open>An access that leaves the stack as it found it does so under the macros.\<close>

lemma at_location_balanced:
  assumes wf: "wf_trace t" and room: "location_stack_top t < 127"
    and ok: "\<And>t1. wf_trace t1 \<Longrightarrow> \<exists>r t2. access t1 = Some (r, t2) \<and> wf_trace t2 \<and>
      enabled t2 = enabled t1 \<and> location_stack_top t2 = location_stack_top t1"
  shows "\<exists>r t'. at_location file line access t = Some (r, t') \<and> wf_trace t' \<and>
    location_stack_top t' = location_stack_top t \<and> enabled t' = enabled t"
proof (cases "enabled t")
  case True
  let ?top = "location_stack_top t + 1"
  let ?t1 = "t\<lparr>location_stack_top := ?top,
      location_file_stack := (location_file_stack t)[nat ?top := file],
      location_line_stack := (location_line_stack t)[nat ?top := line]\<rparr>"
  have st: "trace_start_location t file line = Some ?t1"
    using wf room True by (auto simp: trace_start_location_def wf_trace_def Let_def nat_less_iff)
  have "wf_trace ?t1" using wf room by (auto simp: wf_trace_def)
  from ok [OF this] True wf st show ?thesis
    by (fastforce simp: at_location_def trace_end_location_def wf_trace_def)
next
  case False
  with ok [OF wf] show ?thesis
    by (auto simp: at_location_def trace_start_location_def trace_end_location_def wf_trace_def)
qed

lemma print_location_keeps:
  assumes "wf_trace t" "out_file t \<noteq> None"
  shows "\<exists>s. trace_print_location t = Some (t\<lparr>trace_output := trace_output t @ s\<rparr>)"
proof (cases "enabled t \<and> trace_flags t AND POSITION \<noteq> 0 \<and> location_stack_top t \<ge> 0")
  case True
  with assms show ?thesis
    by (auto simp: trace_print_location_def print_output_def at_index_def wf_trace_def nat_less_iff)
next
  case False
  then have "trace_print_location t = Some (t\<lparr>trace_output := trace_output t @ []\<rparr>)"
    by (auto simp: trace_print_location_def)
  then show ?thesis by blast
qed

subsection \<open>What is traced\<close>

text \<open>
  The lines of the default format, written out: the position, when it is asked for and a location
  is known; the access, with the names of the registers; the value. \<open>logs_register\<close> and
  \<open>logs_memory\<close> are what one access does to the trace.
\<close>

definition position_text :: "trace_data \<Rightarrow> string" where
  "position_text t =
     (if trace_flags t AND POSITION \<noteq> 0 \<and> 0 \<le> location_stack_top t
      then location_file_stack t ! nat (location_stack_top t) @ '', '' @
        format_d (location_line_stack t ! nat (location_stack_top t)) @ '': ''
      else '''')"

definition register_line :: "trace_data \<Rightarrow> arm_core_data \<Rightarrow> string \<Rightarrow> string \<Rightarrow> u32 \<Rightarrow> string" where
  "register_line t p access name v =
     position_text t @ ''Cycle '' @ format_d (sint (cycle_count p)) @ '', Register '' @ access @
     '', '' @ name @ '', val: '' @ format_08X v @ [CHR 0x0A]"

definition memory_line :: "trace_data \<Rightarrow> arm_core_data \<Rightarrow> string \<Rightarrow> u32 \<Rightarrow> u32 \<Rightarrow> string" where
  "memory_line t p access a v =
     position_text t @ ''Cycle '' @ format_d (sint (cycle_count p)) @ '', Mem '' @ access @
     '') addr: '' @ format_08X a @ '', val: '' @ format_08X v @ [CHR 0x0A]"

definition logs_register ::
  "arm_core_data \<Rightarrow> string \<Rightarrow> string \<Rightarrow> u32 \<Rightarrow> trace_data \<Rightarrow> trace_data" where
  "logs_register p access name v t =
     (if enabled t \<and> trace_flags t AND REGISTERS \<noteq> 0
      then t\<lparr>trace_output := trace_output t @ register_line t p access name v\<rparr> else t)"

definition logs_memory ::
  "arm_core_data \<Rightarrow> string \<Rightarrow> u32 \<Rightarrow> u32 \<Rightarrow> trace_data \<Rightarrow> trace_data" where
  "logs_memory p access a v t =
     (if enabled t \<and> trace_flags t AND MEMORY \<noteq> 0
      then t\<lparr>last_address := a, trace_output := trace_output t @ memory_line t p access a v\<rparr>
      else t)"

definition general_name :: "u8 \<Rightarrow> string" where
  "general_name r =
     [''R00'', ''R01'', ''R02'', ''R03'', ''R04'', ''R05'', ''R06'', ''R07'', ''R08'', ''R09'',
      ''R10'', ''R11'', ''R12'', ''SP'', ''LR'', ''PC''] ! unat r"

text \<open>The trace can be written to: there is a file, and the stack is as its operations keep it.\<close>

definition printable :: "trace_data \<Rightarrow> bool" where
  "printable t \<longleftrightarrow> wf_trace t \<and> out_file t \<noteq> None"

lemma logs_printable [simp]:
  "printable t \<Longrightarrow> printable (logs_register p s n v t)"
  "printable t \<Longrightarrow> printable (logs_memory p s a v t)"
  by (auto simp: printable_def wf_trace_def logs_register_def logs_memory_def)

lemma print_output_printable [simp]:
  "printable t \<Longrightarrow> print_output t s = Some (t\<lparr>trace_output := trace_output t @ s\<rparr>)"
  by (simp add: print_output_def printable_def)

lemma printable_update [simp]:
  "printable (t\<lparr>trace_output := s\<rparr>) = printable t"
  "printable (t\<lparr>last_address := a\<rparr>) = printable t"
  by (simp_all add: printable_def wf_trace_def)

lemma position_text_update [simp]:
  "position_text (t\<lparr>trace_output := s\<rparr>) = position_text t"
  "position_text (t\<lparr>last_address := a\<rparr>) = position_text t"
  by (simp_all add: position_text_def)

lemma trace_print_location_text:
  "printable t \<Longrightarrow> enabled t \<Longrightarrow>
     trace_print_location t = Some (t\<lparr>trace_output := trace_output t @ position_text t\<rparr>)"
  by (auto simp: trace_print_location_def position_text_def at_index_def printable_def wf_trace_def
      nat_less_iff print_output_def)

lemma memory_traced:
  assumes "printable t"
  shows "trace_memory t (cycle_count p) WRITE n OTHER_ACCESS a v =
      Some (logs_memory p (''write ('' @ format_d (uint n) @ '' bytes'') a v t)"
    "trace_content t (cycle_count p) n OTHER_ACCESS a (Some v) =
      Some (logs_memory p (''read ('' @ format_d (uint n) @ '' bytes'') a v t)"
    "trace_content t (cycle_count p) n OPCODE_FETCH a (Some v) =
      Some (logs_memory p (''read ('' @ format_d (uint n) @ '' bytes, fetch'') a v t)"
  using assms
  by (auto simp: trace_content_def trace_memory_def logs_memory_def memory_line_def Let_def
      trace_print_location_text at_index_def trace_memory_seq_def trace_memory_type_def
      trace_memory_cause_def WRITE_def READ_def OTHER_ACCESS_def OPCODE_FETCH_def newline_def)

lemma register_name_general: "unat r < 16 \<Longrightarrow> arm_get_register_name r = Some (general_name r)"
  by (auto simp: arm_get_register_name_def arm_register_names_def general_name_def
      nth_append nth_Cons' numeral_eq_Suc)

lemma register_traced:
  assumes "printable t" "arm_get_register_name r = Some name"
  shows "trace_register t (cycle_count p) READ r 0 v = Some (logs_register p ''read'' name v t)"
    "trace_register t (cycle_count p) WRITE r 0 v = Some (logs_register p ''write'' name v t)"
    "trace_register t (cycle_count p) READ r USR v =
      Some (logs_register p ''read'' (name @ ''_USR'') v t)"
    "trace_register t (cycle_count p) WRITE r USR v =
      Some (logs_register p ''write'' (name @ ''_USR'') v t)"
  using assms
  by (auto simp: trace_register_def logs_register_def register_line_def Let_def
      trace_print_location_text at_index_def trace_register_type_def WRITE_def READ_def
      arm_get_mode_name_def arm_mode_names_def USR_def newline_def)

lemma access_defined:
  "arm_read_usr_register p r = Some v \<Longrightarrow> arm_get_register_name r = Some (general_name r)"
  "arm_write_usr_register p r v = Some q \<Longrightarrow> arm_get_register_name r = Some (general_name r)"
  by (metis register_name_general not_less arm_read_defined_iff arm_write_defined_iff
      option.distinct(1))+

lemmas special_names = arm_get_register_name_def arm_register_names_def CPSR_REGISTER_def SPSR_REGISTER_def

lemma special_registers_named:
  "arm_get_register_name CPSR_REGISTER = Some ''CPSR''" "arm_get_register_name SPSR_REGISTER = Some ''SPSR''"
  by (simp_all add: special_names)

text \<open>A read into a variable that has a value leaves it with a value, whatever the outcome.\<close>

lemma read_keeps_content:
  "arm_read_byte p a (Some b) = Some (n, x) \<Longrightarrow> \<exists>u. x = Some u"
  "arm_read_half p a (Some h) = Some (n, y) \<Longrightarrow> \<exists>u. y = Some u"
  "arm_read_word p a (Some w) = Some (n, z) \<Longrightarrow> \<exists>u. z = Some u"
  "memory_read_word (mem p) a (Some w) = Some (n, z) \<Longrightarrow> \<exists>u. z = Some u"
  by (auto simp: arm_read_byte_def arm_read_half_def arm_read_word_def memory_read_byte_def
      memory_read_half_def memory_read_word_def Let_def Option.bind_eq_Some_conv split: if_splits)

lemma register_accesses:
  assumes "printable t"
  shows "traced_read_register p r t =
      map_option (\<lambda>v. (v, logs_register p ''read'' (general_name r) v t)) (arm_read_register p r)"
    "traced_read_usr_register p r t =
      map_option (\<lambda>v. (v, logs_register p ''read'' (general_name r @ ''_USR'') v t)) (arm_read_usr_register p r)"
    "traced_write_register p r w t =
      map_option (\<lambda>q. (q, logs_register p ''write'' (general_name r) w t)) (arm_write_register p r w)"
    "traced_write_usr_register p r w t =
      map_option (\<lambda>q. (q, logs_register p ''write'' (general_name r @ ''_USR'') w t)) (arm_write_usr_register p r w)"
    "traced_read_cpsr p t = Some (arm_read_cpsr p, logs_register p ''read'' ''CPSR'' (arm_read_cpsr p) t)"
    "traced_read_spsr p t = Some (arm_read_spsr p, logs_register p ''read'' ''SPSR'' (arm_read_spsr p) t)"
    "traced_write_cpsr p w t = Some (arm_write_cpsr p w, logs_register p ''write'' ''CPSR'' w t)"
    "traced_write_spsr p w t = Some (arm_write_spsr p w, logs_register p ''write'' ''SPSR'' w t)"
proof -
  have cycles: "cycle_count q = cycle_count p \<Longrightarrow> logs_register q = logs_register p" for q
    by (simp add: fun_eq_iff logs_register_def register_line_def)
  have kept: "arm_write_usr_register p r w = Some q \<Longrightarrow> cycle_count q = cycle_count p" for q
    using arm_write_frame by blast
  have "cycle_count (arm_write_cpsr p w) = cycle_count p" "cycle_count (arm_write_spsr p w) = cycle_count p"
    by (simp_all add: arm_write_cpsr_def arm_write_spsr_def)
  note same = cycles [OF this(1)] cycles [OF this(2)]
  note special = register_traced [OF assms special_registers_named(1)]
    register_traced [OF assms special_registers_named(2)]
  note general = register_traced [OF assms access_defined(1)] register_traced [OF assms access_defined(2)]
  show "traced_read_register p r t =
      map_option (\<lambda>v. (v, logs_register p ''read'' (general_name r) v t)) (arm_read_register p r)"
    by (cases "arm_read_usr_register p r")
      (simp_all add: traced_read_register_def arm_read_register_same get_mode_def general)
  show "traced_read_usr_register p r t =
      map_option (\<lambda>v. (v, logs_register p ''read'' (general_name r @ ''_USR'') v t)) (arm_read_usr_register p r)"
    by (cases "arm_read_usr_register p r") (simp_all add: traced_read_usr_register_def general)
  show "traced_write_register p r w t =
      map_option (\<lambda>q. (q, logs_register p ''write'' (general_name r) w t)) (arm_write_register p r w)"
    by (cases "arm_write_usr_register p r w")
      (simp_all add: traced_write_register_def arm_write_register_same get_mode_def general cycles [OF kept])
  show "traced_write_usr_register p r w t =
      map_option (\<lambda>q. (q, logs_register p ''write'' (general_name r @ ''_USR'') w t)) (arm_write_usr_register p r w)"
    by (cases "arm_write_usr_register p r w")
      (simp_all add: traced_write_usr_register_def general cycles [OF kept])
  show "traced_read_cpsr p t = Some (arm_read_cpsr p, logs_register p ''read'' ''CPSR'' (arm_read_cpsr p) t)"
    "traced_read_spsr p t = Some (arm_read_spsr p, logs_register p ''read'' ''SPSR'' (arm_read_spsr p) t)"
    "traced_write_cpsr p w t = Some (arm_write_cpsr p w, logs_register p ''write'' ''CPSR'' w t)"
    "traced_write_spsr p w t = Some (arm_write_spsr p w, logs_register p ''write'' ''SPSR'' w t)"
    by (simp_all add: traced_read_cpsr_def traced_read_spsr_def traced_write_cpsr_def traced_write_spsr_def
        get_mode_def special same Let_def)
qed

lemma memory_accesses:
  assumes "printable t"
  shows "traced_read_byte p a (Some b) t =
      map_option (\<lambda>(n, x). ((n, x), logs_memory p ''read (1 bytes'' a (ucast (the x)) t)) (arm_read_byte p a (Some b))"
    "traced_read_half p a (Some h) t =
      map_option (\<lambda>(n, x). ((n, x), logs_memory p ''read (2 bytes'' a (ucast (the x)) t)) (arm_read_half p a (Some h))"
    "traced_read_word p a (Some v) t =
      map_option (\<lambda>(n, x). ((n, x), logs_memory p ''read (4 bytes'' a (the x) t)) (arm_read_word p a (Some v))"
    "traced_write_byte p a b t =
      map_option (\<lambda>(n, q). ((n, q), logs_memory p ''write (1 bytes'' a (ucast b) t)) (arm_write_byte p a b)"
    "traced_write_half p a h t =
      map_option (\<lambda>(n, q). ((n, q), logs_memory p ''write (2 bytes'' a (ucast h) t)) (arm_write_half p a h)"
    "traced_write_word p a v t =
      map_option (\<lambda>(n, q). ((n, q), logs_memory p ''write (4 bytes'' a v t)) (arm_write_word p a v)"
proof -
  have cycles: "logs_memory (p\<lparr>mem := m\<rparr>) = logs_memory p" for m
    by (simp add: fun_eq_iff logs_memory_def memory_line_def)
  have digits: "format_d 1 = ''1''" "format_d 2 = ''2''" "format_d 4 = ''4''" by code_simp+
  note [simp] = memory_traced [OF assms] digits
  show "traced_read_byte p a (Some b) t =
      map_option (\<lambda>(n, x). ((n, x), logs_memory p ''read (1 bytes'' a (ucast (the x)) t)) (arm_read_byte p a (Some b))"
    by (cases "arm_read_byte p a (Some b)") (auto simp: traced_read_byte_def dest!: read_keeps_content(1))
  show "traced_read_half p a (Some h) t =
      map_option (\<lambda>(n, x). ((n, x), logs_memory p ''read (2 bytes'' a (ucast (the x)) t)) (arm_read_half p a (Some h))"
    by (cases "arm_read_half p a (Some h)") (auto simp: traced_read_half_def dest!: read_keeps_content(2))
  show "traced_read_word p a (Some v) t =
      map_option (\<lambda>(n, x). ((n, x), logs_memory p ''read (4 bytes'' a (the x) t)) (arm_read_word p a (Some v))"
    by (cases "arm_read_word p a (Some v)") (auto simp: traced_read_word_def dest!: read_keeps_content(3))
  show "traced_write_byte p a b t =
      map_option (\<lambda>(n, q). ((n, q), logs_memory p ''write (1 bytes'' a (ucast b) t)) (arm_write_byte p a b)"
    by (cases "arm_write_byte p a b") (auto simp: traced_write_byte_def cycles dest!: arm_write_memory_cases(1))
  show "traced_write_half p a h t =
      map_option (\<lambda>(n, q). ((n, q), logs_memory p ''write (2 bytes'' a (ucast h) t)) (arm_write_half p a h)"
    by (cases "arm_write_half p a h") (auto simp: traced_write_half_def cycles dest!: arm_write_memory_cases(2))
  show "traced_write_word p a v t =
      map_option (\<lambda>(n, q). ((n, q), logs_memory p ''write (4 bytes'' a v t)) (arm_write_word p a v)"
    by (cases "arm_write_word p a v") (auto simp: traced_write_word_def cycles dest!: arm_write_memory_cases(3))
qed

text \<open>The fetch: a read of the program counter, one of the word before it, and a write back.\<close>

lemma fetch_traced:
  assumes "printable t" and pc: "r15 = (pc_word p + 4) AND 0xFFFFFFFD"
    and q: "q = p\<lparr>cycle_count := cycle_count p + 1\<rparr>"
  shows "traced_fetch p (Some v) t =
    map_option (\<lambda>(n, x, p'). ((n, x, p'),
        logs_register q ''write'' ''PC'' r15 (logs_memory q ''read (4 bytes, fetch'' (r15 - 4) (the x)
          (logs_register q ''read'' ''PC'' r15 t))))
      (arm_fetch p (Some v))"
proof -
  have digits: "format_d 4 = ''4''" by code_simp
  have name: "general_name 15 = ''PC''" by (simp add: general_name_def)
  have r: "arm_read_register q 15 = Some r15"
    by (simp add: arm_read_register_same arm_read_pc pc q pc_word_def)
  have w: "arm_write_register q 15 u = Some (q\<lparr>reg := (reg q)\<lparr>cpsr := u\<rparr>\<rparr>)" for u
    by (simp add: arm_write_register_same arm_write_pc)
  note regs = register_accesses(1) [of _ q 15] register_accesses(3) [of _ q 15]
  show ?thesis
    unfolding traced_fetch_def arm_fetch_def Let_def q [symmetric]
    using assms(1)
    by (cases "memory_read_word (mem q) (r15 - 4) (Some v)")
      (auto simp: r w regs name memory_traced digits dest!: read_keeps_content(4))
qed

subsection \<open>What is printed of a state\<close>

text \<open>
  The text of a state, written out: the sixteen registers, the same in every mode as the core
  has one bank, under the names of the seven modes, and the status register. \<open>traced_read\<close> is the
  line the read of a value adds when registers are traced.
\<close>

definition traced_read :: "trace_data \<Rightarrow> arm_core_data \<Rightarrow> string \<Rightarrow> u32 \<Rightarrow> string" where
  "traced_read t p name v =
     (if trace_flags t AND REGISTERS = 0 then '''' else register_line t p ''read'' name v)"

definition register_value :: "arm_core_data \<Rightarrow> nat \<Rightarrow> u32" where
  "register_value p r = (if r < 15 then regs (reg p) ! r else (pc_word p + 4) AND 0xFFFFFFFD)"

definition column :: "nat \<Rightarrow> string" where
  "column r = [''R00'', ''R01'', ''R02'', ''R03'', ''R04'', ''R05'', ''R06'', ''R07'', ''R08'',
     ''R09'', ''R10'', ''R11'', ''R12'', '' SP'', '' LR'', '' PC''] ! r"

definition one_register :: "trace_data \<Rightarrow> arm_core_data \<Rightarrow> string \<Rightarrow> nat \<Rightarrow> string" where
  "one_register t p suffix r =
     (if r \<in> {5, 10, 15} then [CHR 0x0A] @ ''    '' else '''') @
     traced_read t p (general_name (of_nat r) @ suffix) (register_value p r) @
     ''   '' @ column r @ ''='' @ format_08X (register_value p r)"

definition bank_text :: "trace_data \<Rightarrow> arm_core_data \<Rightarrow> string \<Rightarrow> string" where
  "bank_text t p suffix = concat (map (one_register t p suffix) [0..<16])"

definition state_text :: "trace_data \<Rightarrow> arm_core_data \<Rightarrow> string" where
  "state_text t p =
     ''USR:'' @ bank_text t p ''_USR'' @ traced_read t p ''CPSR'' (pc_word p) @
       ''  CPSR='' @ format_08X (pc_word p) @ [CHR 0x0A] @
     ''FIQ:'' @ bank_text t p '''' @ [CHR 0x0A] @
     ''IRQ:'' @ bank_text t p '''' @ ''          '' @
     ''SVC:'' @ bank_text t p '''' @ [CHR 0x0A] @
     ''ABT:'' @ bank_text t p '''' @ ''          '' @
     ''UND:'' @ bank_text t p '''' @ [CHR 0x0A] @
     bank_text t p ''''"

abbreviation adds :: "trace_data \<Rightarrow> string \<Rightarrow> trace_data" where
  "adds t s \<equiv> t\<lparr>trace_output := trace_output t @ s\<rparr>"

lemma traced_read_adds [simp]: "traced_read (t\<lparr>trace_output := s\<rparr>) = traced_read t"
  by (simp add: fun_eq_iff traced_read_def register_line_def)

lemma one_register_adds [simp]:
  "one_register (t\<lparr>trace_output := s\<rparr>) p suffix = one_register t p suffix"
  by (simp add: fun_eq_iff one_register_def)

lemma bank_text_adds [simp]: "bank_text (t\<lparr>trace_output := s\<rparr>) = bank_text t"
  by (simp add: fun_eq_iff bank_text_def)

lemma logs_register_read:
  "enabled t \<Longrightarrow> logs_register p ''read'' name v t = adds t (traced_read t p name v)"
  by (simp add: logs_register_def traced_read_def)

lemma register_value_read: "r < 16 \<Longrightarrow> arm_read_usr_register p (of_nat r) = Some (register_value p r)"
  by (cases "r = 15") (simp_all add: register_value_def arm_read_pc arm_read_low unat_of_nat)

lemma register_column:
  assumes "r < 16"
  shows "format_3s (general_name (of_nat r)) = column r"
    "(r > 0 \<and> r mod 5 = 0) = (r \<in> {5, 10, 15})"
proof -
  have "\<forall>r \<in> set [0..<16]. format_3s (general_name (of_nat r)) = column r \<and>
      (r > 0 \<and> r mod 5 = 0) = (r = 5 \<or> r = 10 \<or> r = 15)" by code_simp
  with assms show "format_3s (general_name (of_nat r)) = column r"
    "(r > 0 \<and> r mod 5 = 0) = (r \<in> {5, 10, 15})" by auto
qed

lemma print_bank_text:
  "printable t \<Longrightarrow> enabled t \<Longrightarrow> \<forall>r \<in> set rs. r < 16 \<Longrightarrow>
     print_registers p usr rs t =
       Some (adds t (concat (map (one_register t p (if usr then ''_USR'' else '''')) rs)))"
proof (induction rs arbitrary: t)
  case Nil
  then show ?case by simp
next
  case (Cons r rs)
  then have r: "r < 16" by simp
  define v where "v = register_value p r"
  define name where "name = general_name (of_nat r)"
  define suffix where "suffix = (if usr then ''_USR'' else '''')"
  define sep where "sep = (if r \<in> {5, 10, 15} then newline @ ''    '' else '''')"
  have named: "arm_get_register_name (of_nat r) = Some name"
    using r by (simp add: register_name_general unat_of_nat name_def)
  have sep: "(if r > 0 \<and> r mod 5 = 0 then print_output t (newline @ ''    '') else Some t) = Some (adds t sep)"
    using Cons.prems(1) unfolding register_column(2) [OF r] by (simp add: sep_def)
  have read: "(if usr then traced_read_usr_register p (of_nat r) u else traced_read_register p (of_nat r) u) =
      Some (v, adds u (traced_read u p (name @ suffix) v))" if "printable u" "enabled u" for u
    using that r by (simp add: register_accesses arm_read_register_same register_value_read
        logs_register_read v_def name_def suffix_def)
  have printed: "one_register t p suffix r = sep @ traced_read t p (name @ suffix) v @ ''   '' @ column r @ ''='' @ format_08X v"
    by (simp add: one_register_def sep_def name_def v_def newline_def)
  have column: "format_3s name = column r" using register_column(1) [OF r] by (simp add: name_def)
  show ?case
    using Cons.prems unfolding print_registers.simps sep named
    by (simp add: read column Cons.IH printed flip: suffix_def)
qed

lemma sixteen_registers:
  "printable t \<Longrightarrow> enabled t \<Longrightarrow> print_registers p usr [0..<16] t =
     Some (adds t (bank_text t p (if usr then ''_USR'' else '''')))"
  by (simp add: print_bank_text bank_text_def)

lemma print_mode_text:
  assumes "printable t" "enabled t"
  shows "arm_get_mode_name m = Some None \<Longrightarrow> print_mode p m t = Some t"
    "print_mode p USR t = Some (adds t (''USR:'' @ bank_text t p ''_USR'' @
       traced_read t p ''CPSR'' (pc_word p) @ ''  CPSR='' @ format_08X (pc_word p) @ [CHR 0x0A]))"
    "print_mode p FIQ t = Some (adds t (''FIQ:'' @ bank_text t p '''' @ [CHR 0x0A]))"
    "print_mode p IRQ t = Some (adds t (''IRQ:'' @ bank_text t p '''' @ ''          ''))"
    "print_mode p SVC t = Some (adds t (''SVC:'' @ bank_text t p '''' @ [CHR 0x0A]))"
    "print_mode p ABT t = Some (adds t (''ABT:'' @ bank_text t p '''' @ ''          ''))"
    "print_mode p UND t = Some (adds t (''UND:'' @ bank_text t p '''' @ [CHR 0x0A]))"
    "print_mode p SYS t = Some (adds t (bank_text t p ''''))"
  using assms
  by (simp_all add: print_mode_def sixteen_registers register_accesses(5) logs_register_read newline_def
      arm_read_cpsr_def read_cpsr_def pc_word_def arm_get_mode_name_def arm_mode_names_def
      USR_def FIQ_def IRQ_def SVC_def ABT_def UND_def SYS_def del: upt_Suc)

lemma print_modes_append:
  "print_modes p (ms @ ns) t = do { t \<leftarrow> print_modes p ms t; print_modes p ns t }"
  by (induction ms arbitrary: t) (simp_all split: Option.bind_split)

lemma print_modes_unnamed:
  "printable t \<Longrightarrow> enabled t \<Longrightarrow> \<forall>m \<in> set ms. arm_get_mode_name (of_nat m) = Some None \<Longrightarrow>
     print_modes p ms t = Some t"
  by (induction ms) (simp_all add: print_mode_text)

lemma modes_listed:
  "[0..<32] = [0..<16] @ [16, 17, 18, 19] @ [20, 21, 22] @ [23] @ [24, 25, 26] @ [27] @ [28, 29, 30] @ [31]"
  by code_simp

lemma unnamed_modes:
  "\<forall>m \<in> set [0..<16]. arm_get_mode_name (of_nat m) = Some None"
  "\<forall>m \<in> set [20, 21, 22]. arm_get_mode_name (of_nat m) = Some None"
  "\<forall>m \<in> set [24, 25, 26]. arm_get_mode_name (of_nat m) = Some None"
  "\<forall>m \<in> set [28, 29, 30]. arm_get_mode_name (of_nat m) = Some None"
  by code_simp+

lemma arm_print_state_text:
  assumes "printable t" "enabled t"
  shows "arm_print_state p t = Some (adds t (state_text t p))"
proof -
  have modes: "of_nat 16 = USR" "of_nat 17 = FIQ" "of_nat 18 = IRQ" "of_nat 19 = SVC"
    "of_nat 23 = ABT" "of_nat 27 = UND" "of_nat 31 = SYS"
    by (simp_all add: USR_def FIQ_def IRQ_def SVC_def ABT_def UND_def SYS_def)
  have quiet: "print_mode p (of_nat m) u = Some u"
    if "printable u" "enabled u" "m \<in> {20, 21, 22, 24, 25, 26, 28, 29, 30}" for m u
    using that unnamed_modes by (auto intro!: print_mode_text(1))
  have low: "print_modes p [0..<16] t = Some t"
    using assms unnamed_modes(1) by (rule print_modes_unnamed)
  show ?thesis
    using assms unfolding arm_print_state_def modes_listed print_modes_append low
    by (simp add: quiet modes print_mode_text state_text_def del: of_nat_numeral)
qed

text \<open>The text of a word gives the word back.\<close>

lemma format_08X_inject: "format_08X v = format_08X w \<longleftrightarrow> v = w"
proof
  assume eq: "format_08X v = format_08X w"
  have upper: "hex_upper m = hex_upper n \<longleftrightarrow> m = n" if "m < 16" "n < 16" for m n
  proof -
    have "\<forall>m \<in> set [0..<16]. \<forall>n \<in> set [0..<16]. hex_upper m = hex_upper n \<longrightarrow> m = n" by code_simp
    with that show ?thesis by auto
  qed
  have small: "unat (x AND 15 :: u32) < 16" for x
    using word_and_le1 [of x 15] by (simp add: word_le_nat_alt)
  have nibble: "drop_bit (4 * k) v AND 15 = drop_bit (4 * k) w AND 15" if "k < 8" for k
  proof -
    have "hex_upper (unat (drop_bit (4 * k) v AND 15)) = hex_upper (unat (drop_bit (4 * k) w AND 15))"
    proof -
      have "k \<in> set [7, 6, 5, 4, 3, 2, 1, 0]" using that by simp presburger
      with eq show ?thesis unfolding format_08X_def map_eq_conv by blast
    qed
    then show ?thesis by (simp add: upper small word_unat_eq_iff)
  qed
  show "v = w"
  proof (rule bit_word_eqI)
    fix n
    assume "n < LENGTH(32)"
    then have k: "n div 4 < 8" by simp
    have low: "bit (15 :: u32) (n mod 4)"
    proof -
      have "(15 :: u32) = mask 4" by (simp add: mask_eq_exp_minus_1)
      then show ?thesis by (simp only: bit_mask_iff) simp
    qed
    have "bit (drop_bit (4 * (n div 4)) x AND 15) (n mod 4) = bit x n" for x :: u32
      using low by (simp add: bit_simps)
    with nibble [OF k] show "bit v n = bit w n" by metis
  qed
qed simp

lemma concat_map_inject:
  "\<forall>r \<in> set rs. length (f r) = length (g r) \<Longrightarrow>
     concat (map f rs) = concat (map g rs) \<longleftrightarrow> (\<forall>r \<in> set rs. f r = g r)"
  by (induction rs) auto

lemma state_text_determines:
  assumes "trace_flags t AND REGISTERS = 0" "wf_core p" "wf_core q"
  shows "state_text t p = state_text t q \<longleftrightarrow> regs (reg p) = regs (reg q) \<and> pc_word p = pc_word q"
proof
  have digits: "length (format_08X v) = 8" for v by (simp add: format_08X_def)
  have none: "traced_read t c n v = ''''" for c n v using assms(1) by (simp add: traced_read_def)
  have one: "length (one_register t p s r) = length (one_register t q s r)" for s r
    by (simp add: one_register_def none digits)
  have same: "bank_text t p s = bank_text t q s \<longleftrightarrow> (\<forall>r < 16. one_register t p s r = one_register t q s r)" for s
    unfolding bank_text_def by (subst concat_map_inject) (auto simp: one)
  have long: "length (bank_text t p s) = length (bank_text t q s)" for s
    by (simp add: bank_text_def length_concat one comp_def del: upt_Suc)
  assume "state_text t p = state_text t q"
  then have "bank_text t p ''_USR'' = bank_text t q ''_USR''" and "format_08X (pc_word p) = format_08X (pc_word q)"
    by (simp_all add: state_text_def none append_eq_append_conv [OF disjI1 [OF long]]
        append_eq_append_conv [OF disjI1 [OF trans [OF digits digits [symmetric]]]])
  then have "pc_word p = pc_word q" and vals: "\<forall>r < 16. register_value p r = register_value q r"
    by (auto simp: same one_register_def none format_08X_inject)
  moreover have "regs (reg p) = regs (reg q)"
  proof (rule nth_equalityI)
    show "length (regs (reg p)) = length (regs (reg q))"
      using assms by (simp add: wf_core_def wf_registers_def)
    fix r
    assume "r < length (regs (reg p))"
    then have "r < 15" using assms by (simp add: wf_core_def wf_registers_def)
    with vals have "register_value p r = register_value q r" by simp
    with \<open>r < 15\<close> show "regs (reg p) ! r = regs (reg q) ! r" by (simp add: register_value_def)
  qed
  ultimately show "regs (reg p) = regs (reg q) \<and> pc_word p = pc_word q" by simp
next
  assume "regs (reg p) = regs (reg q) \<and> pc_word p = pc_word q"
  then have "register_value p = register_value q" "pc_word p = pc_word q"
    by (simp_all add: fun_eq_iff register_value_def)
  with assms(1) show "state_text t p = state_text t q"
    by (simp add: state_text_def bank_text_def one_register_def traced_read_def cong: map_cong)
qed

text \<open>An access made through a macro is traced at its place in the source.\<close>

lemma pushed_position:
  assumes "printable t" "enabled t" "location_stack_top t < 127" "trace_start_location t file line = Some u"
  shows "printable u \<and> enabled u \<and> trace_flags u = trace_flags t \<and>
    (trace_flags t AND POSITION \<noteq> 0 \<longrightarrow> position_text u = file @ '', '' @ format_d line @ '': '')"
  using assms
  by (auto simp: trace_start_location_def Let_def printable_def wf_trace_def position_text_def nat_less_iff
      split: if_splits)

subsection \<open>The macros in force\<close>

text \<open>
  Which names are macros, through the two headers: \<open>trace_location.h\<close>, guarded against a second
  inclusion, makes every access push its location; \<open>no_trace_location.h\<close>, which \<open>arm_core.c\<close>
  includes before it defines the accessors, gives them back their names.
\<close>

type_synonym macros = "string set"

definition traced_accessors :: "string list" where
  "traced_accessors =
     [''arm_fetch'', ''arm_read_register'', ''arm_read_usr_register'', ''arm_read_cpsr'', ''arm_read_spsr'',
      ''arm_write_register'', ''arm_write_usr_register'', ''arm_write_cpsr'', ''arm_write_spsr'',
      ''arm_read_byte'', ''arm_read_half'', ''arm_read_word'',
      ''arm_write_byte'', ''arm_write_half'', ''arm_write_word'']"

definition trace_location :: "macros \<Rightarrow> macros" where
  "trace_location ms =
     (if ''__TRACE_LOCATION_H__'' \<in> ms then ms
      else ms \<union> {''__TRACE_LOCATION_H__'', ''LOCATION'', ''END_LOCATION''} \<union> set traced_accessors)"

definition undef :: "string \<Rightarrow> macros \<Rightarrow> macros" where
  "undef name ms = (if name \<in> ms then ms - {name} else ms)"

definition no_trace_location :: "macros \<Rightarrow> macros" where
  "no_trace_location ms = fold undef
     [''arm_fetch'', ''arm_read_register'', ''arm_read_usr_register'', ''arm_read_cpsr'', ''arm_read_spsr'',
      ''arm_write_register'', ''arm_write_usr_register'', ''arm_write_cpsr'', ''arm_write_spsr'',
      ''arm_read_byte'', ''arm_read_half'', ''arm_read_word'',
      ''arm_write_byte'', ''arm_write_half'', ''arm_write_word''] ms"

text \<open>
  Together they leave none of the accessors a macro, whatever was defined before, and a later
  inclusion of \<open>arm_core.h\<close> does not bring the macros back.
\<close>

lemma fold_undef: "fold undef names ms = ms - set names"
  by (induction names arbitrary: ms) (auto simp: undef_def)

lemma no_trace_location_set: "no_trace_location ms = ms - set traced_accessors"
  by (simp only: no_trace_location_def traced_accessors_def fold_undef)

lemma guard_kept: "''__TRACE_LOCATION_H__'' \<notin> set traced_accessors"
  by (simp add: traced_accessors_def)

lemma accessors_are_functions:
  "no_trace_location (trace_location ms) \<inter> set traced_accessors = {}"
  "trace_location (no_trace_location (trace_location ms)) = no_trace_location (trace_location ms)"
  using guard_kept by (auto simp: no_trace_location_set trace_location_def)

subsection \<open>Properties\<close>

text \<open>
  C39: With a trace file and a location stack in its bounds, each of the fifteen accessors of
  the core, a read into a variable that holds a value included, gives what the access itself
  gives, and does to the trace exactly this: nothing when tracing is disabled or the option for
  registers, or for memory, is off; else one line (three for the fetch, which reads and writes
  back the program counter) with the position when it is asked for and known, the cycle, whether
  it is a read or a write, the register's name with the suffix _USR for the accesses to the user
  mode's, or the size and the address in memory, and the value; a line of memory also sets the
  last address.
\<close>

lemma accesses_are_traced:
  assumes "printable t"
  shows "traced_read_register p r t =
      map_option (\<lambda>v. (v, logs_register p ''read'' (general_name r) v t)) (arm_read_register p r) \<and>
    traced_read_usr_register p r t =
      map_option (\<lambda>v. (v, logs_register p ''read'' (general_name r @ ''_USR'') v t))
        (arm_read_usr_register p r) \<and>
    traced_write_register p r w t =
      map_option (\<lambda>q. (q, logs_register p ''write'' (general_name r) w t)) (arm_write_register p r w) \<and>
    traced_write_usr_register p r w t =
      map_option (\<lambda>q. (q, logs_register p ''write'' (general_name r @ ''_USR'') w t))
        (arm_write_usr_register p r w) \<and>
    traced_read_cpsr p t =
      Some (arm_read_cpsr p, logs_register p ''read'' ''CPSR'' (arm_read_cpsr p) t) \<and>
    traced_read_spsr p t =
      Some (arm_read_spsr p, logs_register p ''read'' ''SPSR'' (arm_read_spsr p) t) \<and>
    traced_write_cpsr p w t = Some (arm_write_cpsr p w, logs_register p ''write'' ''CPSR'' w t) \<and>
    traced_write_spsr p w t = Some (arm_write_spsr p w, logs_register p ''write'' ''SPSR'' w t) \<and>
    traced_read_byte p a (Some b) t =
      map_option (\<lambda>(n, x). ((n, x), logs_memory p ''read (1 bytes'' a (ucast (the x)) t))
        (arm_read_byte p a (Some b)) \<and>
    traced_read_half p a (Some h) t =
      map_option (\<lambda>(n, x). ((n, x), logs_memory p ''read (2 bytes'' a (ucast (the x)) t))
        (arm_read_half p a (Some h)) \<and>
    traced_read_word p a (Some v) t =
      map_option (\<lambda>(n, x). ((n, x), logs_memory p ''read (4 bytes'' a (the x) t))
        (arm_read_word p a (Some v)) \<and>
    traced_write_byte p a b t =
      map_option (\<lambda>(n, q). ((n, q), logs_memory p ''write (1 bytes'' a (ucast b) t))
        (arm_write_byte p a b) \<and>
    traced_write_half p a h t =
      map_option (\<lambda>(n, q). ((n, q), logs_memory p ''write (2 bytes'' a (ucast h) t))
        (arm_write_half p a h) \<and>
    traced_write_word p a v t =
      map_option (\<lambda>(n, q). ((n, q), logs_memory p ''write (4 bytes'' a v t)) (arm_write_word p a v) \<and>
    (let r15 = (pc_word p + 4) AND 0xFFFFFFFD; q = p\<lparr>cycle_count := cycle_count p + 1\<rparr> in
      traced_fetch p (Some v) t =
        map_option (\<lambda>(n, x, p'). ((n, x, p'),
            logs_register q ''write'' ''PC'' r15
              (logs_memory q ''read (4 bytes, fetch'' (r15 - 4) (the x)
                (logs_register q ''read'' ''PC'' r15 t))))
          (arm_fetch p (Some v)))"
  using register_accesses [OF assms] memory_accesses [OF assms]
  by (intro conjI) (simp_all only: Let_def fetch_traced [OF assms refl refl])

lemma accesses_are_traced_witness:
  "let p = \<lparr>cycle_count = 6, reg = \<lparr>regs = replicate 15 0, cpsr = 8\<rparr>,
         mem = \<lparr>mem_size = 1, memo = [1, 2, 3, 4], mem_is_big_endian = True\<rparr>\<rparr>;
       t = trace_add (set_trace_file trace_initial ''stdout'') (REGISTERS OR POSITION)
   in \<exists>u. trace_start_location t ''load.c'' 42 = Some u \<and>
     traced_write_usr_register p 13 0xAB u =
       Some (p\<lparr>reg := \<lparr>regs = (replicate 15 0)[13 := 0xAB], cpsr = 8\<rparr>\<rparr>,
         u\<lparr>trace_output :=
           ''load.c, 42: Cycle 6, Register write, SP_USR, val: 000000AB'' @ [CHR 0x0A]\<rparr>)"
proof -
  define p where "p = \<lparr>cycle_count = 6, reg = \<lparr>regs = replicate 15 0, cpsr = 8\<rparr>,
    mem = \<lparr>mem_size = 1, memo = [1, 2, 3, 4], mem_is_big_endian = True\<rparr>\<rparr>"
  define t where "t = trace_add (set_trace_file trace_initial ''stdout'') (REGISTERS OR POSITION)"
  have t: "printable t" "enabled t" "location_stack_top t = - 1" "trace_flags t = 10" "trace_output t = []"
    by (simp_all add: t_def trace_add_def set_trace_file_def trace_initial_def printable_def wf_trace_def
        REGISTERS_def POSITION_def)
  obtain u where u: "trace_start_location t ''load.c'' 42 = Some u"
    by (simp add: t_def trace_start_location_def trace_add_def set_trace_file_def trace_initial_def)
  with t have "printable u \<and> enabled u \<and> trace_flags u = 10 \<and> position_text u = ''load.c, 42: ''"
    and "trace_output u = []"
    using pushed_position [OF t(1,2) _ u]
    by (auto simp: POSITION_def format_d_def format_nat.simps hex_lower_def trace_start_location_def Let_def
        split: if_splits)
  moreover have "format_08X 0xAB = ''000000AB''" "format_d (sint (cycle_count p)) = ''6''"
    "general_name 13 = ''SP''"
    unfolding p_def by code_simp+
  moreover have "arm_write_usr_register p 13 0xAB =
      Some (p\<lparr>reg := \<lparr>regs = (replicate 15 0)[13 := 0xAB], cpsr = 8\<rparr>\<rparr>)"
    by (simp add: arm_write_low p_def)
  moreover from calculation have "printable u" by simp
  from accesses_are_traced [OF this, THEN conjunct2, THEN conjunct2, THEN conjunct2, THEN conjunct1]
  have "traced_write_usr_register p 13 0xAB u =
      map_option (\<lambda>q. (q, logs_register p ''write'' (general_name 13 @ ''_USR'') 0xAB u))
        (arm_write_usr_register p 13 0xAB)" .
  ultimately have "traced_write_usr_register p 13 0xAB u =
      Some (p\<lparr>reg := \<lparr>regs = (replicate 15 0)[13 := 0xAB], cpsr = 8\<rparr>\<rparr>,
        u\<lparr>trace_output := ''load.c, 42: Cycle 6, Register write, SP_USR, val: 000000AB'' @ [CHR 0x0A]\<rparr>)"
    by (simp add: logs_register_def register_line_def REGISTERS_def)
  with u show ?thesis unfolding Let_def p_def [symmetric] t_def [symmetric] by blast
qed

text \<open>
  C40: With tracing enabled, states traced and a trace file, the trace of a state adds exactly
  this text: for each of the seven named modes in order, the sixteen registers, five on a line,
  and for the user mode the status register, where each register, when registers are traced too,
  comes after the line of its own read; and when they are not, the text determines the core: two
  cores print the same exactly when their registers and their status word are the same.
\<close>

lemma state_is_printed:
  assumes "printable t" "enabled t" "trace_flags t AND STATE \<noteq> 0"
  shows "trace_arm_state t p = Some (t\<lparr>trace_output := trace_output t @ state_text t p\<rparr>) \<and>
    (trace_flags t AND REGISTERS = 0 \<and> wf_core p \<and> wf_core q \<longrightarrow>
      (trace_arm_state t p = trace_arm_state t q \<longleftrightarrow>
        regs (reg p) = regs (reg q) \<and> pc_word p = pc_word q))"
proof -
  have printed: "trace_arm_state t p' = Some (t\<lparr>trace_output := trace_output t @ state_text t p'\<rparr>)" for p'
    using assms by (simp add: trace_arm_state_def arm_print_state_text)
  have "t\<lparr>trace_output := s\<rparr> = t\<lparr>trace_output := s'\<rparr> \<longleftrightarrow> s = s'" for s s'
    by (metis trace_data.select_convs(2) trace_data.surjective trace_data.update_convs(2))
  then show ?thesis by (simp add: printed state_text_determines)
qed

lemma state_is_printed_witness:
  "let p = \<lparr>cycle_count = 0, reg = \<lparr>regs = replicate 15 7, cpsr = 8\<rparr>,
         mem = \<lparr>mem_size = 0, memo = [], mem_is_big_endian = True\<rparr>\<rparr>;
       t = trace_add (set_trace_file trace_initial ''stdout'') STATE
   in (\<exists>t'. trace_arm_state t p = Some t' \<and>
        take 33 (trace_output t') = ''USR:   R00=00000007   R01=0000000'') \<and>
      trace_arm_state t p \<noteq> trace_arm_state t (p\<lparr>reg := \<lparr>regs = replicate 15 7, cpsr = 12\<rparr>\<rparr>)"
proof -
  define p where "p = \<lparr>cycle_count = 0, reg = \<lparr>regs = replicate 15 7, cpsr = 8\<rparr>,
    mem = \<lparr>mem_size = 0, memo = [], mem_is_big_endian = True\<rparr>\<rparr>"
  define q where "q = p\<lparr>reg := \<lparr>regs = replicate 15 7, cpsr = 12\<rparr>\<rparr>"
  define t where "t = trace_add (set_trace_file trace_initial ''stdout'') STATE"
  have t: "printable t" "enabled t" "trace_flags t AND STATE \<noteq> 0" "trace_flags t AND REGISTERS = 0"
    "trace_output t = []" "trace_flags t = 4"
    by (simp_all add: t_def trace_add_def set_trace_file_def trace_initial_def printable_def wf_trace_def
        REGISTERS_def STATE_def)
  have wf: "wf_core p" "wf_core q" "pc_word p \<noteq> pc_word q"
    by (simp_all add: p_def q_def wf_core_def wf_registers_def wf_memory_def pc_word_def)
  have "take 33 (state_text t p) = ''USR:   R00=00000007   R01=0000000''"
  proof -
    have "[0..<16] = 0 # 1 # [2..<16]" by code_simp
    moreover have "format_08X 7 = ''00000007''" "general_name 0 = ''R00''" "column 0 = ''R00''" "column 1 = ''R01''"
      by code_simp+
    moreover have "register_value p 0 = 7" "register_value p 1 = 7" by (simp_all add: register_value_def p_def)
    ultimately show ?thesis
      by (simp add: state_text_def bank_text_def one_register_def traced_read_def t REGISTERS_def del: upt_Suc)
  qed
  then show ?thesis
    using state_is_printed [OF t(1-3), of p q] wf t(4,5)
    unfolding Let_def p_def [symmetric] t_def [symmetric] q_def [symmetric] by auto
qed

end
