(* ===== verification/Debug.thy ===== *)
theory Debug
  imports Interfaces Cformat "HOL-Library.Char_ord" "HOL-Library.List_Lexorder"
begin

text \<open>
  \<open>debug.c\<close>: the sorted table of the source files whose debug messages are enabled (an array of
  64 string pointers and a count), its insertion and its binary search, and the dump of binary
  data; and the macros of \<open>debug.h\<close> in front of them. Strings are compared with the C library's
  \<open>strcmp\<close>. \<open>None\<close> is an access outside the array, or a comparison with a null pointer.
\<close>

subsection \<open>The table\<close>

record debug_data =
  debugged_files :: "string option list"
  nb_debugged_files :: nat

definition MAX_FILES_NUMBER :: nat where "MAX_FILES_NUMBER = 64"

lemmas max_files [simp] = MAX_FILES_NUMBER_def

definition debug_initial :: debug_data where
  "debug_initial = \<lparr>debugged_files = replicate MAX_FILES_NUMBER None, nb_debugged_files = 0\<rparr>"

text \<open>The bytes of the strings are compared as \<open>unsigned char\<close>.\<close>

fun strcmp :: "string \<Rightarrow> string \<Rightarrow> int" where
  "strcmp [] [] = 0"
| "strcmp [] (b # t) = - 1"
| "strcmp (a # s) [] = 1"
| "strcmp (a # s) (b # t) = (if a = b then strcmp s t else of_char a - of_char b)"

definition compare_entry :: "debug_data \<Rightarrow> nat \<Rightarrow> string \<Rightarrow> int option" where
  "compare_entry d i name =
     (if i < length (debugged_files d)
      then map_option (\<lambda>f. strcmp f name) (debugged_files d ! i) else None)"

text \<open>The first loop of \<open>add_debug_to\<close>: the position of the new name.\<close>

function insert_position :: "debug_data \<Rightarrow> string \<Rightarrow> nat \<Rightarrow> nat option" where
  "insert_position d name i =
     (if i < nb_debugged_files d \<and> i < MAX_FILES_NUMBER
      then do {
        result \<leftarrow> compare_entry d i name;
        if result < 0 then insert_position d name (i + 1) else Some i
      }
      else Some i)"
  by pat_completeness auto
termination by (relation "measure (\<lambda>(d, name, i). MAX_FILES_NUMBER - i)") auto

text \<open>The second loop: the entries from \<open>i\<close> move up, the last first.\<close>

fun shift_entries :: "nat \<Rightarrow> nat \<Rightarrow> string option list \<Rightarrow> string option list option" where
  "shift_entries i 0 fs = Some fs"
| "shift_entries i (Suc j) fs =
     (if Suc j > i
      then (if Suc j < length fs then shift_entries i j (fs[Suc j := fs ! j]) else None)
      else Some fs)"

definition add_debug_to :: "debug_data \<Rightarrow> string \<Rightarrow> debug_data option" where
  "add_debug_to d name =
     do {
       i \<leftarrow> insert_position d name 0;
       if i \<ge> MAX_FILES_NUMBER then Some d
       else do {
         fs \<leftarrow> shift_entries i (nb_debugged_files d) (debugged_files d);
         if i < length fs
         then Some (d\<lparr>debugged_files := fs[i := Some name],
                      nb_debugged_files := nb_debugged_files d + 1\<rparr>)
         else None
       }
     }"

text \<open>The loop of \<open>__is_debugged\<close>, with the test that follows it.\<close>

function binary_search :: "debug_data \<Rightarrow> string \<Rightarrow> int \<Rightarrow> int \<Rightarrow> int option" where
  "binary_search d name lo hi =
     (if lo < hi
      then do {
        let middle = (lo + hi) div 2;
        result \<leftarrow> compare_entry d (nat middle) name;
        if result < 0 then binary_search d name (middle + 1) hi
        else if result > 0 then binary_search d name lo (middle - 1)
        else Some 1
      }
      else if lo = hi
      then do {
        result \<leftarrow> compare_entry d (nat lo) name;
        if result = 0 then Some 1 else Some 0
      }
      else Some 0)"
  by pat_completeness auto
termination by (relation "measure (\<lambda>(d, name, f, t). nat (t - f))") auto

definition is_debugged :: "debug_data \<Rightarrow> string \<Rightarrow> int option" where
  "is_debugged d name = binary_search d name 0 (int (nb_debugged_files d) - 1)"

definition isprint :: "char \<Rightarrow> bool" where
  "isprint c \<longleftrightarrow> 0x20 \<le> (of_char c :: nat) \<and> (of_char c :: nat) < 0x7F"

text \<open>What \<open>__debug_raw_binary\<close> writes on the error stream.\<close>

fun debug_raw_binary :: "string \<Rightarrow> nat \<Rightarrow> string option" where
  "debug_raw_binary data 0 = Some []"
| "debug_raw_binary [] (Suc len) = None"
| "debug_raw_binary (c # data) (Suc len) =
     do { out \<leftarrow> debug_raw_binary data len; Some ((if isprint c then c else CHR ''.'') # out) }"

subsection \<open>The macros\<close>

text \<open>
  What the macros write on the error stream, in a file and at a line, with the text the format
  makes. With \<open>DEBUG\<close> not defined they write nothing.
\<close>

definition debug_raw :: "debug_data \<Rightarrow> string \<Rightarrow> string \<Rightarrow> string option" where
  "debug_raw d file text = do { r \<leftarrow> is_debugged d file; Some (if r \<noteq> 0 then text else '''') }"

definition debug_message :: "debug_data \<Rightarrow> string \<Rightarrow> int \<Rightarrow> string \<Rightarrow> string option" where
  "debug_message d file line text =
     do {
       r \<leftarrow> is_debugged d file;
       Some (if r \<noteq> 0 then ''[DEBUG] '' @ file @ '','' @ format_d line @ '': '' @ text else '''')
     }"

definition warning :: "string \<Rightarrow> int \<Rightarrow> string \<Rightarrow> string" where
  "warning file line text = ''[WARNING] '' @ file @ '', '' @ format_d line @ '': '' @ text"

text \<open>
  With \<open>CACHE_DEBUG_FLAG\<close> each file keeps the answer of its first query in two static variables.
\<close>

record debug_cache =
  is_debugged_first :: bool
  is_debugged_result :: int

definition debug_cache_initial :: debug_cache where
  "debug_cache_initial = \<lparr>is_debugged_first = True, is_debugged_result = 0\<rparr>"

definition cached_is_debugged :: "debug_data \<Rightarrow> string \<Rightarrow> debug_cache \<Rightarrow> (int \<times> debug_cache) option" where
  "cached_is_debugged d x c =
     (if is_debugged_first c
      then do {
        r \<leftarrow> is_debugged d x;
        let c = c\<lparr>is_debugged_first := False, is_debugged_result := r\<rparr>;
        Some (if r \<noteq> 0 \<or> is_debugged_result c \<noteq> 0 then 1 else 0, c)
      }
      else Some (if is_debugged_result c \<noteq> 0 then 1 else 0, c))"

text \<open>The queries of one file and the additions to the table, in their order.\<close>

datatype debug_event = Adds string | Asks

fun cached_answers :: "debug_data \<Rightarrow> string \<Rightarrow> debug_cache \<Rightarrow> debug_event list \<Rightarrow> int list option" where
  "cached_answers d x c [] = Some []"
| "cached_answers d x c (Adds name # es) = do { d \<leftarrow> add_debug_to d name; cached_answers d x c es }"
| "cached_answers d x c (Asks # es) =
     do {
       (r, c) \<leftarrow> cached_is_debugged d x c;
       rs \<leftarrow> cached_answers d x c es;
       Some (r # rs)
     }"

fun direct_answers :: "debug_data \<Rightarrow> string \<Rightarrow> debug_event list \<Rightarrow> int list option" where
  "direct_answers d x [] = Some []"
| "direct_answers d x (Adds name # es) = do { d \<leftarrow> add_debug_to d name; direct_answers d x es }"
| "direct_answers d x (Asks # es) =
     do { r \<leftarrow> is_debugged d x; rs \<leftarrow> direct_answers d x es; Some (r # rs) }"

subsection \<open>String comparison\<close>

lemma strcmp_eq_0: "strcmp s t = 0 \<longleftrightarrow> s = t"
  by (induction s t rule: strcmp.induct) auto

lemma strcmp_refl: "strcmp s s = 0"
  by (simp add: strcmp_eq_0)

lemma of_char_less_int: "(of_char a :: int) < of_char b \<longleftrightarrow> a < b"
proof -
  have "(of_char c :: int) = int (of_char c)" for c
    by (simp only: of_nat_of_char)
  then show ?thesis by (simp only: of_nat_less_iff less_char_def)
qed

lemma strcmp_less_0: "strcmp s t < 0 \<longleftrightarrow> s < t"
  by (induction s t rule: strcmp.induct) (auto simp: of_char_less_int)

lemma strcmp_greater_0: "strcmp s t > 0 \<longleftrightarrow> t < s"
  using strcmp_eq_0 [of s t] strcmp_less_0 [of s t] linorder_less_linear [of s t]
  by (metis less_irrefl less_asym not_less_iff_gr_or_eq)

subsection \<open>Well-formed tables\<close>

definition names :: "debug_data \<Rightarrow> string list" where
  "names d = map the (take (nb_debugged_files d) (debugged_files d))"

definition wf_debug :: "debug_data \<Rightarrow> bool" where
  "wf_debug d \<longleftrightarrow> length (debugged_files d) = MAX_FILES_NUMBER \<and>
     nb_debugged_files d \<le> MAX_FILES_NUMBER \<and>
     (\<forall>i < nb_debugged_files d. debugged_files d ! i \<noteq> None) \<and> sorted (names d)"

definition room :: "debug_data \<Rightarrow> nat" where
  "room d = MAX_FILES_NUMBER - nb_debugged_files d"

lemma wf_debug_initial: "wf_debug debug_initial" "names debug_initial = []"
  by (simp_all add: wf_debug_def names_def debug_initial_def)

lemma length_names: "wf_debug d \<Longrightarrow> length (names d) = nb_debugged_files d"
  by (simp add: wf_debug_def names_def)

lemma compare_entry_names:
  "wf_debug d \<Longrightarrow> i < nb_debugged_files d \<Longrightarrow>
     compare_entry d i name = Some (strcmp (names d ! i) name)"
  by (auto simp: compare_entry_def wf_debug_def names_def)


declare insert_position.simps [simp del] binary_search.simps [simp del]

lemma insert_position_names:
  assumes "wf_debug d" "i \<le> nb_debugged_files d"
  shows "insert_position d name i =
    Some (i + length (takeWhile (\<lambda>f. f < name) (drop i (names d))))"
  using assms
proof (induction d name i rule: insert_position.induct)
  case (1 d name i)
  show ?case
  proof (cases "i < nb_debugged_files d")
    case True
    with "1.prems" have small: "i < 64" and len: "i < length (names d)"
      by (auto simp: wf_debug_def length_names)
    then have drop: "drop i (names d) = names d ! i # drop (Suc i) (names d)"
      by (simp add: Cons_nth_drop_Suc)
    have step: "compare_entry d i name = Some (strcmp (names d ! i) name)"
      using "1.prems" True by (simp add: compare_entry_names)
    show ?thesis
      using "1.IH" [of "strcmp (names d ! i) name"] "1.prems" True small
      by (subst insert_position.simps) (simp add: step drop strcmp_less_0)
  next
    case False
    with "1.prems" show ?thesis
      by (subst insert_position.simps) (simp add: length_names)
  qed
qed

lemma shift_entries_result:
  assumes "j < length fs"
  shows "\<exists>gs. shift_entries i j fs = Some gs \<and> length gs = length fs \<and>
    (\<forall>k < length fs. gs ! k = (if i < k \<and> k \<le> j then fs ! (k - 1) else fs ! k))"
  using assms
proof (induction j arbitrary: fs)
  case 0
  then show ?case by simp
next
  case (Suc j)
  show ?case
  proof (cases "i < Suc j")
    case False
    then show ?thesis by auto
  next
    case True
    let ?fs = "fs[Suc j := fs ! j]"
    from Suc.prems have "j < length ?fs" by simp
    from Suc.IH [OF this] obtain gs where gs: "shift_entries i j ?fs = Some gs"
      "length gs = length ?fs"
      "\<forall>k < length ?fs. gs ! k = (if i < k \<and> k \<le> j then ?fs ! (k - 1) else ?fs ! k)"
      by blast
    have "gs ! k = (if i < k \<and> k \<le> Suc j then fs ! (k - 1) else fs ! k)" if "k < length fs" for k
      using gs(3) that Suc.prems True by (auto simp: nth_list_update)
    with gs(1,2) True Suc.prems show ?thesis by auto
  qed
qed

lemma insort_split:
  "insort x xs = takeWhile (\<lambda>y. y < x) xs @ x # dropWhile (\<lambda>y. y < x) xs" for x :: "'a::linorder"
  by (induction xs) (auto simp: not_le)

lemma insert_nth:
  "k \<le> length xs \<Longrightarrow> i < Suc (length xs) \<Longrightarrow> (take k xs @ x # drop k xs) ! i =
     (if i < k then xs ! i else if i = k then x else xs ! (i - 1))"
  by (auto simp: nth_append min_def nth_Cons' Suc_diff_Suc)

lemma add_debug_to_insort:
  assumes wf: "wf_debug d" and free: "nb_debugged_files d < MAX_FILES_NUMBER"
  shows "\<exists>d'. add_debug_to d name = Some d' \<and> wf_debug d' \<and> names d' = insort name (names d) \<and>
    nb_debugged_files d' = nb_debugged_files d + 1"
proof -
  define n where "n = nb_debugged_files d"
  define i where "i = length (takeWhile (\<lambda>f. f < name) (names d))"
  have len: "length (debugged_files d) = 64" "length (names d) = n"
    using wf by (simp_all add: wf_debug_def length_names n_def)
  have i: "i \<le> n"
    using len length_takeWhile_le [of _ "names d"] by (metis i_def)
  have n: "n < 64" using free by (simp add: n_def)
  obtain gs where gs: "shift_entries i n (debugged_files d) = Some gs" "length gs = 64"
    "\<forall>k < 64. gs ! k = (if i < k \<and> k \<le> n then debugged_files d ! (k - 1) else debugged_files d ! k)"
    using shift_entries_result [of n "debugged_files d" i] n len by auto
  let ?d' = "d\<lparr>debugged_files := gs[i := Some name], nb_debugged_files := n + 1\<rparr>"
  have ins: "insort name (names d) = take i (names d) @ name # drop i (names d)"
    by (simp add: insort_split i_def takeWhile_eq_take [symmetric] dropWhile_eq_drop [symmetric])
  have some: "debugged_files d ! k = Some (names d ! k)" if "k < n" for k
    using wf that len n by (auto simp: wf_debug_def names_def n_def)
  have entries: "gs[i := Some name] ! k = Some (insort name (names d) ! k)" if "k < n + 1" for k
    using that i n gs(2,3) len some [of k] some [of "k - 1"]
    by (auto simp: ins insert_nth nth_list_update)
  have "names ?d' = insort name (names d)"
    using n i len gs(2) entries by (intro nth_equalityI) (simp_all add: names_def)
  moreover from this have "wf_debug ?d'"
    using wf n gs(2) entries by (auto simp: wf_debug_def sorted_insort)
  moreover have "add_debug_to d name = Some ?d'"
    using wf i n gs by (simp add: add_debug_to_def insert_position_names i_def [symmetric]
        n_def [symmetric])
  ultimately show ?thesis by (auto simp: n_def)
qed

subsection \<open>The search\<close>

lemma sorted_between:
  assumes "sorted xs" "i \<le> j" "j < length xs"
  shows "xs ! i \<le> (xs ! j :: 'a::linorder)"
  using assms by (simp add: sorted_iff_nth_mono)

text \<open>Outside the interval \<open>lo..hi\<close> no entry is the name, so the search decides membership.\<close>

lemma binary_search_correct:
  assumes "wf_debug d" "0 \<le> lo" "hi < int (nb_debugged_files d)"
    and "\<forall>i < nb_debugged_files d. names d ! i = name \<longrightarrow> lo \<le> int i \<and> int i \<le> hi"
  shows "binary_search d name lo hi = Some (of_bool (name \<in> set (names d)))"
  using assms
proof (induction d name lo hi rule: binary_search.induct)
  case (1 d name lo hi)
  let ?n = "nb_debugged_files d"
  have len: "length (names d) = ?n" and srt: "sorted (names d)"
    using "1.prems"(1) by (simp_all add: length_names, simp add: wf_debug_def)
  have mem: "name \<in> set (names d) \<longleftrightarrow> (\<exists>i < ?n. names d ! i = name)"
    by (auto simp: in_set_conv_nth len)
  consider "lo < hi" | "lo = hi" | "hi < lo" by linarith
  then show ?case
  proof cases
    case 1
    define m where "m = (lo + hi) div 2"
    have m: "lo \<le> m" "m < hi" "0 \<le> m" using 1 "1.prems"(2) by (simp_all add: m_def)
    then have mn: "nat m < ?n" using "1.prems"(3) by simp
    have cmp: "compare_entry d (nat m) name = Some (strcmp (names d ! nat m) name)"
      using "1.prems"(1) mn by (rule compare_entry_names)
    have order: "i \<le> j \<Longrightarrow> j < ?n \<Longrightarrow> names d ! i \<le> names d ! j" for i j
      using sorted_between [OF srt] len by simp
    consider "names d ! nat m < name" | "name < names d ! nat m" | "names d ! nat m = name"
      by (rule linorder_cases) auto
    then show ?thesis
    proof cases
      case lt: 1
      have "m + 1 \<le> int i" if "i < ?n" "names d ! i = name" for i
        using order [of i "nat m"] lt that mn m(3) by (cases "i \<le> nat m") auto
      then have "binary_search d name (m + 1) hi = Some (of_bool (name \<in> set (names d)))"
        using "1.IH"(1) [OF 1 m_def, of "strcmp (names d ! nat m) name"] "1.prems" m lt cmp
        by (simp add: strcmp_less_0)
      then show ?thesis
        using 1 cmp lt by (subst binary_search.simps) (simp add: m_def [symmetric] strcmp_less_0)
    next
      case gt: 2
      have "int i \<le> m - 1" if "i < ?n" "names d ! i = name" for i
        using order [of "nat m" i] gt that mn m(3) by (cases "nat m \<le> i") auto
      then have "binary_search d name lo (m - 1) = Some (of_bool (name \<in> set (names d)))"
        using "1.IH"(2) [OF 1 m_def, of "strcmp (names d ! nat m) name"] "1.prems" m gt cmp
        by (auto simp: strcmp_less_0 strcmp_greater_0)
      then show ?thesis
        using 1 cmp gt
        by (subst binary_search.simps)
          (auto simp: m_def [symmetric] strcmp_less_0 strcmp_greater_0 Let_def)
    next
      case eq: 3
      then have "name \<in> set (names d)" using mn mem by blast
      then show ?thesis
        using 1 cmp eq by (subst binary_search.simps) (simp add: m_def [symmetric] strcmp_refl)
    qed
  next
    case 2
    with "1.prems" have "nat lo < ?n" by simp
    then have cmp: "compare_entry d (nat lo) name = Some (strcmp (names d ! nat lo) name)"
      using "1.prems"(1) by (simp add: compare_entry_names)
    have "name \<in> set (names d) \<longleftrightarrow> names d ! nat lo = name"
      using "1.prems"(2,4) 2 mem \<open>nat lo < ?n\<close> by (metis nat_int order_antisym)
    with 2 cmp show ?thesis
      by (subst binary_search.simps) (simp add: strcmp_eq_0)
  next
    case 3
    then have "name \<notin> set (names d)" using "1.prems"(4) mem by auto
    with 3 show ?thesis by (subst binary_search.simps) simp
  qed
qed

lemma is_debugged_names:
  "wf_debug d \<Longrightarrow> is_debugged d name = Some (of_bool (name \<in> set (names d)))"
  unfolding is_debugged_def by (rule binary_search_correct) auto

interpretation debug_table: name_table
  add_debug_to "\<lambda>d name. is_debugged d name = Some 1" wf_debug room
proof unfold_locales
  fix d :: debug_data and x
  assume "wf_debug d" "0 < room d"
  with add_debug_to_insort [of d x] show "\<exists>d'. add_debug_to d x = Some d' \<and> wf_debug d' \<and>
      room d' = room d - 1 \<and>
      (\<forall>y. (is_debugged d' y = Some 1) = (y = x \<or> is_debugged d y = Some 1))"
    by (auto simp: room_def is_debugged_names set_insort_key)
qed

text \<open>A full table: a name above all others is dropped, any other is written past the end.\<close>

lemma shift_entries_overflow:
  "length fs \<le> j \<Longrightarrow> i < j \<Longrightarrow> shift_entries i j fs = None"
  by (cases j) auto

lemma add_debug_to_full:
  assumes "wf_debug d" "nb_debugged_files d = MAX_FILES_NUMBER"
  shows "add_debug_to d name =
    (if \<forall>f \<in> set (names d). f < name then Some d else None)"
proof -
  let ?i = "length (takeWhile (\<lambda>f. f < name) (names d))"
  have len: "length (names d) = 64" "length (debugged_files d) = 64"
    using assms by (simp_all add: length_names, simp add: wf_debug_def)
  have pos: "insert_position d name 0 = Some ?i"
    using assms(1) by (simp add: insert_position_names)
  show ?thesis
  proof (cases "\<forall>f \<in> set (names d). f < name")
    case True
    then have "takeWhile (\<lambda>f. f < name) (names d) = names d"
      by (simp add: takeWhile_eq_all_conv)
    then have "?i = 64" by (simp only: len)
    with True pos show ?thesis by (simp add: add_debug_to_def)
  next
    case False
    then have "takeWhile (\<lambda>f. f < name) (names d) \<noteq> names d"
      by (simp add: takeWhile_eq_all_conv)
    then have "?i < 64"
      using len by (metis length_takeWhile_le nat_less_le takeWhile_eq_take take_all_iff order_refl)
    with False pos assms(2) len show ?thesis
      by (simp add: add_debug_to_def shift_entries_overflow)
  qed
qed

lemma debug_raw_binary_length:
  "debug_raw_binary data len =
     (if len \<le> length data
      then Some (map (\<lambda>c. if isprint c then c else CHR ''.'') (take len data)) else None)"
  by (induction data len rule: debug_raw_binary.induct) auto

text \<open>The cached flag: all answers are the first one.\<close>

fun additions :: "debug_event list \<Rightarrow> nat" where
  "additions [] = 0"
| "additions (Adds name # es) = Suc (additions es)"
| "additions (Asks # es) = additions es"

fun asks :: "debug_event list \<Rightarrow> nat" where
  "asks [] = 0"
| "asks (Adds name # es) = asks es"
| "asks (Asks # es) = Suc (asks es)"

lemma answers_add:
  assumes "wf_debug d" "additions (Adds name # es) \<le> room d"
  obtains d' where "add_debug_to d name = Some d'" "wf_debug d'" "additions es \<le> room d'"
    "\<And>y. y \<in> set (names d') \<longleftrightarrow> y = name \<or> y \<in> set (names d)"
proof -
  from assms have "0 < room d" by simp
  from debug_table.add_ok [OF assms(1) this, of name] obtain d' where
    "add_debug_to d name = Some d'" "wf_debug d'" "room d' = room d - 1"
    "\<forall>y. is_debugged d' y = Some 1 \<longleftrightarrow> y = name \<or> is_debugged d y = Some 1" by blast
  with assms that [of d'] show ?thesis by (simp add: is_debugged_names)
qed

lemma cached_answers_later:
  assumes "wf_debug d" "additions es \<le> room d" "\<not> is_debugged_first c"
  shows "cached_answers d x c es = Some (replicate (asks es) (if is_debugged_result c \<noteq> 0 then 1 else 0))"
  using assms
proof (induction es arbitrary: d)
  case (Cons e es)
  show ?case
  proof (cases e)
    case (Adds name)
    with Cons.prems obtain d' where "add_debug_to d name = Some d'" "wf_debug d'" "additions es \<le> room d'"
      using answers_add [of d name es] by auto
    with Cons.IH [of d'] Cons.prems(3) Adds show ?thesis by simp
  next
    case Asks
    with Cons show ?thesis by (simp add: cached_is_debugged_def)
  qed
qed simp

lemma cached_answers_first:
  assumes "wf_debug d" "additions es \<le> room d"
  shows "\<exists>r. cached_answers d x debug_cache_initial es = Some (replicate (asks es) r) \<and>
    (\<forall>rs. direct_answers d x es = Some rs \<longrightarrow> rs = [] \<or> hd rs = r)"
  using assms
proof (induction es arbitrary: d)
  case (Cons e es)
  show ?case
  proof (cases e)
    case (Adds name)
    with Cons.prems obtain d' where "add_debug_to d name = Some d'" "wf_debug d'" "additions es \<le> room d'"
      using answers_add [of d name es] by auto
    with Cons.IH [of d'] Adds show ?thesis by simp
  next
    case Asks
    let ?r = "of_bool (x \<in> set (names d)) :: int"
    let ?c = "\<lparr>is_debugged_first = False, is_debugged_result = ?r\<rparr>"
    have "cached_answers d x ?c es = Some (replicate (asks es) ?r)"
      using cached_answers_later [of d es ?c x] Cons.prems Asks by simp
    then show ?thesis
      using Cons.prems(1) Asks
      by (intro exI [of _ ?r])
        (auto simp: cached_is_debugged_def debug_cache_initial_def is_debugged_names
          split: Option.bind_splits)
  qed
qed simp

lemma direct_answers_defined:
  assumes "wf_debug d" "additions es \<le> room d"
  shows "\<exists>rs. direct_answers d x es = Some rs \<and> length rs = asks es"
  using assms
proof (induction es arbitrary: d)
  case (Cons e es)
  show ?case
  proof (cases e)
    case (Adds name)
    with Cons.prems obtain d' where "add_debug_to d name = Some d'" "wf_debug d'" "additions es \<le> room d'"
      using answers_add [of d name es] by auto
    with Cons.IH [of d'] Adds show ?thesis by simp
  next
    case Asks
    with Cons.IH [of d] Cons.prems show ?thesis by (auto simp: is_debugged_names)
  qed
qed simp

lemma direct_answers_no_adds:
  assumes "wf_debug d" "additions es = 0"
  shows "direct_answers d x es = Some (replicate (asks es) (of_bool (x \<in> set (names d))))"
  using assms(2)
proof (induction es)
  case (Cons e es)
  with assms(1) show ?case by (cases e) (simp_all add: is_debugged_names)
qed simp

text \<open>
  With the cached flag, a file's queries all get the answer of its first one, whatever is added
  to the table in between: they are the answers of the uncached search exactly as long as that
  search gives the same answer, as when nothing is added, and a file asked about before its name
  is added is never debugged.
\<close>

lemma cached_debug_flag:
  assumes "wf_debug d" "additions es \<le> room d"
  shows "\<exists>rs. direct_answers d x es = Some rs \<and> length rs = asks es \<and>
    cached_answers d x debug_cache_initial es = Some (replicate (asks es) (if rs = [] then 0 else hd rs)) \<and>
    (additions es = 0 \<longrightarrow> cached_answers d x debug_cache_initial es = direct_answers d x es)"
proof -
  obtain rs where rs: "direct_answers d x es = Some rs" "length rs = asks es"
    using direct_answers_defined [OF assms] by blast
  obtain r where r: "cached_answers d x debug_cache_initial es = Some (replicate (asks es) r)"
    "rs = [] \<or> hd rs = r"
    using cached_answers_first [OF assms, of x] rs(1) by blast
  have c: "cached_answers d x debug_cache_initial es
      = Some (replicate (asks es) (if rs = [] then 0 else hd rs))"
    using r rs(2) by (cases rs) simp_all
  moreover have "cached_answers d x debug_cache_initial es = direct_answers d x es" if "additions es = 0"
    using direct_answers_no_adds [OF assms(1) that, of x] c rs(1) by (cases "asks es") simp_all
  ultimately show ?thesis using rs by (intro exI [of _ rs] conjI impI)
qed

subsection \<open>Properties\<close>

text \<open>
  C36: After names are added to the table, while there is room, the binary search finds exactly
  the names added and those found before.
\<close>

lemma debug_names_found:
  assumes "wf_debug d" "length xs \<le> room d"
  shows "\<exists>d'. add_all add_debug_to d xs = Some d' \<and> wf_debug d' \<and>
    (\<forall>y. is_debugged d' y = Some 1 \<longleftrightarrow> y \<in> set xs \<or> is_debugged d y = Some 1)"
  using debug_table.add_all_known [OF assms] by blast

lemma debug_names_found_witness:
  "\<exists>d'. add_all add_debug_to debug_initial [''memory.c'', ''arm.c''] = Some d' \<and>
    is_debugged d' ''arm.c'' = Some 1"
  using debug_names_found [OF wf_debug_initial(1), of "[''memory.c'', ''arm.c'']"]
  by (auto simp: room_def debug_initial_def)

end
