(* ===== verification/Options.thy ===== *)
theory Options
  imports Prelude "HOL-Library.Sublist"
begin

text \<open>
  The command line of \<open>arm_simulator.c\<close>: the tables of its options and what the C library's
  \<open>getopt_long\<close> makes of the arguments with them: the options found, each with its argument
  (empty where it takes none), and \<open>?\<close> for an argument that is no option of the tables, is
  ambiguous, or lacks or has an argument against the tables. Operands are passed over, as the
  library permutes them to the end, and the program ignores them.
\<close>

subsection \<open>Tables\<close>

definition longopts :: "(string \<times> bool \<times> char) list" where
  "longopts =
     [(''gdb-port'', True, CHR ''g''), (''irq-port'', True, CHR ''i''), (''trace-file'', True, CHR ''t''),
      (''trace-registers'', False, CHR ''r''), (''trace-memory'', False, CHR ''m''),
      (''trace-state'', False, CHR ''s''), (''trace-position'', False, CHR ''p''),
      (''help'', False, CHR ''h''), (''debug'', True, CHR ''d'')]"

text \<open>\<open>g:i:ht:rmspd:\<close>\<close>

definition shortopts :: "(char \<times> bool) list" where
  "shortopts =
     [(CHR ''g'', True), (CHR ''i'', True), (CHR ''h'', False), (CHR ''t'', True), (CHR ''r'', False),
      (CHR ''m'', False), (CHR ''s'', False), (CHR ''p'', False), (CHR ''d'', True)]"

definition usage :: "string \<Rightarrow> string" where
  "usage name =
     ''Usage:'' @ [CHR 0x0A] @ name @
     '' [ --help ] [ --gdb-port port ] [ --irq-port port ] '' @
     ''[ --trace-file file ] [ --trace-registers ] [ --trace-memory ] '' @
     ''[ --trace-state ] [ --trace-position ] [ --debug filename ]'' @ [CHR 0x0A, CHR 0x0A] @
     ''Start an ARMv5 instruction set simulator that acts as a gdb server '' @
     ''and can receive interrupts. It is possible to specify on which ports '' @
     ''the simulator listen to gdb client or irq sending program '' @
     ''connections. Trace options have the following behavior:'' @ [CHR 0x0A] @
     ''- trace file: file into which trace information is stored (default is'' @
     '' stdout)'' @ [CHR 0x0A] @
     ''- trace registers: outputs informations about each access to'' @
     '' registers'' @ [CHR 0x0A] @
     ''- trace memory: outputs informations about each access to memory'' @ [CHR 0x0A] @
     ''- trace state: outputs the processor state after each instruction'' @ [CHR 0x0A] @
     ''- trace position: for each traced access, outputs the file and line'' @
     '' at which the access has been performed'' @ [CHR 0x0A] @
     ''The debug switch enable selective reporting of debug messages on a '' @
     ''per source file basis'' @ [CHR 0x0A]"

subsection \<open>Scanning the arguments\<close>

type_synonym option_found = "char \<times> string"

definition bad_option :: option_found where
  "bad_option = (CHR ''?'', '''')"

text \<open>A cluster of short options after a dash, with the arguments that follow it.\<close>

fun short_options :: "string \<Rightarrow> string list \<Rightarrow> option_found list \<times> string list" where
  "short_options [] args = ([], args)"
| "short_options (c # cs) args =
     (case map_of shortopts c of
        None \<Rightarrow> let (os, rest) = short_options cs args in (bad_option # os, rest)
      | Some False \<Rightarrow> let (os, rest) = short_options cs args in ((c, '''') # os, rest)
      | Some True \<Rightarrow>
          if cs \<noteq> [] then ([(c, cs)], args)
          else (case args of [] \<Rightarrow> ([bad_option], []) | a # args \<Rightarrow> ([(c, a)], args)))"

text \<open>A name matches exactly, or as a prefix of one entry only.\<close>

definition find_long :: "string \<Rightarrow> (bool \<times> char) option" where
  "find_long name =
     (case map_of longopts name of
        Some e \<Rightarrow> Some e
      | None \<Rightarrow>
          (case filter (\<lambda>(n, e). prefix name n) longopts of
             [(n, e)] \<Rightarrow> Some e
           | _ \<Rightarrow> None))"

text \<open>A long option, the text after its two dashes; \<open>=\<close> separates the name from an argument.\<close>

definition long_option :: "string \<Rightarrow> string list \<Rightarrow> option_found \<times> string list" where
  "long_option s args =
     (let name = takeWhile (\<lambda>c. c \<noteq> CHR ''='') s;
          given = dropWhile (\<lambda>c. c \<noteq> CHR ''='') s in
      case find_long name of
        None \<Rightarrow> (bad_option, args)
      | Some (False, c) \<Rightarrow> if given \<noteq> [] then (bad_option, args) else ((c, ''''), args)
      | Some (True, c) \<Rightarrow>
          if given \<noteq> [] then ((c, tl given), args)
          else (case args of [] \<Rightarrow> (bad_option, []) | a # args \<Rightarrow> ((c, a), args)))"

lemma short_options_length: "length (snd (short_options cs args)) \<le> length args"
  by (induction cs args rule: short_options.induct)
    (auto simp: case_prod_beta Let_def split: option.splits bool.splits list.splits)

lemma long_option_length: "length (snd (long_option s args)) \<le> length args"
  by (auto simp: long_option_def Let_def split: option.splits bool.splits list.splits prod.splits)

function getopt_long :: "string list \<Rightarrow> option_found list" where
  "getopt_long [] = []"
| "getopt_long (a # args) =
     (if a = ''--'' then []
      else if take 2 a = ''--''
      then (let r = long_option (drop 2 a) args in fst r # getopt_long (snd r))
      else if take 1 a = ''-'' \<and> a \<noteq> ''-''
      then (let r = short_options (drop 1 a) args in fst r @ getopt_long (snd r))
      else getopt_long args)"
  by pat_completeness auto
termination
  by (relation "measure length")
    (auto simp: less_Suc_eq_le short_options_length long_option_length)

declare getopt_long.simps(2) [simp del]

subsection \<open>Spellings\<close>

text \<open>
  The ways to spell an option: short or long, its argument apart or joined; and an argument that
  is none, whose letter or name is not in the tables.
\<close>

inductive spelling :: "option_found \<Rightarrow> string list \<Rightarrow> bool" where
  short_flag: "map_of shortopts c = Some False \<Longrightarrow> spelling (c, '''') [[CHR ''-'', c]]"
| short_apart: "map_of shortopts c = Some True \<Longrightarrow> spelling (c, v) [[CHR ''-'', c], v]"
| short_joined: "map_of shortopts c = Some True \<Longrightarrow> v \<noteq> [] \<Longrightarrow> spelling (c, v) [CHR ''-'' # c # v]"
| long_flag: "find_long n = Some (False, c) \<Longrightarrow> CHR ''='' \<notin> set n \<Longrightarrow> n \<noteq> [] \<Longrightarrow>
    spelling (c, '''') [''--'' @ n]"
| long_apart: "find_long n = Some (True, c) \<Longrightarrow> CHR ''='' \<notin> set n \<Longrightarrow> n \<noteq> [] \<Longrightarrow>
    spelling (c, v) [''--'' @ n, v]"
| long_joined: "find_long n = Some (True, c) \<Longrightarrow> CHR ''='' \<notin> set n \<Longrightarrow>
    spelling (c, v) [''--'' @ n @ CHR ''='' # v]"
| short_unknown: "map_of shortopts c = None \<Longrightarrow> c \<noteq> CHR ''-'' \<Longrightarrow>
    spelling bad_option [[CHR ''-'', c]]"
| long_unknown: "find_long n = None \<Longrightarrow> CHR ''='' \<notin> set n \<Longrightarrow> n \<noteq> [] \<Longrightarrow>
    spelling bad_option [''--'' @ n]"

inductive_cases spellingE: "spelling x ss"

lemma no_dash_option: "map_of shortopts (CHR ''-'') = None"
  by (simp add: shortopts_def)

lemma no_equals:
  assumes "CHR ''='' \<notin> set n"
  shows "takeWhile (\<lambda>c. c \<noteq> CHR ''='') n = n" "dropWhile (\<lambda>c. c \<noteq> CHR ''='') n = []"
  using assms by (induction n) auto

lemma getopt_spelling:
  assumes "spelling x ss"
  shows "getopt_long (ss @ args) = x # getopt_long args"
  using assms
proof (cases rule: spelling.cases)
  case (short_flag c)
  then have "c \<noteq> CHR ''-''" using no_dash_option by auto
  with short_flag show ?thesis by (simp add: getopt_long.simps(2) Let_def)
next
  case (short_apart c v)
  then have "c \<noteq> CHR ''-''" using no_dash_option by auto
  with short_apart show ?thesis by (simp add: getopt_long.simps(2) Let_def)
next
  case (short_joined c v)
  then have "c \<noteq> CHR ''-''" using no_dash_option by auto
  with short_joined show ?thesis by (simp add: getopt_long.simps(2) Let_def)
next
  case (long_flag n c)
  then show ?thesis by (simp add: getopt_long.simps(2) Let_def long_option_def no_equals)
next
  case (long_apart n c v)
  then show ?thesis by (simp add: getopt_long.simps(2) Let_def long_option_def no_equals)
next
  case (long_joined n c v)
  then have "takeWhile (\<lambda>c. c \<noteq> CHR ''='') (n @ CHR ''='' # v) = n"
    "dropWhile (\<lambda>c. c \<noteq> CHR ''='') (n @ CHR ''='' # v) = CHR ''='' # v"
    by (auto simp: takeWhile_append dropWhile_append)
  with long_joined show ?thesis by (simp add: getopt_long.simps(2) Let_def long_option_def)
next
  case (short_unknown c)
  then show ?thesis by (simp add: getopt_long.simps(2) Let_def)
next
  case (long_unknown n)
  then show ?thesis by (simp add: getopt_long.simps(2) Let_def long_option_def no_equals)
qed

text \<open>What is spelled is an option of the tables, or the mark of none.\<close>

lemma spelling_known:
  assumes "spelling x ss"
  shows "fst x \<in> set ''githrmspd?''"
proof -
  have short: "map_of shortopts c = Some b \<Longrightarrow> c \<in> set ''githrmspd''" for b c
    by (drule map_of_SomeD) (auto simp: shortopts_def)
  have "(n, e) \<in> set longopts \<Longrightarrow> snd e \<in> set ''githrmspd''" for n and e :: "bool \<times> char"
    by (auto simp: longopts_def)
  moreover have "\<exists>m. (m, e) \<in> set longopts" if "find_long n = Some e" for n e
  proof (cases "map_of longopts n")
    case None
    with that obtain m where
      "[(m, e)] = filter (\<lambda>(m, e). prefix n m) longopts"
      by (auto simp: find_long_def split: list.splits prod.splits)
    then have "(m, e) \<in> set (filter (\<lambda>(m, e). prefix n m) longopts)" by (metis list.set_intros(1))
    then show ?thesis by auto
  next
    case (Some e')
    with that show ?thesis by (auto simp: find_long_def dest: map_of_SomeD)
  qed
  ultimately have long: "find_long n = Some (b, c) \<Longrightarrow> c \<in> set ''githrmspd''" for n b c
    by (metis snd_conv)
  from assms show ?thesis
    by (cases rule: spelling.cases) (auto simp: bad_option_def dest!: short long)
qed

text \<open>Operands between the options.\<close>

definition operand :: "string \<Rightarrow> bool" where
  "operand a \<longleftrightarrow> take 1 a \<noteq> ''-'' \<or> a = ''-''"

lemma getopt_operand: "operand a \<Longrightarrow> getopt_long (a # args) = getopt_long args"
  by (cases a) (auto simp: operand_def getopt_long.simps(2))

lemma getopt_operands: "\<forall>a \<in> set os. operand a \<Longrightarrow> getopt_long (os @ args) = getopt_long args"
  by (induction os) (simp_all add: getopt_operand)

text \<open>A command line: options, each after operands and in one of its spellings.\<close>

definition command_line :: "(string list \<times> option_found \<times> string list) list \<Rightarrow> string list" where
  "command_line items = concat (map (\<lambda>(os, x, ss). os @ ss) items)"

lemma getopt_command_line:
  assumes "\<forall>(os, x, ss) \<in> set items. (\<forall>a \<in> set os. operand a) \<and> spelling x ss"
  shows "getopt_long (command_line items @ rest) = map (\<lambda>(os, x, ss). x) items @ getopt_long rest"
  using assms
proof (induction items)
  case (Cons i items)
  obtain os x ss where i: "i = (os, x, ss)" by (cases i)
  have "getopt_long (command_line (i # items) @ rest) = getopt_long (os @ ss @ command_line items @ rest)"
    by (simp add: command_line_def i)
  also have "\<dots> = getopt_long (ss @ command_line items @ rest)"
    using Cons.prems i by (intro getopt_operands) simp
  also have "\<dots> = x # getopt_long (command_line items @ rest)"
    using Cons.prems i by (intro getopt_spelling) simp
  finally show ?case using Cons i by simp
qed (simp add: command_line_def)

end
