(* ===== verification/Simulator.thy ===== *)
theory Simulator
  imports Gdb Trace Debug Options
begin

text \<open>
  \<open>arm_simulator.c\<close>: the options, the objects \<open>main\<close> creates, and the two threads that share the
  core, one serving the gdb client and one raising the interrupts it receives, each inside the
  lock. The threads are a step relation over the shared state with the place each has reached.
  Sockets and threads are the system's: a step that receives a frame or a byte may happen at any
  time, with any content. The scanner (\<open>Scanner\<close>) hands whole frames to the gdb thread, as
  \<open>Lifecycle\<close> shows.
\<close>

subsection \<open>Options\<close>









subsection \<open>What the options mean\<close>


definition arguments :: "char \<Rightarrow> option_found list \<Rightarrow> string list" where
  "arguments c xs = map snd (filter (\<lambda>x. fst x = c) xs)"




lemma arguments_simps [simp]:
  "arguments c [] = []"
  "arguments c (x # xs) = (if fst x = c then snd x # arguments c xs else arguments c xs)"
  by (simp_all add: arguments_def)









subsection \<open>Creation\<close>

text \<open>What \<open>main\<close> builds, from the contents of the blocks \<open>malloc\<close> returned.\<close>

definition main_core :: "(nat \<Rightarrow> u8) \<Rightarrow> (nat \<Rightarrow> u32) \<Rightarrow> u32 \<Rightarrow> arm_core_data option" where
  "main_core fresh_bytes fresh_words cycles =
     arm_create fresh_words cycles (memory_create fresh_bytes 0x20000 BIG_ENDIAN_SIMULATOR)"

subsection \<open>The two threads\<close>

datatype sim_thread = Gdb_thread | Irq_thread

datatype gdb_place = Gdb_scanning | Gdb_wants gdb_handler string | Gdb_holds gdb_handler string
  | Gdb_served

datatype irq_place = Irq_reading | Irq_wants u8 | Irq_holds u8 | Irq_served

record sim =
  client :: gdb_data
  holder :: "sim_thread option"
  gdb_at :: gdb_place
  irq_at :: irq_place

definition sim_initial :: "arm_core_data \<Rightarrow> sim" where
  "sim_initial p =
     \<lparr>client = gdb_init_data p, holder = None, gdb_at = Gdb_scanning, irq_at = Irq_reading\<rparr>"

text \<open>The part of \<open>gdb_packet_analysis\<close> before the lock: an answer, or a handler to run.\<close>

datatype gdb_accept = Answers gdb_data | Runs gdb_data gdb_handler string

definition gdb_accept :: "gdb_data \<Rightarrow> string \<Rightarrow> gdb_accept option" where
  "gdb_accept gdb packet_in =
     (let i = max 1 (length packet_in - 3);
          check = checksum (drop 1 (take i packet_in)) in
      if i + 1 > length packet_in then None
      else do {
        (given, _) \<leftarrow> scan_x None (drop (i + 1) packet_in);
        if ucast check \<noteq> given then Some (Answers (gdb_require_retransmission gdb))
        else
          let gdb = gdb_send_ack gdb in
          (case drop 1 (take i packet_in) of
             [] \<Rightarrow> map_option Answers (gdb_send_data gdb '''')
           | c # data \<Rightarrow>
               (case gdb_init c of
                  None \<Rightarrow> map_option Answers (gdb_send_data gdb '''')
                | Some h \<Rightarrow> Some (Runs gdb h data)))
      })"

text \<open>
  The steps of the threads, with a handler and an exception as one step each. A handler that does
  not return, or that aborts the process, has no step here: what the core goes through meanwhile
  is in \<open>Atomicity\<close>, where each access of a handler is a step.
\<close>

inductive sim_step :: "sim \<Rightarrow> sim \<Rightarrow> bool" where
  gdb_answers: "gdb_at s = Gdb_scanning \<Longrightarrow> gdb_accept (client s) packet_in = Some (Answers g) \<Longrightarrow>
    sim_step s (s\<lparr>client := g\<rparr>)"
| gdb_resends: "gdb_at s = Gdb_scanning \<Longrightarrow> sim_step s (s\<lparr>client := gdb_transmit_packet (client s)\<rparr>)"
| gdb_rejects: "gdb_at s = Gdb_scanning \<Longrightarrow>
    sim_step s (s\<lparr>client := gdb_require_retransmission (client s)\<rparr>)"
| gdb_accepts: "gdb_at s = Gdb_scanning \<Longrightarrow> gdb_accept (client s) packet_in = Some (Runs g h data) \<Longrightarrow>
    sim_step s (s\<lparr>client := g, gdb_at := Gdb_wants h data\<rparr>)"
| gdb_locks: "gdb_at s = Gdb_wants h data \<Longrightarrow> holder s = None \<Longrightarrow>
    sim_step s (s\<lparr>holder := Some Gdb_thread, gdb_at := Gdb_holds h data\<rparr>)"
| gdb_serves: "gdb_at s = Gdb_holds h data \<Longrightarrow> run_handler h (client s) data = Some (Done g) \<Longrightarrow>
    sim_step s (s\<lparr>client := g, gdb_at := Gdb_served\<rparr>)"
| gdb_unlocks: "gdb_at s = Gdb_served \<Longrightarrow> sim_step s (s\<lparr>holder := None, gdb_at := Gdb_scanning\<rparr>)"
| irq_reads: "irq_at s = Irq_reading \<Longrightarrow> sim_step s (s\<lparr>irq_at := Irq_wants e\<rparr>)"
| irq_locks: "irq_at s = Irq_wants e \<Longrightarrow> holder s = None \<Longrightarrow>
    sim_step s (s\<lparr>holder := Some Irq_thread, irq_at := Irq_holds e\<rparr>)"
| irq_raises: "irq_at s = Irq_holds e \<Longrightarrow> arm_exception (arm (client s)) e = Some p \<Longrightarrow>
    sim_step s (s\<lparr>client := (client s)\<lparr>arm := p\<rparr>, irq_at := Irq_served\<rparr>)"
| irq_unlocks: "irq_at s = Irq_served \<Longrightarrow> sim_step s (s\<lparr>holder := None, irq_at := Irq_reading\<rparr>)"

inductive_cases sim_stepE: "sim_step s t"

inductive sim_reachable :: "arm_core_data \<Rightarrow> sim \<Rightarrow> bool" for p where
  sim_start: "sim_reachable p (sim_initial p)"
| sim_next: "sim_reachable p s \<Longrightarrow> sim_step s t \<Longrightarrow> sim_reachable p t"

subsection \<open>Invariants\<close>

fun gdb_in :: "gdb_place \<Rightarrow> bool" where
  "gdb_in (Gdb_holds h data) = True"
| "gdb_in Gdb_served = True"
| "gdb_in _ = False"

fun irq_in :: "irq_place \<Rightarrow> bool" where
  "irq_in (Irq_holds e) = True"
| "irq_in Irq_served = True"
| "irq_in _ = False"

definition lock_ok :: "sim \<Rightarrow> bool" where
  "lock_ok s \<longleftrightarrow> (holder s = Some Gdb_thread \<longleftrightarrow> gdb_in (gdb_at s)) \<and>
     (holder s = Some Irq_thread \<longleftrightarrow> irq_in (irq_at s))"

lemma lock_ok_initial: "lock_ok (sim_initial p)"
  by (simp add: lock_ok_def sim_initial_def)

lemma lock_ok_step: "sim_step s t \<Longrightarrow> lock_ok s \<Longrightarrow> lock_ok t"
  by (erule sim_stepE) (auto simp: lock_ok_def)

lemma lock_ok_reachable: "sim_reachable p s \<Longrightarrow> lock_ok s"
  by (induction rule: sim_reachable.induct) (auto simp: lock_ok_initial intro: lock_ok_step)

lemma accept_arm:
  "gdb_accept gdb f = Some (Answers g) \<Longrightarrow> arm g = arm gdb"
  "gdb_accept gdb f = Some (Runs g h data) \<Longrightarrow> arm g = arm gdb"
  by (auto simp: gdb_accept_def Let_def gdb_require_retransmission_def gdb_send_ack_def Rio_writen_def
      Option.bind_eq_Some_conv split: if_splits list.splits option.splits dest: send_arm)

text \<open>The core changes only in a step of the thread that holds the lock.\<close>

lemma core_changes_inside:
  "sim_step s t \<Longrightarrow> arm (client t) \<noteq> arm (client s) \<Longrightarrow> gdb_in (gdb_at s) \<or> irq_in (irq_at s)"
  by (erule sim_stepE)
    (auto simp: gdb_transmit_packet_def gdb_require_retransmission_def Rio_writen_def
      dest: accept_arm)

lemma sim_step_serves: "sim_step s t \<Longrightarrow> serves (arm (client s)) (arm (client t))"
  by (erule sim_stepE)
    (auto simp: gdb_transmit_packet_def gdb_require_retransmission_def Rio_writen_def
      dest: accept_arm run_handler_serves keeps_exception intro: keeps_serves)

lemma sim_reachable_serves: "sim_reachable p s \<Longrightarrow> serves p (arm (client s))"
  by (induction rule: sim_reachable.induct)
    (auto simp: sim_initial_def gdb_init_data_def intro: serves_trans sim_step_serves)

subsection \<open>Packets and the core\<close>

text \<open>Before the lock the gdb thread neither reads nor writes the core.\<close>

fun put_arm :: "arm_core_data \<Rightarrow> gdb_accept \<Rightarrow> gdb_accept" where
  "put_arm p (Answers g) = Answers (g\<lparr>arm := p\<rparr>)"
| "put_arm p (Runs g h data) = Runs (g\<lparr>arm := p\<rparr>) h data"

lemma writes_put_arm:
  "gdb_transmit_packet (g\<lparr>arm := p\<rparr>) = (gdb_transmit_packet g)\<lparr>arm := p\<rparr>"
  "gdb_require_retransmission (g\<lparr>arm := p\<rparr>) = (gdb_require_retransmission g)\<lparr>arm := p\<rparr>"
  "gdb_send_ack (g\<lparr>arm := p\<rparr>) = (gdb_send_ack g)\<lparr>arm := p\<rparr>"
  by (cases g; simp add: gdb_transmit_packet_def gdb_require_retransmission_def gdb_send_ack_def Rio_writen_def)+

lemma send_put_arm: "gdb_send_data (g\<lparr>arm := p\<rparr>) s = map_option (\<lambda>g. g\<lparr>arm := p\<rparr>) (gdb_send_data g s)"
proof -
  have t: "gdb_transmit_packet (g\<lparr>arm := p, packet := x\<rparr>) = (gdb_transmit_packet (g\<lparr>packet := x\<rparr>))\<lparr>arm := p\<rparr>" for x
  proof -
    have "g\<lparr>arm := p, packet := x\<rparr> = g\<lparr>packet := x\<rparr>\<lparr>arm := p\<rparr>" by (cases g) simp
    then show ?thesis by (simp only: writes_put_arm)
  qed
  show ?thesis
    unfolding gdb_send_data_def gdb_send_buffer_def Let_def
    by (cases "length s + 5 > MAX_PACKET_SIZE") (simp_all only: if_True if_False option.map t)
qed

lemma accept_put_arm: "gdb_accept (g\<lparr>arm := p\<rparr>) f = map_option (put_arm p) (gdb_accept g f)"
proof -
  define i where "i = max 1 (length f - 3)"
  note unfold = gdb_accept_def Let_def i_def [symmetric] writes_put_arm send_put_arm
  show ?thesis
  proof (cases "i + 1 > length f \<or> scan_x None (drop (i + 1) f) = None")
    case True
    then show ?thesis unfolding unfold by auto
  next
    case False
    then obtain v r where "\<not> i + 1 > length f" "scan_x None (drop (i + 1) f) = Some (v, r)" by auto
    then show ?thesis
      unfolding unfold
      by (cases "drop 1 (take i f)") (simp_all add: writes_put_arm send_put_arm option.map_comp o_def split: option.split)
  qed
qed

lemma scanning_step:
  assumes "sim_step s t" "gdb_at s = Gdb_scanning" "irq_at t = irq_at s"
  shows "arm (client t) = arm (client s)" "holder t = holder s"
    and "sim_step (s\<lparr>client := (client s)\<lparr>arm := p\<rparr>\<rparr>) (t\<lparr>client := (client t)\<lparr>arm := p\<rparr>\<rparr>)"
proof -
  let ?s = "s\<lparr>client := (client s)\<lparr>arm := p\<rparr>\<rparr>"
  have "arm (client t) = arm (client s) \<and> holder t = holder s \<and>
    sim_step ?s (t\<lparr>client := (client t)\<lparr>arm := p\<rparr>\<rparr>)"
    using assms(1)
  proof (cases rule: sim_step.cases)
    case (gdb_answers f g)
    have "gdb_accept (client ?s) f = Some (Answers (g\<lparr>arm := p\<rparr>))" using gdb_answers by (simp add: accept_put_arm)
    from sim_step.gdb_answers [OF _ this] gdb_answers show ?thesis by (auto dest: accept_arm)
  next
    case gdb_resends
    with sim_step.gdb_resends [of ?s] show ?thesis
      by (simp add: writes_put_arm) (simp add: gdb_transmit_packet_def Rio_writen_def)
  next
    case gdb_rejects
    with sim_step.gdb_rejects [of ?s] show ?thesis
      by (simp add: writes_put_arm) (simp add: gdb_require_retransmission_def Rio_writen_def)
  next
    case (gdb_accepts f g h data)
    have a: "gdb_accept (client ?s) f = Some (Runs (g\<lparr>arm := p\<rparr>) h data)" using gdb_accepts by (simp add: accept_put_arm)
    have eq: "t\<lparr>client := (client t)\<lparr>arm := p\<rparr>\<rparr> = ?s\<lparr>client := g\<lparr>arm := p\<rparr>, gdb_at := Gdb_wants h data\<rparr>"
      using gdb_accepts(1) by (cases s) simp
    from a have "sim_step ?s (t\<lparr>client := (client t)\<lparr>arm := p\<rparr>\<rparr>)"
      unfolding eq using gdb_accepts(2) by (intro sim_step.gdb_accepts) simp_all
    with gdb_accepts show ?thesis by (auto dest: accept_arm)
  qed (use assms(2,3) in \<open>auto dest: arg_cong [where f = irq_at]\<close>)
  then show "arm (client t) = arm (client s)" "holder t = holder s"
    "sim_step ?s (t\<lparr>client := (client t)\<lparr>arm := p\<rparr>\<rparr>)" by simp_all
qed

subsection \<open>The initial core\<close>

lemma main_core_value:
  "main_core fb fw c = Some \<lparr>cycle_count = 0, reg = \<lparr>regs = map fw [0..<15], cpsr = 0\<rparr>,
     mem = \<lparr>mem_size = 0x20000, memo = map fb [0..<524288], mem_is_big_endian = True\<rparr>\<rparr>"
  by (simp add: main_core_def arm_create_def arm_exception_reset registers_create_def
      memory_create_def BIG_ENDIAN_SIMULATOR_def Let_def)

lemma main_core_wf: "\<exists>p. main_core fb fw c = Some p \<and> wf_core p \<and> pc_word p = 0 \<and>
    geometry p = (0x20000, True)"
  by (simp add: main_core_value wf_core_def wf_registers_def wf_memory_def pc_word_def geometry_def)

subsection \<open>The packet analysis is one pass through the lock\<close>

lemma packet_analysis_accept:
  "gdb_packet_analysis gdb f =
     (case gdb_accept gdb f of
        None \<Rightarrow> None
      | Some (Answers g) \<Rightarrow> Some (Done g)
      | Some (Runs g h data) \<Rightarrow> run_handler h g data)"
proof -
  define i where "i = max 1 (length f - 3)"
  have f: "gdb_packet_analysis gdb f = (if i + 1 > length f then None else do {
      (given, _) \<leftarrow> scan_x None (drop (i + 1) f);
      if ucast (checksum (drop 1 (take i f))) \<noteq> given
      then Some (Done (gdb_require_retransmission gdb))
      else dispatch (gdb_send_ack gdb) (drop 1 (take i f)) })"
    by (simp only: gdb_packet_analysis_def dispatch_def Let_def i_def [symmetric])
  show ?thesis
  proof (cases "scan_x None (drop (i + 1) f)")
    case None
    then show ?thesis
      unfolding f gdb_accept_def Let_def i_def [symmetric] by simp
  next
    case (Some r)
    then show ?thesis
      unfolding f gdb_accept_def Let_def i_def [symmetric]
      by (cases r; cases "drop 1 (take i f)")
        (simp_all add: dispatch_def map_option_case split: option.splits)
  qed
qed

text \<open>A packet the analysis serves is served by the threads, from any state where the lock is free.\<close>

lemma sim_serves_packet:
  assumes "gdb_at s = Gdb_scanning" "holder s = None"
    and "gdb_packet_analysis (client s) f = Some (Done g)"
  shows "sim_step\<^sup>*\<^sup>* s (s\<lparr>client := g\<rparr>)"
proof (cases "gdb_accept (client s) f")
  case None
  with assms(3) show ?thesis by (simp add: packet_analysis_accept)
next
  case (Some a)
  show ?thesis
  proof (cases a)
    case (Answers g')
    with Some assms show ?thesis
      by (auto simp: packet_analysis_accept intro!: r_into_rtranclp gdb_answers)
  next
    case (Runs g' h data)
    let ?s1 = "s\<lparr>client := g', gdb_at := Gdb_wants h data\<rparr>"
    let ?s2 = "?s1\<lparr>holder := Some Gdb_thread, gdb_at := Gdb_holds h data\<rparr>"
    let ?s3 = "?s2\<lparr>client := g, gdb_at := Gdb_served\<rparr>"
    let ?s4 = "?s3\<lparr>holder := None, gdb_at := Gdb_scanning\<rparr>"
    from Some Runs assms have "run_handler h g' data = Some (Done g)"
      by (simp add: packet_analysis_accept)
    then have "sim_step s ?s1" "sim_step ?s1 ?s2" "sim_step ?s2 ?s3" "sim_step ?s3 ?s4"
      using Some Runs assms gdb_accepts [of s f g' h data] gdb_locks [of ?s1 h data]
        gdb_serves [of ?s2 h data g] gdb_unlocks [of ?s3] by simp_all
    moreover have "?s4 = s\<lparr>client := g\<rparr>" using assms(1,2) by simp
    ultimately show ?thesis by (metis (no_types, lifting) converse_rtranclp_into_rtranclp rtranclp.rtrancl_refl)
  qed
qed

text \<open>
  The two threads are never inside the lock together, and the core changes only in a step of the
  thread that holds it.
\<close>

lemma lock_protects_core:
  assumes "sim_reachable p s"
  shows "\<not> (gdb_in (gdb_at s) \<and> irq_in (irq_at s)) \<and>
    (\<forall>t. sim_step s t \<and> arm (client t) \<noteq> arm (client s) \<longrightarrow>
      holder s = Some (if gdb_in (gdb_at s) then Gdb_thread else Irq_thread))"
proof -
  have "lock_ok s" using assms by (rule lock_ok_reachable)
  then show ?thesis using core_changes_inside by (fastforce simp: lock_ok_def)
qed

subsection \<open>Properties\<close>

text \<open>
  C31: In every state the two threads reach from the core main creates, whatever they receive,
  the core is well-formed and its memory is the big-endian one of 0x20000 words.
\<close>

lemma simulator_keeps_core:
  assumes "main_core fb fw c = Some p" "sim_reachable p s"
  shows "wf_core (arm (client s)) \<and> mem_size (mem (arm (client s))) = 0x20000 \<and>
    mem_is_big_endian (mem (arm (client s)))"
proof -
  obtain q where "main_core fb fw c = Some q" "wf_core q" "geometry q = (0x20000, True)"
    using main_core_wf by blast
  with assms sim_reachable_serves [OF assms(2)] show ?thesis by (simp add: serves_def geometry_def)
qed

lemma simulator_keeps_core_witness:
  "\<exists>p. main_core (\<lambda>_. 0) (\<lambda>_. 0) 0 = Some p \<and> wf_core (arm (client (sim_initial p)))"
proof -
  obtain p where p: "main_core (\<lambda>_. 0) (\<lambda>_. 0) 0 = Some p" using main_core_wf by blast
  from simulator_keeps_core [OF p sim_start] p show ?thesis by blast
qed



end
