(* ===== verification/Csapp.thy ===== *)
theory Csapp
  imports Prelude "HOL-Library.Char_ord"
begin

text \<open>
  The wrappers of \<open>csapp.c\<close> around single calls of the system and of the C library, with its error
  functions, over a script of the system's answers. Each call takes the next answer and is
  logged; an answer has a return code, the value \<open>errno\<close> (for the names of hosts, \<open>h_errno\<close>) has
  after the call, and the number the call stores through a pointer, where it does. A call for which the script has
  no answer left blocks. Pointers and flags are numbers, \<open>NULL\<close> is 0. The text of an error is
  the C library's: a diagnosis keeps the message with the code it is made from.
\<close>

subsection \<open>The system\<close>

record answer =
  rc :: int
  err :: int
  stored :: int

record world =
  answers :: "answer list"
  calls :: "(string \<times> int list) list"
  errno :: int
  h_errno :: int

datatype diagnosis = Unix_error string int | Posix_error int string | Dns_error string int
  | App_error string

datatype 'a sys_outcome = Finishes 'a world | Dies diagnosis int world | Blocks world

type_synonym 'a io = "world \<Rightarrow> 'a sys_outcome"

definition io_return :: "'a \<Rightarrow> 'a io" where
  "io_return x w = Finishes x w"

definition io_bind :: "'a io \<Rightarrow> ('a \<Rightarrow> 'b io) \<Rightarrow> 'b io" where
  "io_bind m f w =
     (case m w of Finishes x w' \<Rightarrow> f x w' | Dies d s w' \<Rightarrow> Dies d s w' | Blocks w' \<Rightarrow> Blocks w')"

definition sys :: "string \<Rightarrow> int list \<Rightarrow> answer io" where
  "sys name args w =
     (let w' = w\<lparr>calls := calls w @ [(name, args)]\<rparr> in
      case answers w of
        [] \<Rightarrow> Blocks w'
      | a # as \<Rightarrow> Finishes a (w'\<lparr>answers := as, errno := err a\<rparr>))"

definition sys_dns :: "string \<Rightarrow> int list \<Rightarrow> answer io" where
  "sys_dns name args w =
     (let w' = w\<lparr>calls := calls w @ [(name, args)]\<rparr> in
      case answers w of
        [] \<Rightarrow> Blocks w'
      | a # as \<Rightarrow> Finishes a (w'\<lparr>answers := as, h_errno := err a\<rparr>))"

subsection \<open>Error-handling functions\<close>

definition unix_error :: "string \<Rightarrow> 'a io" where
  "unix_error msg w = Dies (Unix_error msg (errno w)) 0 w"

definition posix_error :: "int \<Rightarrow> string \<Rightarrow> 'a io" where
  "posix_error code msg w = Dies (Posix_error code msg) 0 w"

definition dns_error :: "string \<Rightarrow> 'a io" where
  "dns_error msg w = Dies (Dns_error msg (h_errno w)) 0 w"

definition app_error :: "string \<Rightarrow> 'a io" where
  "app_error msg w = Dies (App_error msg) 0 w"

text \<open>The three idioms of the wrappers: the failing answers, and the error function called.\<close>

definition unix_checked :: "string \<Rightarrow> int list \<Rightarrow> (int \<Rightarrow> bool) \<Rightarrow> string \<Rightarrow> answer io" where
  "unix_checked name args failed msg =
     io_bind (sys name args) (\<lambda>a. if failed (rc a) then unix_error msg else io_return a)"

definition posix_checked :: "string \<Rightarrow> int list \<Rightarrow> string \<Rightarrow> unit io" where
  "posix_checked name args msg =
     io_bind (sys name args) (\<lambda>a. if rc a \<noteq> 0 then posix_error (rc a) msg else io_return ())"

definition dns_checked :: "string \<Rightarrow> int list \<Rightarrow> string \<Rightarrow> answer io" where
  "dns_checked name args msg =
     io_bind (sys_dns name args) (\<lambda>a. if rc a = 0 then dns_error msg else io_return a)"

definition ignore :: "'a io \<Rightarrow> unit io" where
  "ignore m = io_bind m (\<lambda>_. io_return ())"

definition returned :: "answer io \<Rightarrow> int io" where
  "returned m = io_bind m (\<lambda>a. io_return (rc a))"

abbreviation negative :: "int \<Rightarrow> bool" where
  "negative r \<equiv> r < 0"

subsection \<open>Process control\<close>

definition Fork :: "int io" where
  "Fork = returned (unix_checked ''fork'' [] negative ''Fork error'')"

definition Execve :: "int \<Rightarrow> int \<Rightarrow> int \<Rightarrow> unit io" where
  "Execve filename argv envp =
     ignore (unix_checked ''execve'' [filename, argv, envp] negative ''Execve error'')"

text \<open>The status is what the call stores.\<close>

definition Wait :: "int \<Rightarrow> (int \<times> int) io" where
  "Wait status = io_bind (unix_checked ''wait'' [status] negative ''Wait error'')
     (\<lambda>a. io_return (rc a, stored a))"

definition Waitpid :: "int \<Rightarrow> int \<Rightarrow> int \<Rightarrow> (int \<times> int) io" where
  "Waitpid pid iptr options =
     io_bind (unix_checked ''waitpid'' [pid, iptr, options] negative ''Waitpid error'')
       (\<lambda>a. io_return (rc a, stored a))"

definition Kill :: "int \<Rightarrow> int \<Rightarrow> unit io" where
  "Kill pid signum = ignore (unix_checked ''kill'' [pid, signum] negative ''Kill error'')"

definition Pause :: "unit io" where
  "Pause = ignore (sys ''pause'' [])"

text \<open>\<open>rc\<close> is unsigned: the test for a negative one never holds.\<close>

definition Sleep :: "u32 \<Rightarrow> u32 io" where
  "Sleep secs =
     io_bind (unix_checked ''sleep'' [uint secs] (\<lambda>r. (word_of_int r :: u32) < 0) ''Sleep error'')
       (\<lambda>a. io_return (word_of_int (rc a)))"

definition Alarm :: "u32 \<Rightarrow> u32 io" where
  "Alarm seconds = io_bind (sys ''alarm'' [uint seconds]) (\<lambda>a. io_return (word_of_int (rc a)))"

definition Setpgid :: "int \<Rightarrow> int \<Rightarrow> unit io" where
  "Setpgid pid pgid = ignore (unix_checked ''setpgid'' [pid, pgid] negative ''Setpgid error'')"

definition Getpgrp :: "int io" where
  "Getpgrp = returned (sys ''getpgrp'' [])"

subsection \<open>Signals\<close>

text \<open>\<open>SA_RESTART\<close>; the handler replaced is what \<open>sigaction\<close> stores.\<close>

definition Signal :: "int \<Rightarrow> int \<Rightarrow> int io" where
  "Signal signum handler =
     io_bind (sys ''sigemptyset'' []) (\<lambda>_.
     io_bind (unix_checked ''sigaction'' [signum, handler, 0x10000000] negative ''Signal error'')
       (\<lambda>a. io_return (stored a)))"

definition Sigprocmask :: "int \<Rightarrow> int \<Rightarrow> int \<Rightarrow> unit io" where
  "Sigprocmask how sigset oldset =
     ignore (unix_checked ''sigprocmask'' [how, sigset, oldset] negative ''Sigprocmask error'')"

definition Sigemptyset :: "int \<Rightarrow> unit io" where
  "Sigemptyset sigset = ignore (unix_checked ''sigemptyset'' [sigset] negative ''Sigemptyset error'')"

definition Sigfillset :: "int \<Rightarrow> unit io" where
  "Sigfillset sigset = ignore (unix_checked ''sigfillset'' [sigset] negative ''Sigfillset error'')"

definition Sigaddset :: "int \<Rightarrow> int \<Rightarrow> unit io" where
  "Sigaddset sigset signum = ignore (unix_checked ''sigaddset'' [sigset, signum] negative ''Sigaddset error'')"

definition Sigdelset :: "int \<Rightarrow> int \<Rightarrow> unit io" where
  "Sigdelset sigset signum = ignore (unix_checked ''sigdelset'' [sigset, signum] negative ''Sigdelset error'')"

definition Sigismember :: "int \<Rightarrow> int \<Rightarrow> int io" where
  "Sigismember sigset signum =
     returned (unix_checked ''sigismember'' [sigset, signum] negative ''Sigismember error'')"

subsection \<open>Unix I/O\<close>

definition Open :: "int \<Rightarrow> int \<Rightarrow> int \<Rightarrow> int io" where
  "Open pathname flags mode = returned (unix_checked ''open'' [pathname, flags, mode] negative ''Open error'')"

text \<open>A read stores its first byte: the program reads one byte at a time.\<close>

definition Read :: "int \<Rightarrow> int \<Rightarrow> answer io" where
  "Read fd count = unix_checked ''read'' [fd, count] negative ''Read error''"

text \<open>The bytes written are part of the call.\<close>

definition Write :: "int \<Rightarrow> int list \<Rightarrow> int \<Rightarrow> int io" where
  "Write fd buf count = returned (unix_checked ''write'' (fd # count # buf) negative ''Write error'')"

definition Lseek :: "int \<Rightarrow> int \<Rightarrow> int \<Rightarrow> int io" where
  "Lseek fildes offset whence =
     returned (unix_checked ''lseek'' [fildes, offset, whence] negative ''Lseek error'')"

definition Close :: "int \<Rightarrow> unit io" where
  "Close fd = ignore (unix_checked ''close'' [fd] negative ''Close error'')"

definition Select :: "int \<Rightarrow> int \<Rightarrow> int \<Rightarrow> int \<Rightarrow> int \<Rightarrow> int io" where
  "Select n readfds writefds exceptfds timeout =
     returned (unix_checked ''select'' [n, readfds, writefds, exceptfds, timeout] negative ''Select error'')"

definition Dup2 :: "int \<Rightarrow> int \<Rightarrow> int io" where
  "Dup2 fd1 fd2 = returned (unix_checked ''dup2'' [fd1, fd2] negative ''Dup2 error'')"

definition Stat :: "int \<Rightarrow> int \<Rightarrow> unit io" where
  "Stat filename buf = ignore (unix_checked ''stat'' [filename, buf] negative ''Stat error'')"

definition Fstat :: "int \<Rightarrow> int \<Rightarrow> unit io" where
  "Fstat fd buf = ignore (unix_checked ''fstat'' [fd, buf] negative ''Fstat error'')"

subsection \<open>Memory mapping and allocation\<close>

definition Mmap :: "int \<Rightarrow> int \<Rightarrow> int \<Rightarrow> int \<Rightarrow> int \<Rightarrow> int \<Rightarrow> int io" where
  "Mmap addr len prot flags fd offset =
     returned (unix_checked ''mmap'' [addr, len, prot, flags, fd, offset] (\<lambda>ptr. ptr = - 1) ''mmap error'')"

definition Munmap :: "int \<Rightarrow> int \<Rightarrow> unit io" where
  "Munmap start len = ignore (unix_checked ''munmap'' [start, len] negative ''munmap error'')"

definition Malloc :: "int \<Rightarrow> int io" where
  "Malloc n = returned (unix_checked ''malloc'' [n] (\<lambda>p. p = 0) ''Malloc error'')"

definition Realloc :: "int \<Rightarrow> int \<Rightarrow> int io" where
  "Realloc ptr n = returned (unix_checked ''realloc'' [ptr, n] (\<lambda>p. p = 0) ''Realloc error'')"

definition Calloc :: "int \<Rightarrow> int \<Rightarrow> int io" where
  "Calloc nmemb n = returned (unix_checked ''calloc'' [nmemb, n] (\<lambda>p. p = 0) ''Calloc error'')"

definition Free :: "int \<Rightarrow> unit io" where
  "Free ptr = ignore (sys ''free'' [ptr])"

subsection \<open>Standard I/O\<close>

definition Fclose :: "int \<Rightarrow> unit io" where
  "Fclose fp = ignore (unix_checked ''fclose'' [fp] (\<lambda>r. r \<noteq> 0) ''Fclose error'')"

definition Fdopen :: "int \<Rightarrow> int \<Rightarrow> int io" where
  "Fdopen fd type = returned (unix_checked ''fdopen'' [fd, type] (\<lambda>fp. fp = 0) ''Fdopen error'')"

text \<open>\<open>ferror\<close> is asked only when \<open>fgets\<close> gave nothing.\<close>

definition Fgets :: "int \<Rightarrow> int \<Rightarrow> int \<Rightarrow> int io" where
  "Fgets ptr n stream =
     io_bind (sys ''fgets'' [ptr, n, stream]) (\<lambda>a.
       if rc a = 0
       then io_bind (sys ''ferror'' [stream]) (\<lambda>e.
         if rc e \<noteq> 0 then app_error ''Fgets error'' else io_return (rc a))
       else io_return (rc a))"

definition Fopen :: "int \<Rightarrow> int \<Rightarrow> int io" where
  "Fopen filename mode = returned (unix_checked ''fopen'' [filename, mode] (\<lambda>fp. fp = 0) ''Fopen error'')"

definition Fputs :: "int \<Rightarrow> int \<Rightarrow> unit io" where
  "Fputs ptr stream = ignore (unix_checked ''fputs'' [ptr, stream] (\<lambda>r. r = - 1) ''Fputs error'')"

definition Fread :: "int \<Rightarrow> u64 \<Rightarrow> u64 \<Rightarrow> int \<Rightarrow> u64 io" where
  "Fread ptr n nmemb stream =
     io_bind (sys ''fread'' [ptr, uint n, uint nmemb, stream]) (\<lambda>a.
       let r = word_of_int (rc a) in
       if r < nmemb
       then io_bind (sys ''ferror'' [stream]) (\<lambda>e.
         if rc e \<noteq> 0 then unix_error ''Fread error'' else io_return r)
       else io_return r)"

definition Fwrite :: "int \<Rightarrow> u64 \<Rightarrow> u64 \<Rightarrow> int \<Rightarrow> unit io" where
  "Fwrite ptr n nmemb stream =
     ignore (unix_checked ''fwrite'' [ptr, uint n, uint nmemb, stream]
       (\<lambda>r. (word_of_int r :: u64) < nmemb) ''Fwrite error'')"

subsection \<open>Sockets\<close>

text \<open>The address of a socket, its port and host in the byte order of the network.\<close>

record sockaddr_in =
  sin_family :: int
  sin_port :: u16
  s_addr :: u32

definition sockaddr_args :: "sockaddr_in \<Rightarrow> int list" where
  "sockaddr_args a = [sin_family a, uint (sin_port a), uint (s_addr a)]"

definition htons :: "u16 \<Rightarrow> u16" where
  "htons h = push_bit 8 h OR drop_bit 8 h"

definition ntohs :: "u16 \<Rightarrow> u16" where
  "ntohs n = push_bit 8 n OR drop_bit 8 n"

definition PF_INET :: int where "PF_INET = 2"

definition AF_INET :: int where "AF_INET = 2"

definition SOCK_STREAM :: int where "SOCK_STREAM = 1"

definition SOL_SOCKET :: int where "SOL_SOCKET = 1"

definition SO_REUSEADDR :: int where "SO_REUSEADDR = 2"

definition SHUT_RDWR :: int where "SHUT_RDWR = 2"

definition LISTENQ :: int where "LISTENQ = 1024"

definition Socket :: "int \<Rightarrow> int \<Rightarrow> int \<Rightarrow> int io" where
  "Socket domain type protocol =
     returned (unix_checked ''socket'' [domain, type, protocol] negative ''Socket error'')"

definition Setsockopt :: "int \<Rightarrow> int \<Rightarrow> int \<Rightarrow> int \<Rightarrow> int \<Rightarrow> unit io" where
  "Setsockopt s level optname optval optlen =
     ignore (unix_checked ''setsockopt'' [s, level, optname, optval, optlen] negative ''Setsockopt error'')"

definition Bind :: "int \<Rightarrow> sockaddr_in \<Rightarrow> int \<Rightarrow> unit io" where
  "Bind sockfd my_addr addrlen =
     ignore (unix_checked ''bind'' (sockfd # sockaddr_args my_addr @ [addrlen]) negative ''Bind error'')"

definition Listen :: "int \<Rightarrow> int \<Rightarrow> unit io" where
  "Listen s backlog = ignore (unix_checked ''listen'' [s, backlog] negative ''Listen error'')"

definition Accept :: "int \<Rightarrow> int io" where
  "Accept s = returned (unix_checked ''accept'' [s] negative ''Accept error'')"

definition Connect :: "int \<Rightarrow> sockaddr_in \<Rightarrow> int \<Rightarrow> unit io" where
  "Connect sockfd serv_addr addrlen =
     ignore (unix_checked ''connect'' (sockfd # sockaddr_args serv_addr @ [addrlen]) negative ''Connect error'')"

subsection \<open>Names of hosts\<close>

text \<open>
  The first address of the host is what the call stores, four bytes as the host reads them. The
  characters of the name are logged.
\<close>

definition Gethostbyname :: "string \<Rightarrow> u32 io" where
  "Gethostbyname name = io_bind (dns_checked ''gethostbyname'' (map of_char name) ''Gethostbyname error'')
     (\<lambda>a. io_return (word_of_int (stored a)))"

definition Gethostbyaddr :: "int \<Rightarrow> int \<Rightarrow> int \<Rightarrow> u32 io" where
  "Gethostbyaddr addr len type =
     io_bind (dns_checked ''gethostbyaddr'' [addr, len, type] ''Gethostbyaddr error'')
       (\<lambda>a. io_return (word_of_int (stored a)))"

subsection \<open>Threads and semaphores\<close>

text \<open>The identifier of the thread is stored.\<close>

definition Pthread_create :: "int \<Rightarrow> int \<Rightarrow> int \<Rightarrow> int \<Rightarrow> unit io" where
  "Pthread_create tidp attrp routine argp =
     posix_checked ''pthread_create'' [tidp, attrp, routine, argp] ''Pthread_create error''"

definition Pthread_cancel :: "int \<Rightarrow> unit io" where
  "Pthread_cancel tid = posix_checked ''pthread_cancel'' [tid] ''Pthread_cancel error''"

definition Pthread_join :: "int \<Rightarrow> int \<Rightarrow> unit io" where
  "Pthread_join tid thread_return = posix_checked ''pthread_join'' [tid, thread_return] ''Pthread_join error''"

definition Pthread_detach :: "int \<Rightarrow> unit io" where
  "Pthread_detach tid = posix_checked ''pthread_detach'' [tid] ''Pthread_detach error''"

text \<open>The thread ends there: like a call without an answer, this one does not return.\<close>

definition Pthread_exit :: "int \<Rightarrow> unit io" where
  "Pthread_exit retval w = Blocks (w\<lparr>calls := calls w @ [(''pthread_exit'', [retval])]\<rparr>)"

definition Pthread_self :: "int io" where
  "Pthread_self = returned (sys ''pthread_self'' [])"

definition Pthread_once :: "int \<Rightarrow> int \<Rightarrow> unit io" where
  "Pthread_once once_control init_function =
     ignore (sys ''pthread_once'' [once_control, init_function])"

definition Sem_init :: "int \<Rightarrow> int \<Rightarrow> u32 \<Rightarrow> unit io" where
  "Sem_init sem pshared v =
     ignore (unix_checked ''sem_init'' [sem, pshared, uint v] negative ''Sem_init error'')"

definition P :: "int \<Rightarrow> unit io" where
  "P sem = ignore (unix_checked ''sem_wait'' [sem] negative ''P error'')"

definition V :: "int \<Rightarrow> unit io" where
  "V sem = ignore (unix_checked ''sem_post'' [sem] negative ''V error'')"

subsection \<open>Clients and servers\<close>

definition open_clientfd :: "string \<Rightarrow> int \<Rightarrow> int io" where
  "open_clientfd hostname port =
     io_bind (sys ''socket'' [AF_INET, SOCK_STREAM, 0]) (\<lambda>clientfd.
       if rc clientfd < 0 then io_return (- 1)
       else io_bind (sys_dns ''gethostbyname'' (map of_char hostname)) (\<lambda>hp.
         if rc hp = 0 then io_return (- 2)
         else
           let serveraddr = \<lparr>sin_family = AF_INET, sin_port = htons (word_of_int port),
                 s_addr = word_of_int (stored hp)\<rparr> in
           io_bind (sys ''connect'' (rc clientfd # sockaddr_args serveraddr @ [16])) (\<lambda>r.
             if rc r < 0 then io_return (- 1) else io_return (rc clientfd))))"

definition open_listenfd :: "int \<Rightarrow> int io" where
  "open_listenfd port =
     io_bind (sys ''socket'' [AF_INET, SOCK_STREAM, 0]) (\<lambda>listenfd.
       if rc listenfd < 0 then io_return (- 1)
       else io_bind (sys ''setsockopt'' [rc listenfd, SOL_SOCKET, SO_REUSEADDR, 1, 4]) (\<lambda>r.
         if rc r < 0 then io_return (- 1)
         else
           let serveraddr = \<lparr>sin_family = AF_INET, sin_port = htons (word_of_int port), s_addr = 0\<rparr> in
           io_bind (sys ''bind'' (rc listenfd # sockaddr_args serveraddr @ [16])) (\<lambda>r.
             if rc r < 0 then io_return (- 1)
             else io_bind (sys ''listen'' [rc listenfd, LISTENQ]) (\<lambda>r.
               if rc r < 0 then io_return (- 1) else io_return (rc listenfd)))))"

definition Open_clientfd :: "string \<Rightarrow> int \<Rightarrow> int io" where
  "Open_clientfd hostname port =
     io_bind (open_clientfd hostname port) (\<lambda>rc.
       if rc < 0
       then (if rc = - 1 then unix_error ''Open_clientfd Unix error''
             else dns_error ''Open_clientfd DNS error'')
       else io_return rc)"

definition Open_listenfd :: "int \<Rightarrow> int io" where
  "Open_listenfd port =
     io_bind (open_listenfd port) (\<lambda>rc.
       if rc < 0 then unix_error ''Open_listenfd error'' else io_return rc)"

subsection \<open>Lemmas\<close>

named_theorems io_simps \<open>how the actions run\<close>

lemma io_return_run [io_simps]: "io_return x w = Finishes x w"
  by (simp add: io_return_def)

lemma io_bind_run [io_simps]:
  "m w = Finishes x w' \<Longrightarrow> io_bind m f w = f x w'"
  "m w = Dies d s w' \<Longrightarrow> io_bind m f w = Dies d s w'"
  "m w = Blocks w' \<Longrightarrow> io_bind m f w = Blocks w'"
  by (simp_all add: io_bind_def)

lemma sys_run [io_simps]:
  "answers w = a # as \<Longrightarrow> sys name args w =
     Finishes a (w\<lparr>calls := calls w @ [(name, args)], answers := as, errno := err a\<rparr>)"
  "answers w = [] \<Longrightarrow> sys name args w = Blocks (w\<lparr>calls := calls w @ [(name, args)]\<rparr>)"
  by (simp_all add: sys_def)

lemma sys_dns_run [io_simps]:
  "answers w = a # as \<Longrightarrow> sys_dns name args w =
     Finishes a (w\<lparr>calls := calls w @ [(name, args)], answers := as, h_errno := err a\<rparr>)"
  "answers w = [] \<Longrightarrow> sys_dns name args w = Blocks (w\<lparr>calls := calls w @ [(name, args)]\<rparr>)"
  by (simp_all add: sys_dns_def)

text \<open>The outcome without the world, and the world.\<close>

datatype 'a verdict = Gives 'a | Ends diagnosis int | Waits

fun result_of :: "'a sys_outcome \<Rightarrow> 'a verdict" where
  "result_of (Finishes x w) = Gives x"
| "result_of (Dies d s w) = Ends d s"
| "result_of (Blocks w) = Waits"

fun world_of :: "'a sys_outcome \<Rightarrow> world" where
  "world_of (Finishes x w) = w"
| "world_of (Dies d s w) = w"
| "world_of (Blocks w) = w"

lemmas io_defs = io_bind_def io_return_def sys_def sys_dns_def unix_error_def posix_error_def
  dns_error_def app_error_def unix_checked_def posix_checked_def dns_checked_def ignore_def
  returned_def Let_def

lemma ntohs_htons [simp]: "ntohs (htons h) = h"
  by (rule bit_word_eqI) (auto simp: ntohs_def htons_def bit_simps)

end
