(* ===== verification/SendIrq.thy ===== *)
theory SendIrq
  imports Debug Constants
begin

text \<open>
  \<open>send_irq.c\<close>: the choice of the byte the program sends to the simulator, from its arguments,
  and the list of names its usage prints. The connection is in \<open>Server\<close>.
\<close>

text \<open>The loops over the exceptions: they stop at the first number without a name.\<close>

lemma exception_name_bound: "arm_get_exception_name e = Some n \<Longrightarrow> e < 8"
  by (auto simp: arm_get_exception_name_def split: if_splits)

lemma next_exception: "e < 8 \<Longrightarrow> unat (e + 1 :: u8) = unat e + 1"
  by (simp add: word_less_nat_alt unat_word_ariths)

function find_irq :: "u8 \<Rightarrow> string \<Rightarrow> u8 option" where
  "find_irq irq name =
     (case arm_get_exception_name irq of
        None \<Rightarrow> None
      | Some irq_name \<Rightarrow> if strcmp irq_name name \<noteq> 0 then find_irq (irq + 1) name else Some irq)"
  by pat_completeness auto
termination
  by (relation "measure (\<lambda>(irq, name). 256 - unat irq)")
    (auto dest!: exception_name_bound simp: next_exception word_less_nat_alt)

function usage_names :: "u8 \<Rightarrow> string list" where
  "usage_names irq =
     (case arm_get_exception_name irq of
        None \<Rightarrow> []
      | Some irq_name \<Rightarrow>
          (irq_name @ (if uint irq = INTERRUPT then [CHR 0x09, CHR 0x09] @ ''(default)'' else '''') @
           [CHR 0x0A]) # usage_names (irq + 1))"
  by pat_completeness auto
termination
  by (relation "measure (\<lambda>irq. 256 - unat irq)")
    (auto dest!: exception_name_bound simp: next_exception word_less_nat_alt)

declare find_irq.simps [simp del] usage_names.simps [simp del]

datatype send_outcome = Sends u8 | Exits_with int

text \<open>\<open>argv\<close> has the program name first.\<close>

definition send_irq_main :: "string list \<Rightarrow> send_outcome" where
  "send_irq_main argv =
     (if length argv < 3 then Exits_with 1
      else if length argv < 4 then Sends (word_of_int INTERRUPT)
      else (case find_irq (word_of_int RESET) (argv ! 3) of
              None \<Rightarrow> Exits_with 2
            | Some irq \<Rightarrow> Sends irq))"

lemma exception_name_of:
  "arm_get_exception_name e = Some n \<Longrightarrow> e \<in> {1, 2, 3, 4, 5, 6, 7}"
proof -
  assume n: "arm_get_exception_name e = Some n"
  then have "1 \<le> unat e \<and> unat e \<le> 7" using exception_name_iff by blast
  then have "unat e = 1 \<or> unat e = 2 \<or> unat e = 3 \<or> unat e = 4 \<or> unat e = 5 \<or> unat e = 6 \<or> unat e = 7"
    by linarith
  then show ?thesis by (auto simp: word_unat_eq_iff)
qed

text \<open>No two exceptions share a name.\<close>

lemma exception_name_inj:
  assumes "arm_get_exception_name d = Some n" "arm_get_exception_name e = Some n"
  shows "d = e"
proof -
  have "distinct arm_exception_names" by (simp add: arm_exception_names_def)
  moreover have "d < 8" "e < 8" using assms by (auto dest: exception_name_bound)
  moreover from this assms have "arm_exception_names ! unat d = arm_exception_names ! unat e"
    by (simp add: arm_get_exception_name_def)
  ultimately show ?thesis
    by (simp add: nth_eq_iff_index_eq exception_names_length word_less_nat_alt word_unat_eq_iff)
qed

lemma find_irq_sound: "find_irq irq name = Some e \<Longrightarrow> arm_get_exception_name e = Some name"
proof (induction irq name rule: find_irq.induct)
  case (1 irq name)
  then show ?case
    by (subst (asm) (2) find_irq.simps) (auto simp: strcmp_eq_0 split: option.splits if_splits)
qed

lemma find_irq_complete:
  "irq \<le> e \<Longrightarrow> 1 \<le> irq \<Longrightarrow> arm_get_exception_name e = Some name \<Longrightarrow> find_irq irq name = Some e"
proof (induction irq name rule: find_irq.induct)
  case (1 irq name)
  have e: "e < 8" using "1.prems"(3) by (rule exception_name_bound)
  then have "unat irq \<le> 7" "1 \<le> unat irq"
    using "1.prems"(1,2) by (simp_all add: word_le_nat_alt word_less_nat_alt)
  then obtain m where m: "arm_get_exception_name irq = Some m"
    using exception_name_iff [of irq] by blast
  show ?case
  proof (cases "m = name")
    case True
    then have "irq = e" using m "1.prems"(3) exception_name_inj by blast
    with m True show ?thesis by (subst find_irq.simps) (simp add: strcmp_refl)
  next
    case False
    then have "irq \<noteq> e" using m "1.prems"(3) by auto
    then have "irq + 1 \<le> e" "1 \<le> irq + 1"
      using "1.prems"(1) next_exception [OF exception_name_bound [OF m]]
      by (auto simp: word_le_nat_alt word_unat_eq_iff)
    with False m "1.IH" [OF m] "1.prems"(3) show ?thesis
      by (simp add: find_irq.simps [of irq] strcmp_eq_0)
  qed
qed

lemma find_irq_iff: "find_irq 1 name = Some e \<longleftrightarrow> arm_get_exception_name e = Some name"
proof
  assume n: "arm_get_exception_name e = Some name"
  then have "1 \<le> e" using exception_name_of [OF n] by (elim insertE emptyE) simp_all
  with n show "find_irq 1 name = Some e" by (intro find_irq_complete) simp_all
qed (rule find_irq_sound)

end
