(* ===== verification/Server.thy ===== *)
theory Server
  imports Csapp Scanner SendIrq
begin

text \<open>
  The connections of the two programs, over the system calls of \<open>Csapp\<close>: of \<open>arm_simulator.c\<close> the
  creation of a server and the two listeners the threads run, and of \<open>send_irq.c\<close> the whole
  program. The lock around each exception is left to the theories of the threads; what the
  scanner reads from the client is its input.
\<close>

subsection \<open>The servers of the simulator\<close>

text \<open>
  The socket with the port it listens on, which the system chooses when 0 is asked for; a
  failure of \<open>getsockname\<close> goes unnoticed and leaves the port asked for.
\<close>

definition create_server :: "u16 \<Rightarrow> (int \<times> u16) io" where
  "create_server port =
     io_bind (Socket PF_INET SOCK_STREAM 0) (\<lambda>socket.
     io_bind (Setsockopt socket SOL_SOCKET SO_REUSEADDR 1 4) (\<lambda>_.
       let addr = \<lparr>sin_family = AF_INET, sin_port = htons port, s_addr = 0\<rparr> in
     io_bind (Bind socket addr 16) (\<lambda>_.
     io_bind (sys ''getsockname'' [socket]) (\<lambda>a.
       let addr = (if rc a = 0 then addr\<lparr>sin_port := word_of_int (stored a)\<rparr> else addr) in
     io_bind (Listen socket 1) (\<lambda>_. io_return (socket, ntohs (sin_port addr)))))))"

text \<open>
  One client is served. The port announced is returned with the result of the scanner; an
  abort, or undefined behaviour, ends the process there.
\<close>

definition gdb_listener :: "u16 \<Rightarrow> arm_core_data \<Rightarrow> bool \<Rightarrow> string \<Rightarrow> (u16 \<times> scan_result option) io" where
  "gdb_listener gdb_port p opened input =
     io_bind (create_server gdb_port) (\<lambda>(socket, port).
     io_bind (Accept socket) (\<lambda>connection.
       case gdb_scanner p opened input of
         Some (Scanned data) \<Rightarrow>
           io_bind (sys ''shutdown'' [connection, SHUT_RDWR]) (\<lambda>_.
           io_bind (sys ''close'' [socket]) (\<lambda>_. io_return (port, Some (Scanned data))))
       | r \<Rightarrow> io_return (port, r)))"

text \<open>Every action takes an answer for each call it makes.\<close>

lemma sys_answers: "sys name args w = Finishes a w' \<Longrightarrow> length (answers w') < length (answers w)"
  by (auto simp: sys_def Let_def split: list.splits)

lemma Read_answers: "Read fd n w = Finishes a w' \<Longrightarrow> length (answers w') < length (answers w)"
  by (auto simp: Read_def unix_checked_def io_bind_def unix_error_def io_return_def
      split: sys_outcome.splits if_splits dest: sys_answers)

lemma Accept_answers: "Accept s w = Finishes c w' \<Longrightarrow> length (answers w') < length (answers w)"
  by (auto simp: Accept_def returned_def unix_checked_def io_bind_def unix_error_def io_return_def
      split: sys_outcome.splits if_splits dest: sys_answers)

text \<open>The inner loop: each byte read is an exception; the connection ends with a read of nothing.\<close>

function irq_reads :: "int \<Rightarrow> arm_core_data \<Rightarrow> world \<Rightarrow> (arm_core_data \<times> unit sys_outcome) option" where
  "irq_reads connection p w =
     (case Read connection 1 w of
        Finishes a w \<Rightarrow>
          if rc a > 0
          then do { p \<leftarrow> arm_exception p (word_of_int (stored a)); irq_reads connection p w }
          else Some (p, Finishes () w)
      | Dies d s w \<Rightarrow> Some (p, Dies d s w)
      | Blocks w \<Rightarrow> Some (p, Blocks w))"
  by pat_completeness auto
termination
  by (relation "measure (\<lambda>(connection, p, w). length (answers w))") (auto dest: Read_answers)

declare irq_reads.simps [simp del]

lemma irq_reads_answers:
  "irq_reads connection p w = Some (q, Finishes () w') \<Longrightarrow> length (answers w') < length (answers w)"
proof (induction connection p w rule: irq_reads.induct)
  case (1 connection p w)
  show ?case
  proof (cases "Read connection 1 w")
    case (Finishes a w1)
    note less = Read_answers [OF Finishes]
    show ?thesis
    proof (cases "rc a > 0")
      case True
      with "1.prems" Finishes obtain p1 where p1: "arm_exception p (word_of_int (stored a)) = Some p1"
        "irq_reads connection p1 w1 = Some (q, Finishes () w')"
        by (subst (asm) irq_reads.simps) (auto simp: Option.bind_eq_Some_conv)
      from "1.IH" [OF Finishes True p1(1) p1(2)] less show ?thesis by simp
    next
      case False
      with "1.prems" Finishes less show ?thesis by (subst (asm) irq_reads.simps) auto
    qed
  qed (use "1.prems" in \<open>subst (asm) irq_reads.simps, simp\<close>)+
qed

function irq_serves :: "int \<Rightarrow> arm_core_data \<Rightarrow> world \<Rightarrow> (arm_core_data \<times> unit sys_outcome) option" where
  "irq_serves socket p w =
     (case Accept socket w of
        Finishes connection w \<Rightarrow>
          (case irq_reads connection p w of
             None \<Rightarrow> None
           | Some (p, Finishes u w) \<Rightarrow>
               (case sys ''shutdown'' [connection, SHUT_RDWR] w of
                  Finishes a w \<Rightarrow> irq_serves socket p w
                | Dies d s w \<Rightarrow> Some (p, Dies d s w)
                | Blocks w \<Rightarrow> Some (p, Blocks w))
           | Some (p, Dies d s w) \<Rightarrow> Some (p, Dies d s w)
           | Some (p, Blocks w) \<Rightarrow> Some (p, Blocks w))
      | Dies d s w \<Rightarrow> Some (p, Dies d s w)
      | Blocks w \<Rightarrow> Some (p, Blocks w))"
  by pat_completeness auto
termination
  by (relation "measure (\<lambda>(socket, p, w). length (answers w))")
    (auto dest!: Accept_answers irq_reads_answers sys_answers)

declare irq_serves.simps [simp del]

text \<open>The loop over the connections does not return: the code after it is never reached.\<close>

definition irq_listener :: "u16 \<Rightarrow> arm_core_data \<Rightarrow> world \<Rightarrow> (arm_core_data \<times> unit sys_outcome) option" where
  "irq_listener irq_port p w =
     (case create_server irq_port w of
        Finishes (socket, port) w \<Rightarrow> irq_serves socket p w
      | Dies d s w \<Rightarrow> Some (p, Dies d s w)
      | Blocks w \<Rightarrow> Some (p, Blocks w))"

subsection \<open>The sender of interrupts\<close>

definition send_irq_connection :: "string \<Rightarrow> string \<Rightarrow> u8 \<Rightarrow> int io" where
  "send_irq_connection host port irq =
     io_bind (Socket PF_INET SOCK_STREAM 0) (\<lambda>sock.
     io_bind (Setsockopt sock SOL_SOCKET SO_REUSEADDR 1 4) (\<lambda>_.
     io_bind (Gethostbyname host) (\<lambda>address.
       let addr = \<lparr>sin_family = AF_INET, sin_port = htons (word_of_int (atoi port)), s_addr = address\<rparr> in
     io_bind (Connect sock addr 16) (\<lambda>_.
     io_bind (Write sock [uint irq] 1) (\<lambda>_.
     io_bind (sys ''shutdown'' [sock, SHUT_RDWR]) (\<lambda>_.
     io_bind (sys ''close'' [sock]) (\<lambda>_. io_return 0)))))))"

text \<open>The status of the program.\<close>

definition send_irq_program :: "string list \<Rightarrow> int io" where
  "send_irq_program argv =
     (case send_irq_main argv of
        Exits_with s \<Rightarrow> io_return s
      | Sends irq \<Rightarrow> send_irq_connection (argv ! 1) (argv ! 2) irq)"

subsection \<open>What a server does\<close>

definition server_address :: "u16 \<Rightarrow> sockaddr_in" where
  "server_address port = \<lparr>sin_family = AF_INET, sin_port = htons port, s_addr = 0\<rparr>"

definition server_calls :: "int \<Rightarrow> u16 \<Rightarrow> (string \<times> int list) list" where
  "server_calls s port =
     [(''socket'', [PF_INET, SOCK_STREAM, 0]), (''setsockopt'', [s, SOL_SOCKET, SO_REUSEADDR, 1, 4]),
      (''bind'', s # sockaddr_args (server_address port) @ [16]), (''getsockname'', [s]),
      (''listen'', [s, 1])]"

lemma create_server_result:
  assumes "answers w = [a1, a2, a3, a4, a5] @ rest"
  shows "result_of (create_server port w) =
    (if rc a1 < 0 then Ends (Unix_error ''Socket error'' (err a1)) 0
     else if rc a2 < 0 then Ends (Unix_error ''Setsockopt error'' (err a2)) 0
     else if rc a3 < 0 then Ends (Unix_error ''Bind error'' (err a3)) 0
     else if rc a5 < 0 then Ends (Unix_error ''Listen error'' (err a5)) 0
     else Gives (rc a1, if rc a4 = 0 then ntohs (word_of_int (stored a4)) else port))"
  using assms
  by (simp add: create_server_def Socket_def Setsockopt_def Bind_def Listen_def io_defs)

lemma create_server_runs:
  assumes "answers w = [a1, a2, a3, a4, a5] @ rest" "0 \<le> rc a1" "0 \<le> rc a2" "0 \<le> rc a3" "0 \<le> rc a5"
  shows "create_server port w =
    Finishes (rc a1, if rc a4 = 0 then ntohs (word_of_int (stored a4)) else port)
      (w\<lparr>answers := rest, calls := calls w @ server_calls (rc a1) port, errno := err a5\<rparr>)"
  using assms
  by (simp add: create_server_def Socket_def Setsockopt_def Bind_def Listen_def io_defs
      server_calls_def server_address_def)

subsection \<open>Interrupts through connections\<close>

fun exceptions :: "arm_core_data \<Rightarrow> u8 list \<Rightarrow> arm_core_data option" where
  "exceptions p [] = Some p"
| "exceptions p (e # es) = do { p \<leftarrow> arm_exception p e; exceptions p es }"

lemma exceptions_append:
  "exceptions p (es @ fs) = do { p \<leftarrow> exceptions p es; exceptions p fs }"
  by (induction es arbitrary: p) (auto split: Option.bind_splits)

definition read_byte :: "u8 \<Rightarrow> answer" where
  "read_byte b = \<lparr>rc = 1, err = 0, stored = uint b\<rparr>"

definition succeeds :: "int \<Rightarrow> answer" where
  "succeeds r = \<lparr>rc = r, err = 0, stored = 0\<rparr>"

text \<open>The answers of a connection: accepted, its bytes, its end, shut down.\<close>

definition connection_answers :: "int \<times> u8 list \<Rightarrow> answer list" where
  "connection_answers c = succeeds (fst c) # map read_byte (snd c) @ [succeeds 0, succeeds 0]"

lemma Read_run:
  assumes "answers w = a # as"
  shows "Read fd n w =
    (let w' = w\<lparr>calls := calls w @ [(''read'', [fd, n])], answers := as, errno := err a\<rparr> in
     if rc a < 0 then Dies (Unix_error ''Read error'' (err a)) 0 w' else Finishes a w')"
  using assms by (simp add: Read_def io_defs)

lemma Accept_run:
  assumes "answers w = a # as"
  shows "Accept s w =
    (let w' = w\<lparr>calls := calls w @ [(''accept'', [s])], answers := as, errno := err a\<rparr> in
     if rc a < 0 then Dies (Unix_error ''Accept error'' (err a)) 0 w' else Finishes (rc a) w')"
  using assms by (simp add: Accept_def io_defs)

lemma irq_reads_bytes:
  assumes "answers w = map read_byte bs @ rest" "exceptions p bs = Some q"
  shows "\<exists>w'. answers w' = rest \<and> irq_reads connection p w = irq_reads connection q w'"
  using assms
proof (induction bs arbitrary: p w)
  case Nil
  then show ?case by auto
next
  case (Cons b bs)
  then obtain p1 where p1: "arm_exception p b = Some p1" "exceptions p1 bs = Some q"
    by (auto simp: Option.bind_eq_Some_conv)
  let ?w = "w\<lparr>calls := calls w @ [(''read'', [connection, 1])], answers := map read_byte bs @ rest, errno := 0\<rparr>"
  have "Read connection 1 w = Finishes (read_byte b) ?w"
    using Cons.prems(1) by (simp add: Read_run read_byte_def)
  then have "irq_reads connection p w = irq_reads connection p1 ?w"
    using p1(1) by (subst irq_reads.simps) (simp add: read_byte_def)
  moreover have "\<exists>w'. answers w' = rest \<and> irq_reads connection p1 ?w = irq_reads connection q w'"
    using p1(2) by (intro Cons.IH) simp_all
  ultimately show ?case by simp
qed

lemma irq_serves_connection:
  assumes "answers w = connection_answers c @ rest" "0 \<le> fst c" "exceptions p (snd c) = Some q"
  shows "\<exists>w'. answers w' = rest \<and> irq_serves socket p w = irq_serves socket q w'"
proof -
  let ?w1 = "w\<lparr>calls := calls w @ [(''accept'', [socket])],
    answers := map read_byte (snd c) @ succeeds 0 # succeeds 0 # rest, errno := 0\<rparr>"
  have acc: "Accept socket w = Finishes (fst c) ?w1"
    using assms(1,2) by (simp add: Accept_run connection_answers_def succeeds_def)
  obtain w2 where w2: "answers w2 = succeeds 0 # succeeds 0 # rest"
    "irq_reads (fst c) p ?w1 = irq_reads (fst c) q w2"
    using irq_reads_bytes [of ?w1 "snd c" "succeeds 0 # succeeds 0 # rest" p q "fst c"] assms(3) by auto
  let ?w3 = "w2\<lparr>calls := calls w2 @ [(''read'', [fst c, 1])], answers := succeeds 0 # rest, errno := 0\<rparr>"
  have "Read (fst c) 1 w2 = Finishes (succeeds 0) ?w3"
    using w2(1) by (simp add: Read_run succeeds_def)
  then have rd: "irq_reads (fst c) p ?w1 = Some (q, Finishes () ?w3)"
    unfolding w2(2) by (subst irq_reads.simps) (simp add: succeeds_def)
  let ?w4 = "?w3\<lparr>calls := calls ?w3 @ [(''shutdown'', [fst c, SHUT_RDWR])], answers := rest, errno := 0\<rparr>"
  have "sys ''shutdown'' [fst c, SHUT_RDWR] ?w3 = Finishes (succeeds 0) ?w4"
    by (simp add: sys_def succeeds_def)
  with acc rd have "irq_serves socket p w = irq_serves socket q ?w4"
    by (subst irq_serves.simps) simp
  then show ?thesis by (intro exI [of _ ?w4]) simp
qed

lemma irq_serves_connections:
  assumes "answers w = concat (map connection_answers cs) @ rest" "\<forall>c \<in> set cs. 0 \<le> fst c"
    and "exceptions p (concat (map snd cs)) = Some q"
  shows "\<exists>w'. answers w' = rest \<and> irq_serves socket p w = irq_serves socket q w'"
  using assms
proof (induction cs arbitrary: p w)
  case Nil
  then show ?case by auto
next
  case (Cons c cs)
  then obtain p1 where p1: "exceptions p (snd c) = Some p1" "exceptions p1 (concat (map snd cs)) = Some q"
    by (auto simp: exceptions_append Option.bind_eq_Some_conv)
  with irq_serves_connection [of w c "concat (map connection_answers cs) @ rest" p p1 socket] Cons.prems
  obtain w1 where w1: "answers w1 = concat (map connection_answers cs) @ rest"
    "irq_serves socket p w = irq_serves socket p1 w1" by auto
  with Cons.IH [OF w1(1) _ p1(2)] Cons.prems(2) show ?case by auto
qed

text \<open>Where the answers end, the listener waits for a client; a failed read ends the process.\<close>

lemma irq_serves_waits: "answers w = [] \<Longrightarrow> \<exists>w'. irq_serves socket p w = Some (p, Blocks w')"
  by (subst irq_serves.simps) (simp add: Accept_def io_defs)

lemma irq_serves_dies:
  assumes "answers w = succeeds c # map read_byte bs @ a # rest" "0 \<le> c" "rc a < 0"
    and "exceptions p bs = Some q"
  shows "\<exists>w'. irq_serves socket p w = Some (q, Dies (Unix_error ''Read error'' (err a)) 0 w')"
proof -
  let ?w1 = "w\<lparr>calls := calls w @ [(''accept'', [socket])], answers := map read_byte bs @ a # rest, errno := 0\<rparr>"
  have acc: "Accept socket w = Finishes c ?w1"
    using assms(1,2) by (simp add: Accept_run succeeds_def)
  obtain w2 where w2: "answers w2 = a # rest" "irq_reads c p ?w1 = irq_reads c q w2"
    using irq_reads_bytes [of ?w1 bs "a # rest" p q c] assms(4) by auto
  obtain w3 where "Read c 1 w2 = Dies (Unix_error ''Read error'' (err a)) 0 w3"
    using w2(1) assms(3) by (simp add: Read_run Let_def)
  then have "irq_reads c p ?w1 = Some (q, Dies (Unix_error ''Read error'' (err a)) 0 w3)"
    unfolding w2(2) by (subst irq_reads.simps) simp
  with acc show ?thesis by (subst irq_serves.simps) simp
qed

text \<open>Of the exceptions only the reset changes the core.\<close>

lemma exceptions_reset:
  "exceptions p es = Some (if 1 \<in> set es then p\<lparr>reg := (reg p)\<lparr>cpsr := 0\<rparr>\<rparr> else p)"
proof (induction es arbitrary: p)
  case (Cons e es)
  show ?case
    by (cases "e = 1") (simp_all add: Cons arm_exception_reset arm_exception_other)
qed simp

text \<open>A server that was created.\<close>

definition server_answers :: "answer list \<Rightarrow> bool" where
  "server_answers as \<longleftrightarrow> length as = 5 \<and> (\<forall>i \<in> {0, 1, 2, 4}. 0 \<le> rc (as ! i))"

lemma create_server_answers:
  assumes "server_answers as" "answers w = as @ rest"
  obtains s pt w' where "create_server port w = Finishes (s, pt) w'" "answers w' = rest"
proof -
  from assms(1) obtain a1 a2 a3 a4 a5 where "as = [a1, a2, a3, a4, a5]"
    by (auto simp: server_answers_def numeral_eq_Suc length_Suc_conv)
  with assms create_server_runs [of w a1 a2 a3 a4 a5 rest port] that show ?thesis
    by (simp add: server_answers_def)
qed

lemma irq_listener_connection:
  assumes "server_answers as" "\<forall>c \<in> set cs. 0 \<le> fst c"
    and "answers w = as @ concat (map connection_answers cs)"
  shows "\<exists>w'. irq_listener port p w =
    Some (if 1 \<in> set (concat (map snd cs)) then p\<lparr>reg := (reg p)\<lparr>cpsr := 0\<rparr>\<rparr> else p, Blocks w')"
proof -
  let ?q = "if 1 \<in> set (concat (map snd cs)) then p\<lparr>reg := (reg p)\<lparr>cpsr := 0\<rparr>\<rparr> else p"
  obtain s pt w1 where
    w1: "create_server port w = Finishes (s, pt) w1" "answers w1 = concat (map connection_answers cs)"
    by (rule create_server_answers [OF assms(1,3)])
  then have "answers w1 = concat (map connection_answers cs) @ []" by simp
  from irq_serves_connections [OF this assms(2) exceptions_reset] obtain w2 where
    "answers w2 = []" "irq_serves s p w1 = irq_serves s ?q w2" by blast
  with irq_serves_waits w1(1) show ?thesis unfolding irq_listener_def by fastforce
qed

lemma irq_listener_dies:
  assumes "server_answers as" "\<forall>c \<in> set cs. 0 \<le> fst c" "0 \<le> c" "rc a < 0"
    and "answers w = as @ concat (map connection_answers cs) @ succeeds c # map read_byte bs @ a # rest"
  shows "\<exists>w'. irq_listener port p w =
    Some (if 1 \<in> set (concat (map snd cs) @ bs) then p\<lparr>reg := (reg p)\<lparr>cpsr := 0\<rparr>\<rparr> else p,
      Dies (Unix_error ''Read error'' (err a)) 0 w')"
proof -
  let ?q = "if 1 \<in> set (concat (map snd cs)) then p\<lparr>reg := (reg p)\<lparr>cpsr := 0\<rparr>\<rparr> else p"
  obtain s pt w1 where
    w1: "create_server port w = Finishes (s, pt) w1"
    "answers w1 = concat (map connection_answers cs) @ succeeds c # map read_byte bs @ a # rest"
    by (rule create_server_answers [OF assms(1,5)])
  from irq_serves_connections [OF w1(2) assms(2) exceptions_reset] obtain w2 where
    w2: "answers w2 = succeeds c # map read_byte bs @ a # rest" "irq_serves s p w1 = irq_serves s ?q w2"
    by blast
  have "exceptions ?q bs
      = Some (if 1 \<in> set (concat (map snd cs) @ bs) then p\<lparr>reg := (reg p)\<lparr>cpsr := 0\<rparr>\<rparr> else p)"
    by (simp add: exceptions_reset)
  from irq_serves_dies [OF w2(1) assms(3,4) this] w1(1) w2(2) show ?thesis
    unfolding irq_listener_def by simp
qed

subsection \<open>Sending an interrupt\<close>

lemma send_irq_connection_writes:
  assumes "send_irq_connection host port irq w = Finishes r w'"
  shows "r = 0 \<and> (\<exists>sock. (''write'', [sock, 1, uint irq]) \<in> set (calls w'))"
  using assms
  by (auto simp: send_irq_connection_def Socket_def Setsockopt_def Gethostbyname_def Connect_def
      Write_def io_defs split: list.splits if_splits)

text \<open>
  The interrupt listener raises the exceptions of the bytes it reads, connection after
  connection, of which only resets change the core, and then waits for a client again; but a
  read that fails, as when a client resets its connection, ends the whole simulator, with the
  status of success.
\<close>

lemma interrupts_received:
  assumes "server_answers as" "\<forall>c \<in> set cs. 0 \<le> fst c"
  shows "(answers w = as @ concat (map connection_answers cs) \<longrightarrow>
      (\<exists>w'. irq_listener port p w =
        Some (if 1 \<in> set (concat (map snd cs)) then p\<lparr>reg := (reg p)\<lparr>cpsr := 0\<rparr>\<rparr> else p, Blocks w'))) \<and>
    (answers w = as @ concat (map connection_answers cs) @ succeeds c # map read_byte bs @ a # rest \<and>
      0 \<le> c \<and> rc a < 0 \<longrightarrow>
      (\<exists>w'. irq_listener port p w =
        Some (if 1 \<in> set (concat (map snd cs) @ bs) then p\<lparr>reg := (reg p)\<lparr>cpsr := 0\<rparr>\<rparr> else p,
          Dies (Unix_error ''Read error'' (err a)) 0 w')))"
  using irq_listener_connection [OF assms] irq_listener_dies [OF assms] by blast

subsection \<open>Properties\<close>

text \<open>
  C37: Creating a server makes its five calls in order, for the port asked in network byte
  order, and gives the socket with the port the system says it listens on; each failing call but
  the fourth ends the process with the status of success and a message for that call, and a
  failing fourth is overlooked.
\<close>

lemma server_creation:
  assumes "answers w = [a1, a2, a3, a4, a5] @ rest"
  shows "result_of (create_server port w) =
    (if rc a1 < 0 then Ends (Unix_error ''Socket error'' (err a1)) 0
     else if rc a2 < 0 then Ends (Unix_error ''Setsockopt error'' (err a2)) 0
     else if rc a3 < 0 then Ends (Unix_error ''Bind error'' (err a3)) 0
     else if rc a5 < 0 then Ends (Unix_error ''Listen error'' (err a5)) 0
     else Gives (rc a1, if rc a4 = 0 then ntohs (word_of_int (stored a4)) else port)) \<and>
   (0 \<le> rc a1 \<and> 0 \<le> rc a2 \<and> 0 \<le> rc a3 \<and> 0 \<le> rc a5 \<longrightarrow>
     calls (world_of (create_server port w)) = calls w @ server_calls (rc a1) port \<and>
     answers (world_of (create_server port w)) = rest)"
  using create_server_result [OF assms] create_server_runs [OF assms] by auto

lemma server_creation_witness:
  "result_of (create_server 0 \<lparr>answers = [succeeds 3, succeeds 0, succeeds 0,
      \<lparr>rc = 0, err = 0, stored = 0xD204\<rparr>, succeeds 0], calls = [], errno = 0, h_errno = 0\<rparr>) = Gives (3, 1234)"
proof -
  let ?w = "\<lparr>answers = [succeeds 3, succeeds 0, succeeds 0,
      \<lparr>rc = 0, err = 0, stored = 0xD204\<rparr>, succeeds 0], calls = [], errno = 0, h_errno = 0\<rparr>"
  have a: "answers ?w = [succeeds 3, succeeds 0, succeeds 0, \<lparr>rc = 0, err = 0, stored = 0xD204\<rparr>, succeeds 0] @ []"
    by simp
  have "ntohs (word_of_int 0xD204) = 1234" by code_simp
  with server_creation [OF a, of 0] show ?thesis by (simp add: succeeds_def)
qed

end
