(* ===== verification/Lifecycle.thy ===== *)
theory Lifecycle
  imports Simulator Server
begin

text \<open>
  The whole simulator: what the client sends, through the scanner, as steps of the two threads
  of \<open>Simulator\<close>; and the life of the process around the threads, from the creation of the core
  in \<open>main\<close> to its destruction there once the gdb thread has ended.
\<close>

subsection \<open>The scanner's steps\<close>

lemma sim_handle_error:
  assumes "handle_error d = Some d'" "gdb_at s = Gdb_scanning" "client s = gdb d"
  shows "sim_step\<^sup>*\<^sup>* s (s\<lparr>client := gdb d'\<rparr>)"
proof (cases "buffer d = []")
  case True
  with assms show ?thesis by (cases s) (simp add: handle_error_def)
next
  case False
  with assms have "gdb d' = gdb_require_retransmission (gdb d)"
    by (auto simp: handle_error_def split: if_splits)
  with gdb_rejects [OF assms(2)] assms(3) show ?thesis by auto
qed

lemma sim_token:
  assumes "token_action d t = Some (Scanned d')"
    and "gdb_at s = Gdb_scanning" "holder s = None" "client s = gdb d"
  shows "sim_step\<^sup>*\<^sup>* s (s\<lparr>client := gdb d'\<rparr>)"
proof (cases t)
  case Ack
  with assms show ?thesis by (auto intro: sim_handle_error)
next
  case Resend
  with assms(1) obtain d1 where d1: "handle_error d = Some d1"
    "d' = d1\<lparr>gdb := gdb_transmit_packet (gdb d1)\<rparr>" by (auto simp: Option.bind_eq_Some_conv)
  let ?s = "s\<lparr>client := gdb d1\<rparr>"
  have "sim_step ?s (?s\<lparr>client := gdb_transmit_packet (client ?s)\<rparr>)"
    using assms(2) by (intro gdb_resends) simp
  with sim_handle_error [OF d1(1) assms(2,4)] d1(2) show ?thesis by simp
next
  case (Frame f)
  with assms(1) obtain d1 g where d1: "handle_error d = Some d1"
    "gdb_packet_analysis (gdb d1) f = Some (Done g)" "d' = d1\<lparr>gdb := g\<rparr>"
    by (auto split: Option.bind_splits gdb_result.splits)
  let ?s = "s\<lparr>client := gdb d1\<rparr>"
  have "sim_step\<^sup>*\<^sup>* ?s (?s\<lparr>client := g\<rparr>)"
    using assms(2,3) d1(2) by (intro sim_serves_packet) simp_all
  with sim_handle_error [OF d1(1) assms(2,4)] d1(3) show ?thesis by simp
next
  case (Junk c)
  with assms(1) obtain d1 where d1:
    "(if length (buffer d) > MAX_ERROR_SIZE - 2 then handle_error d else Some d) = Some d1"
    "gdb d' = gdb d1" by (auto simp: add_character_to_error_def Option.bind_eq_Some_conv split: if_splits)
  show ?thesis
  proof (cases "length (buffer d) > MAX_ERROR_SIZE - 2")
    case True
    with d1 have "handle_error d = Some d1" by simp
    from sim_handle_error [OF this assms(2,4)] d1(2) show ?thesis by simp
  next
    case False
    with d1 assms(4) show ?thesis by (cases s) simp
  qed
next
  case (Echo c)
  with assms show ?thesis by (cases s) auto
qed

lemma sim_tokens:
  assumes "scan_tokens d ts = Some (Scanned d')"
    and "gdb_at s = Gdb_scanning" "holder s = None" "client s = gdb d"
  shows "sim_step\<^sup>*\<^sup>* s (s\<lparr>client := gdb d'\<rparr>)"
  using assms
proof (induction ts arbitrary: d s)
  case Nil
  then show ?case by (cases s) simp
next
  case (Cons t ts)
  from Cons.prems(1) obtain d1 where
    d1: "token_action d t = Some (Scanned d1)" "scan_tokens d1 ts = Some (Scanned d')"
    by (auto split: Option.bind_splits scan_result.splits)
  have "sim_step\<^sup>*\<^sup>* s (s\<lparr>client := gdb d1\<rparr>)"
    using d1(1) Cons.prems by (intro sim_token)
  moreover have "sim_step\<^sup>*\<^sup>* (s\<lparr>client := gdb d1\<rparr>) (s\<lparr>client := gdb d1\<rparr>\<lparr>client := gdb d'\<rparr>)"
    using d1(2) Cons.prems by (intro Cons.IH) simp_all
  ultimately show ?case by simp
qed

lemma sim_yylex:
  assumes "yylex d input = Some (Scanned d')"
    and "gdb_at s = Gdb_scanning" "holder s = None" "client s = gdb d"
  shows "sim_step\<^sup>*\<^sup>* s (s\<lparr>client := gdb d'\<rparr>)"
proof -
  from assms(1) obtain d1 where d1: "scan_tokens d (tokens input) = Some (Scanned d1)"
    "handle_error d1 = Some d'"
    by (auto simp: yylex_tokens scan_end_def split: Option.bind_splits scan_result.splits)
  have "sim_step\<^sup>*\<^sup>* s (s\<lparr>client := gdb d1\<rparr>)"
    by (rule sim_tokens [OF d1(1) assms(2,3,4)])
  also have "sim_step\<^sup>*\<^sup>* (s\<lparr>client := gdb d1\<rparr>) (s\<lparr>client := gdb d1\<rparr>\<lparr>client := gdb d'\<rparr>)"
    using assms(2) by (intro sim_handle_error [OF d1(2)]) simp_all
  finally show ?thesis by simp
qed

subsection \<open>The life of the process\<close>

text \<open>
  \<open>main\<close> waits for the gdb thread, destroys the core and the memory, and returns, which ends the
  process whatever the interrupt thread is doing. \<open>Broken\<close> is a write to the destroyed core.
\<close>

datatype main_place = Joining | Arm_destroyed | Memory_destroyed | Ended int | Broken

record program =
  threads :: sim
  serving :: bool
  main_at :: main_place

definition running :: "program \<Rightarrow> bool" where
  "running s \<longleftrightarrow> (case main_at s of Ended r \<Rightarrow> False | Broken \<Rightarrow> False | _ \<Rightarrow> True)"

definition core_destroyed :: "program \<Rightarrow> bool" where
  "core_destroyed s \<longleftrightarrow> main_at s = Arm_destroyed \<or> main_at s = Memory_destroyed"

definition program_initial :: "arm_core_data \<Rightarrow> program" where
  "program_initial p = \<lparr>threads = sim_initial p, serving = True, main_at = Joining\<rparr>"

text \<open>
  Of the steps of the threads, those of the gdb thread leave the place of the interrupt thread,
  those of the interrupt thread change it. An \<open>assert\<close> that fails aborts the process; a failure
  of the calls that create a server, accept a client or read an interrupt exits with status 0.
\<close>

inductive program_step :: "program \<Rightarrow> program \<Rightarrow> bool" where
  gdb_moves: "running s \<Longrightarrow> serving s \<Longrightarrow> sim_step (threads s) t \<Longrightarrow> irq_at t = irq_at (threads s) \<Longrightarrow>
    program_step s (s\<lparr>threads := t\<rparr>)"
| gdb_ends: "running s \<Longrightarrow> serving s \<Longrightarrow> gdb_at (threads s) = Gdb_scanning \<Longrightarrow>
    program_step s (s\<lparr>serving := False\<rparr>)"
| gdb_exits: "running s \<Longrightarrow> serving s \<Longrightarrow> gdb_at (threads s) = Gdb_scanning \<Longrightarrow>
    program_step s (s\<lparr>main_at := Ended 0\<rparr>)"
| gdb_aborts: "running s \<Longrightarrow> serving s \<Longrightarrow> gdb_at (threads s) = Gdb_holds h data \<Longrightarrow>
    run_handler h (client (threads s)) data = Some Aborts \<Longrightarrow> program_step s (s\<lparr>main_at := Ended 134\<rparr>)"
| irq_moves: "running s \<Longrightarrow> sim_step (threads s) t \<Longrightarrow> irq_at t \<noteq> irq_at (threads s) \<Longrightarrow>
    \<not> (core_destroyed s \<and> irq_at (threads s) = Irq_holds (word_of_int RESET)) \<Longrightarrow>
    program_step s (s\<lparr>threads := t\<rparr>)"
| irq_breaks: "core_destroyed s \<Longrightarrow> irq_at (threads s) = Irq_holds (word_of_int RESET) \<Longrightarrow>
    program_step s (s\<lparr>main_at := Broken\<rparr>)"
| irq_exits: "running s \<Longrightarrow> irq_at (threads s) = Irq_reading \<Longrightarrow> program_step s (s\<lparr>main_at := Ended 0\<rparr>)"
| main_joins: "main_at s = Joining \<Longrightarrow> \<not> serving s \<Longrightarrow> program_step s (s\<lparr>main_at := Arm_destroyed\<rparr>)"
| main_destroys: "main_at s = Arm_destroyed \<Longrightarrow> program_step s (s\<lparr>main_at := Memory_destroyed\<rparr>)"
| main_returns: "main_at s = Memory_destroyed \<Longrightarrow> program_step s (s\<lparr>main_at := Ended 0\<rparr>)"

inductive_cases program_stepE: "program_step s t"

inductive program_reachable :: "arm_core_data \<Rightarrow> program \<Rightarrow> bool" for p where
  program_start: "program_reachable p (program_initial p)"
| program_next: "program_reachable p s \<Longrightarrow> program_step s t \<Longrightarrow> program_reachable p t"

text \<open>The threads of the process are in a state the threads by themselves reach.\<close>

lemma program_threads: "program_reachable p s \<Longrightarrow> sim_reachable p (threads s)"
proof (induction rule: program_reachable.induct)
  case program_start
  show ?case by (simp add: program_initial_def sim_start)
next
  case (program_next s t)
  from program_next.hyps(2) program_next.IH show ?case
    by (cases rule: program_step.cases) (auto intro: sim_next)
qed

lemma serving_core_alive: "program_reachable p s \<Longrightarrow> serving s \<Longrightarrow> \<not> core_destroyed s \<and> main_at s \<noteq> Broken"
proof (induction rule: program_reachable.induct)
  case program_start
  show ?case by (simp add: program_initial_def core_destroyed_def)
next
  case (program_next s t)
  from program_next.hyps(2) program_next.IH program_next.prems show ?case
    by (cases rule: program_step.cases) (auto simp: core_destroyed_def)
qed

text \<open>Once the client is gone, \<open>main\<close> ends the process by its own steps.\<close>

lemma main_ends:
  assumes "running s" "\<not> serving s"
  shows "program_step\<^sup>*\<^sup>* s (s\<lparr>main_at := Ended 0\<rparr>)"
proof -
  let ?m = "\<lambda>m. s\<lparr>main_at := m\<rparr>"
  have m: "program_step\<^sup>*\<^sup>* (?m Memory_destroyed) (?m (Ended 0))"
    using main_returns [of "?m Memory_destroyed"] by auto
  have a: "program_step\<^sup>*\<^sup>* (?m Arm_destroyed) (?m (Ended 0))"
    using main_destroys [of "?m Arm_destroyed"] m by (auto intro: converse_rtranclp_into_rtranclp)
  have j: "program_step\<^sup>*\<^sup>* (?m Joining) (?m (Ended 0))"
    using main_joins [of "?m Joining"] a assms(2) by (auto intro: converse_rtranclp_into_rtranclp)
  from assms(1) consider "main_at s = Memory_destroyed" | "main_at s = Arm_destroyed" | "main_at s = Joining"
    by (auto simp: running_def split: main_place.splits)
  then show ?thesis
  proof cases
    case 1
    then have "?m Memory_destroyed = s" by (cases s) simp
    with m show ?thesis by simp
  next
    case 2
    then have "?m Arm_destroyed = s" by (cases s) simp
    with a show ?thesis by simp
  next
    case 3
    then have "?m Joining = s" by (cases s) simp
    with j show ?thesis by simp
  qed
qed

text \<open>A reset that arrives as the client leaves is written to the destroyed core.\<close>

lemma broken_reachable: "\<exists>s. program_reachable p s \<and> main_at s = Broken"
proof -
  let ?reset = "word_of_int RESET :: u8"
  let ?t1 = "sim_initial p\<lparr>irq_at := Irq_wants ?reset\<rparr>"
  let ?t2 = "?t1\<lparr>holder := Some Irq_thread, irq_at := Irq_holds ?reset\<rparr>"
  let ?s0 = "program_initial p"
  let ?s1 = "?s0\<lparr>threads := ?t1\<rparr>"
  let ?s2 = "?s1\<lparr>threads := ?t2\<rparr>"
  let ?s3 = "?s2\<lparr>serving := False\<rparr>"
  let ?s4 = "?s3\<lparr>main_at := Arm_destroyed\<rparr>"
  have t: "sim_step (sim_initial p) ?t1" "sim_step ?t1 ?t2"
    using irq_reads [of "sim_initial p" ?reset] irq_locks [of ?t1 ?reset] by (simp_all add: sim_initial_def)
  have 1: "program_step ?s0 ?s1"
    using irq_moves [of ?s0 ?t1] t(1)
    by (simp add: program_initial_def running_def core_destroyed_def sim_initial_def)
  have 2: "program_step ?s1 ?s2"
    using irq_moves [of ?s1 ?t2] t(2) by (simp add: program_initial_def running_def core_destroyed_def)
  have 3: "program_step ?s2 ?s3"
    using gdb_ends [of ?s2] by (simp add: program_initial_def running_def sim_initial_def)
  have 4: "program_step ?s3 ?s4"
    using main_joins [of ?s3] by (simp add: program_initial_def)
  have 5: "program_step ?s4 (?s4\<lparr>main_at := Broken\<rparr>)"
    using irq_breaks [of ?s4] by (simp add: core_destroyed_def)
  have "program_reachable p (?s4\<lparr>main_at := Broken\<rparr>)"
    by (rule program_next [OF program_next [OF program_next [OF program_next [OF program_next
      [OF program_start 1] 2] 3] 4] 5])
  moreover have "main_at (?s4\<lparr>main_at := Broken\<rparr>) = Broken" by simp
  ultimately show ?thesis by blast
qed

subsection \<open>A program that loops\<close>

text \<open>A branch to itself at address 0: the core keeps its place, and only its cycles count.\<close>

abbreviation loop_core :: "u32 \<Rightarrow> arm_core_data" where
  "loop_core n \<equiv> (sample_core [0xEAFFFFFE] [])\<lparr>cycle_count := n\<rparr>"

lemma loop_core_step: "arm_step (loop_core n) = Some (0, loop_core (n + 1))"
  by code_simp

lemma loop_core_instruction: "next_instruction (loop_core n) k = Some 0xEAFFFFFE"
  by code_simp

lemma loop_core_continue: "arm g = loop_core n \<Longrightarrow> cont g data = None"
proof -
  assume g: "arm g = loop_core n"
  have "\<not> breakpoint 0xEAFFFFFE" by code_simp
  then have "cont_loop g None = None"
    using g by (intro cont_loop_diverges [where I = "\<lambda>p. \<exists>n. p = loop_core n"])
      (auto simp: loop_core_step loop_core_instruction)
  then show ?thesis by (simp add: cont_def)
qed

lemma accepts_continue: "gdb_accept g ''$c#63'' = Some (Runs (gdb_send_ack g) Cont '''')"
proof -
  have "format_02x 0x63 = ''63''" by code_simp
  then have "scan_x None ''63'' = Some (ucast (0x63 :: u8), '''')"
    using scan_format_02x_unbounded [of "[]" "0x63"] by simp
  moreover have "checksum ''c'' = 0x63" "gdb_init CHR ''c'' = Some Cont"
    by (simp_all add: checksum_def byte_of_def gdb_init_def)
  ultimately show ?thesis by (simp add: gdb_accept_def Let_def)
qed

text \<open>The gdb thread inside the lock, about to run it.\<close>

lemma stuck_in_loop:
  "\<exists>s. sim_reachable (loop_core 0) s \<and> gdb_at s = Gdb_holds Cont '''' \<and> arm (client s) = loop_core 0"
proof -
  let ?s0 = "sim_initial (loop_core 0)"
  let ?g = "gdb_send_ack (client ?s0)"
  let ?s1 = "?s0\<lparr>client := ?g, gdb_at := Gdb_wants Cont ''''\<rparr>"
  let ?s2 = "?s1\<lparr>holder := Some Gdb_thread, gdb_at := Gdb_holds Cont ''''\<rparr>"
  have "gdb_accept (client ?s0) ''$c#63'' = Some (Runs ?g Cont '''')"
    by (rule accepts_continue)
  then have "sim_step ?s0 ?s1" "sim_step ?s1 ?s2"
    using gdb_accepts [of ?s0] gdb_locks [of ?s1] by (simp_all add: sim_initial_def)
  then have "sim_reachable (loop_core 0) ?s2" by (blast intro: sim_start sim_next)
  then show ?thesis
    by (intro exI [of _ ?s2]) (simp add: sim_initial_def gdb_init_data_def gdb_send_ack_def Rio_writen_def)
qed

subsection \<open>Properties\<close>

text \<open>
  C32: A session of frames with any noise between them and after them is scanned into the
  requests of its frames, served in order, with one request for retransmission for each 1023
  bytes of noise begun; and what the scanner does as one function, the gdb thread does in steps
  through the lock.
\<close>

lemma sessions_are_served:
  assumes "\<forall>x \<in> set xs. clean x" "noise tail"
    and "gdb_at s = Gdb_scanning" "holder s = None"
    and "serve_all (client s) xs = Some (Done g)"
  shows "\<exists>g'. g' = requests ((length tail + 1022) div 1023) g \<and>
    yylex \<lparr>gdb = client s, buffer = [], echoed = []\<rparr> (session xs @ tail) =
      Some (Scanned \<lparr>gdb = g', buffer = [], echoed = []\<rparr>) \<and>
    sim_step\<^sup>*\<^sup>* s (s\<lparr>client := g'\<rparr>)"
proof -
  let ?d = "\<lparr>gdb = client s, buffer = [], echoed = []\<rparr>"
  let ?g = "requests ((length tail + 1022) div 1023) g"
  have "yylex ?d (session xs @ tail) = Some (Scanned (?d\<lparr>gdb := ?g\<rparr>))"
    using yylex_session [OF assms(1,2), of ?d] assms(5) by simp
  with sim_yylex [OF this assms(3,4)] show ?thesis by simp
qed

lemma sessions_are_served_witness:
  "\<exists>g. sim_step\<^sup>*\<^sup>* (sim_initial (sample_core [0] [])) ((sim_initial (sample_core [0] []))\<lparr>client := g\<rparr>) \<and>
    sent g = [''-'', ''+'', frame '''']"
proof -
  let ?s = "sim_initial (sample_core [0] [])"
  let ?g = "reply (gdb_send_ack (requests 1 (client ?s))) ''''"
  have v: "serve_all (client ?s) [(''ab'', '''')] = Some (Done ?g)"
    by (simp add: dispatch_def send_reply)
  have "\<forall>x \<in> set [(''ab'', '''')]. clean x" "noise ''''" by (simp_all add: clean_def noise_def)
  from sessions_are_served [OF this _ _ v] have "sim_step\<^sup>*\<^sup>* ?s (?s\<lparr>client := ?g\<rparr>)"
    by (simp add: sim_initial_def)
  moreover have "sent ?g = [''-'', ''+'', frame '''']"
    by (simp add: sim_initial_def gdb_init_data_def gdb_send_ack_def requests_def Rio_writen_def)
  ultimately show ?thesis by blast
qed

text \<open>
  C34: While the gdb thread serves a client the core is not destroyed, and once it has ended
  main ends the process by its own steps; but the interrupt thread is not waited for, so that a
  reset can be written to the core after its destruction.
\<close>

lemma core_lifetime:
  assumes "program_reachable p s"
  shows "(serving s \<longrightarrow> \<not> core_destroyed s \<and> main_at s \<noteq> Broken) \<and>
    (running s \<and> \<not> serving s \<longrightarrow> program_step\<^sup>*\<^sup>* s (s\<lparr>main_at := Ended 0\<rparr>)) \<and>
    sim_reachable p (threads s) \<and> (\<exists>t. program_reachable p t \<and> main_at t = Broken)"
  using assms serving_core_alive main_ends program_threads broken_reachable by blast

lemma core_lifetime_witness:
  "\<not> core_destroyed (program_initial (sample_core [0] [])) \<and>
   (\<exists>t. program_reachable (sample_core [0] []) t \<and> main_at t = Broken)"
  using core_lifetime [OF program_start, of "sample_core [0] []"] by (simp add: program_initial_def)

end
