(* ===== verification/Debugger.thy ===== *)
theory Debugger
  imports Session Output Lifecycle
begin

text \<open>
  The simulator as a debugger of the reference machine: an abstract specification of what the
  requests of a client mean on the states of the theory \<open>Isa\<close>, and the proof that the scanner,
  the packets, the handlers and the core implement it, for any list of commands, and that the
  threads of the simulator do.
\<close>

subsection \<open>The abstract debugger\<close>

datatype command =
    Load u32 "u8 list"               \<comment> \<open>X: write bytes\<close>
  | Show u32 nat                     \<comment> \<open>m: read bytes\<close>
  | Show_registers                   \<comment> \<open>g\<close>
  | Show_register nat                \<comment> \<open>p\<close>
  | Set_registers "u32 list"         \<comment> \<open>G\<close>
  | Set_register nat u32             \<comment> \<open>P\<close>
  | Continue                         \<comment> \<open>c\<close>
  | Single_step                      \<comment> \<open>s\<close>
  | Status                           \<comment> \<open>?\<close>
  | Query string                     \<comment> \<open>q\<close>
  | Select_thread char bool          \<comment> \<open>H, all threads or any\<close>
  | Again                            \<comment> \<open>-: send the last packet again\<close>

text \<open>Running to the first breakpoint, within the limits, in at most so many steps.\<close>

fun isa_until :: "nat \<Rightarrow> isa \<Rightarrow> isa option" where
  "isa_until 0 s = (if isa_at_breakpoint s then Some s else None)"
| "isa_until (Suc n) s =
     (if isa_at_breakpoint s then Some s
      else if isa_limits s then do { t \<leftarrow> isa_step s; isa_until n t }
      else None)"

definition shown :: "isa \<Rightarrow> u32 \<Rightarrow> nat \<Rightarrow> u8 list option" where
  "shown s b n = those (map (\<lambda>i. imem s (b + word_of_nat i)) [0..<n])"

text \<open>
  The code compares the address of a binary write, in bytes, with the size in words, and refuses
  it when it is not below.
\<close>

definition refused :: "isa \<Rightarrow> u32 \<Rightarrow> bool" where
  "refused s a \<longleftrightarrow> imem s a = None \<or> a < 0x40000000 \<and> imem s (4 * a) = None"

definition writable :: "isa \<Rightarrow> u32 \<Rightarrow> bool" where
  "writable s a \<longleftrightarrow> a < 0x40000000 \<and> imem s (4 * a) \<noteq> None"

definition isa_registers_text :: "isa \<Rightarrow> string" where
  "isa_registers_text s =
     concat (map (write_uint32 True) (ireg s)) @
     write_uint32 True (((ipc s + 4) AND 0xFFFFFFFD) - 4) @
     concat (replicate 25 ''xxxxxxxx'') @ write_uint32 True (ipc s)"

definition query_reply :: "string \<Rightarrow> string" where
  "query_reply q =
     (if q = ''Offsets'' then ''Text=0;Data=0;Bss=0''
      else if take 9 q = ''Supported'' then ''PacketSize=400''
      else if q = ''TStatus'' then ''T0;tnotrun:0'' else [])"

text \<open>The answer to a command, with the new state. Setting all registers sets the program counter to the last word.\<close>

fun execute :: "nat \<Rightarrow> command \<Rightarrow> isa \<Rightarrow> (string \<times> isa) option" where
  "execute fuel (Load a bs) s =
     (if bs = [] \<or> 2 ^ 32 \<le> uint a + int (length bs) then None
      else if refused s a then Some (''E02'', s)
      else if writable s a \<and> shown s a (length bs) \<noteq> None then Some (''OK'', isa_loaded s a bs)
      else None)"
| "execute fuel (Show b n) s =
     (if 0 < n \<and> int n \<le> 509 \<and> uint b + int n < 2 ^ 32
      then map_option (\<lambda>bs. (concat (map format_02x bs), s)) (shown s b n) else None)"
| "execute fuel Show_registers s = Some (isa_registers_text s, s)"
| "execute fuel (Show_register k) s = (if k < 10 then Some (write_uint32 True (ireg s ! k), s) else None)"
| "execute fuel (Set_registers ws) s =
     (if length ws = 42 then Some (''OK'', s\<lparr>ireg := take 15 ws, ipc := ws ! 41\<rparr>) else None)"
| "execute fuel (Set_register k v) s = (if k < 16 then Some (''OK'', isa_write k v s) else None)"
| "execute fuel Continue s = map_option (\<lambda>t. (''S05'', t)) (isa_until fuel s)"
| "execute fuel Single_step s = (if isa_limits s then map_option (\<lambda>t. (''S05'', t)) (isa_step s) else None)"
| "execute fuel Status s = Some (''S05'', s)"
| "execute fuel (Query q) s =
     (if \<forall>c \<in> set q. in_frame c \<and> c \<noteq> NUL then Some (query_reply q, s) else None)"
| "execute fuel (Select_thread c any) s =
     (if in_frame c then Some (if c = CHR ''c'' \<or> c = CHR ''g'' then ''OK'' else ''E01'', s) else None)"
| "execute fuel Again s = None"

text \<open>A session: what is sent, the final state, and the last packet. Each request is acknowledged.\<close>

fun debug_run :: "nat \<Rightarrow> command list \<Rightarrow> isa \<Rightarrow> string \<Rightarrow> (string list \<times> isa \<times> string) option" where
  "debug_run fuel [] s pk = Some ([], s, pk)"
| "debug_run fuel (c # cs) s pk =
     (if c = Again
      then map_option (\<lambda>(out, r). (pk # out, r)) (debug_run fuel cs s pk)
      else do {
        (payload, t) \<leftarrow> execute fuel c s;
        map_option (\<lambda>(out, r). (''+'' # frame payload # out, r)) (debug_run fuel cs t (frame payload))
      })"

subsection \<open>The messages of the client\<close>

fun request :: "command \<Rightarrow> string" where
  "request (Load a bs) = load_request a bs"
| "request (Show b n) = read_request b n"
| "request Show_registers = ''g''"
| "request (Show_register k) = [CHR ''p'', hex_lower k]"
| "request (Set_registers ws) = CHR ''G'' # words_text ws"
| "request (Set_register k v) = CHR ''P'' # hex_lower k # CHR ''='' # write_uint32 True v"
| "request Continue = ''c''"
| "request Single_step = ''s''"
| "request Status = ''?''"
| "request (Query q) = CHR ''q'' # q"
| "request (Select_thread c any) = CHR ''H'' # c # (if any then ''0'' else ''-1'')"
| "request Again = []"

definition message :: "command \<Rightarrow> string" where
  "message c = (if c = Again then ''-'' else frame (request c))"

lemma be_simulator [simp]: "BIG_ENDIAN_SIMULATOR = True"
  by (simp add: BIG_ENDIAN_SIMULATOR_def)

lemma request_in_frame:
  assumes "execute fuel c s \<noteq> None"
  shows "\<forall>x \<in> set (request c). in_frame x"
proof (cases c)
  case (Set_registers ws)
  then show ?thesis using write_uint32_in_frame by (auto simp: words_text_def in_frame_def)
next
  case (Set_register k v)
  with assms hex_in_frame [of k] write_uint32_in_frame [of True v] show ?thesis
    by (auto simp: in_frame_def split: if_splits)
next
  case (Show_register k)
  with assms hex_in_frame [of k] show ?thesis by (auto simp: in_frame_def split: if_splits)
next
  case (Query q)
  with assms show ?thesis by (auto simp: in_frame_def split: if_splits)
next
  case (Select_thread x any)
  with assms show ?thesis by (auto simp: in_frame_def split: if_splits)
qed (use request_clean in \<open>auto simp: in_frame_def\<close>)

subsection \<open>Each command\<close>

definition implements :: "gdb_data \<Rightarrow> isa \<Rightarrow> bool" where
  "implements g s \<longleftrightarrow> wf_core (arm g) \<and> isa_of (arm g) = s \<and> target_exception g = 0"

lemma those_eq: "those xs = Some ys \<longleftrightarrow> xs = map Some ys"
proof (induction xs arbitrary: ys)
  case (Cons x xs)
  then show ?case by (cases x; cases ys) auto
qed auto

lemma shown_bytes:
  assumes "shown s b n = Some out"
  shows "length out = n" "\<forall>i < n. imem s (b + word_of_nat i) = Some (out ! i)"
proof -
  from assms have eq: "map (\<lambda>i. imem s (b + word_of_nat i)) [0..<n] = map Some out"
    by (simp add: shown_def those_eq)
  from arg_cong [OF eq, of length] show len: "length out = n" by simp
  show "\<forall>i < n. imem s (b + word_of_nat i) = Some (out ! i)"
  proof (intro allI impI)
    fix i assume i: "i < n"
    have "map (\<lambda>i. imem s (b + word_of_nat i)) [0..<n] ! i = map Some out ! i" by (simp only: eq)
    with i len show "imem s (b + word_of_nat i) = Some (out ! i)" by simp
  qed
qed

lemma address_range: "uint (a :: u32) + int n < 2 ^ 32 \<longleftrightarrow> unat a + n < 2 ^ 32"
proof -
  have "uint a + int n = int (unat a + n)" by simp
  then show ?thesis by (simp only: of_nat_less_iff [symmetric, where ?'a = int]) simp
qed

lemma size_in_words:
  assumes "wf_core p"
  shows "refused (isa_of p) a \<Longrightarrow> unat (mem_size (mem p)) \<le> unat a"
    and "writable (isa_of p) a \<Longrightarrow> unat a < unat (mem_size (mem p))"
proof -
  have len: "length (memo (mem p)) = 4 * unat (mem_size (mem p))"
    using assms by (simp add: wf_core_def wf_memory_def)
  have four: "unat (4 * a) = 4 * unat a" if "a < 0x40000000"
    using that by (simp add: unat_word_ariths word_less_nat_alt)
  show "refused (isa_of p) a \<Longrightarrow> unat (mem_size (mem p)) \<le> unat a"
    using len four by (auto simp: refused_def bytes_of_def split: if_splits)
  show "writable (isa_of p) a \<Longrightarrow> unat a < unat (mem_size (mem p))"
    using len four by (auto simp: writable_def bytes_of_def split: if_splits)
qed

lemma dispatch_refused:
  assumes "wf_core (arm g)" "refused (isa_of (arm g)) a" "length bs < 2 ^ 32"
  shows "dispatch g (load_request a bs) = Some (Done (reply g ''E02''))"
proof -
  have "write_memory_binary g (tl (load_request a bs)) = Some (reply g ''E02'')"
    using load_request_parsed(1) [OF assms(3)] size_in_words(1) [OF assms(1,2)]
    by (rule write_memory_binary_refused)
  then show ?thesis by (simp add: dispatch_def gdb_init_def load_request_def)
qed

lemma execute_load:
  assumes g: "implements g s" and ex: "execute fuel (Load a bs) s = Some (payload, t)"
  shows "\<exists>q. dispatch g (request (Load a bs)) = Some (Done (reply (g\<lparr>arm := q\<rparr>) payload)) \<and>
    implements (g\<lparr>arm := q\<rparr>) t"
proof -
  have wf: "wf_core (arm g)" and s: "s = isa_of (arm g)" and e: "target_exception g = 0"
    using g by (simp_all add: implements_def)
  from ex have "bs \<noteq> []" "uint a + int (length bs) < 2 ^ 32" by (auto simp: not_le split: if_splits)
  note bs = this(1) this(2) [unfolded address_range]
  show ?thesis
  proof (cases "refused s a")
    case True
    with ex have "payload = ''E02'' \<and> t = s" by (simp split: if_splits)
    moreover have "g\<lparr>arm := arm g\<rparr> = g" by simp
    moreover have "length bs < 2 ^ 32" using bs(2) by linarith
    ultimately show ?thesis using dispatch_refused [of g a bs] wf True s g by (intro exI [of _ "arm g"]) simp
  next
    case False
    with ex obtain out where out: "writable s a" "shown s a (length bs) = Some out"
      and t: "payload = ''OK''" "t = isa_loaded s a bs" by (auto split: if_splits)
    note b = shown_bytes [OF out(2)]
    from b(1) bs(1) have "out \<noteq> []" by auto
    then have "unat a + length bs \<le> length (memo (mem (arm g)))"
      using memory_shown(1) [of out a "mem (arm g)"] b bs s by auto
    with dispatch_load [OF wf this bs(2) size_in_words(2) [OF wf]] out(1) t s e wf
    show ?thesis by (intro exI [of _ "loaded (arm g) a bs"]) (simp add: implements_def isa_of_loaded wf_loaded)
  qed
qed

text \<open>A command that leaves the core as it is.\<close>

lemma unchanged:
  assumes "implements g s" "dispatch g r = Some (Done (reply g payload))" "t = s"
  shows "\<exists>q. dispatch g r = Some (Done (reply (g\<lparr>arm := q\<rparr>) payload)) \<and> implements (g\<lparr>arm := q\<rparr>) t"
  using assms by (intro exI [of _ "arm g"]) simp

lemma execute_show:
  assumes g: "implements g s" and ex: "execute fuel (Show b n) s = Some (payload, t)"
  shows "dispatch g (request (Show b n)) = Some (Done (reply g payload)) \<and> t = s"
proof -
  from ex obtain out where n: "0 < n" "int n \<le> 509" "uint b + int n < 2 ^ 32" and out: "shown s b n = Some out"
    and p: "payload = concat (map format_02x out)" "t = s"
    by (auto split: if_splits)
  from n(3) have "unat b + n < 2 ^ 32" by (simp only: address_range)
  with dispatch_read [of g out b] n shown_bytes [OF out] g p show ?thesis
    by (auto simp: implements_def)
qed

lemma registers_text_isa:
  assumes "wf_core p"
  shows "registers_text p = isa_registers_text (isa_of p)"
proof -
  have "length (regs (reg p)) = 15" using assms by (simp add: wf_core_def wf_registers_def)
  then have "map (\<lambda>i. write_uint32 True (regs (reg p) ! i)) [0..<15] = map (write_uint32 True) (regs (reg p))"
    by (intro nth_equalityI) simp_all
  then show ?thesis by (simp add: registers_text_def isa_registers_text_def)
qed

lemma execute_show_registers:
  assumes "implements g s"
  shows "dispatch g ''g'' = Some (Done (reply g (isa_registers_text s)))"
  using assms read_general_registers_reply [of g "[]"]
  by (auto simp: implements_def dispatch_def gdb_init_def registers_text_isa)

lemma execute_show_register:
  assumes "implements g s" "k < 10"
  shows "dispatch g [CHR ''p'', hex_lower k] = Some (Done (reply g (write_uint32 True (ireg s ! k))))"
proof -
  have "unat (of_nat k :: u8) = k" using assms(2) by (simp add: small_u8)
  then have "arm_read_usr_register (arm g) (of_nat k) = Some (ireg s ! k)"
    using assms by (auto simp: implements_def arm_read_low)
  with read_register_request [of k g] assms(2) show ?thesis
    by (simp add: dispatch_def gdb_init_def)
qed

lemma execute_set_registers:
  assumes "implements g s" "length ws = 42"
  shows "\<exists>q. dispatch g (CHR ''G'' # words_text ws) = Some (Done (reply (g\<lparr>arm := q\<rparr>) ''OK'')) \<and>
    implements (g\<lparr>arm := q\<rparr>) (s\<lparr>ireg := take 15 ws, ipc := ws ! 41\<rparr>)"
  using assms write_general_registers_reply [of g ws]
  by (intro exI [of _ "(arm g)\<lparr>reg := \<lparr>regs = take 15 ws, cpsr = ws ! 41\<rparr>\<rparr>"])
    (auto simp: implements_def dispatch_def gdb_init_def isa_of_def pc_word_def wf_registers_def wf_core_def)

lemma execute_set_register:
  assumes g: "implements g s" and k: "k < 16"
  shows "\<exists>q. dispatch g (CHR ''P'' # hex_lower k # CHR ''='' # write_uint32 True v) =
      Some (Done (reply (g\<lparr>arm := q\<rparr>) ''OK'')) \<and> implements (g\<lparr>arm := q\<rparr>) (isa_write k v s)"
proof -
  have wf: "wf_core (arm g)" and s: "s = isa_of (arm g)" using g by (simp_all add: implements_def)
  have u: "unat (of_nat k :: u8) = k" using k by (simp add: small_u8)
  have "\<exists>q. arm_write_usr_register (arm g) (of_nat k) v = Some q \<and> isa_of q = isa_write k v s"
  proof (cases "k = 15")
    case True
    then show ?thesis by (simp add: arm_write_pc isa_write_def s isa_of_def pc_word_def)
  next
    case False
    with k u show ?thesis by (simp add: arm_write_low isa_write_def s isa_of_def pc_word_def)
  qed
  then obtain q where q: "arm_write_usr_register (arm g) (of_nat k) v = Some q" "isa_of q = isa_write k v s"
    by blast
  with write_register_request [OF k q(1)] arm_write_wf [OF wf q(1)] g show ?thesis
    by (intro exI [of _ q]) (simp add: implements_def dispatch_def gdb_init_def)
qed

lemma isa_until_run:
  "isa_until n s = Some t \<Longrightarrow>
     \<exists>m. run isa_step m s = Some t \<and> stays isa_step isa_limits m s \<and> isa_at_breakpoint t"
proof (induction n arbitrary: s)
  case 0
  then show ?case by (intro exI [of _ 0]) (simp split: if_splits)
next
  case (Suc n)
  show ?case
  proof (cases "isa_at_breakpoint s")
    case True
    with Suc.prems show ?thesis by (intro exI [of _ 0]) simp
  next
    case False
    with Suc.prems obtain u where u: "isa_limits s" "isa_step s = Some u" "isa_until n u = Some t"
      by (auto simp: Option.bind_eq_Some_conv split: if_splits)
    from Suc.IH [OF u(3)] obtain m where
      "run isa_step m u = Some t" "stays isa_step isa_limits m u" "isa_at_breakpoint t" by blast
    with u show ?thesis by (intro exI [of _ "Suc m"]) simp
  qed
qed

lemma execute_continue:
  assumes g: "implements g s" and ex: "isa_until fuel s = Some t"
  shows "\<exists>q. dispatch g ''c'' = Some (Done (reply (g\<lparr>arm := q\<rparr>) ''S05'')) \<and> implements (g\<lparr>arm := q\<rparr>) t"
proof -
  have wf: "wf_core (arm g)" and s: "s = isa_of (arm g)" and e: "target_exception g = 0"
    using g by (simp_all add: implements_def)
  from isa_until_run [OF ex] obtain m where
    "run isa_step m s = Some t" "stays isa_step isa_limits m s" "isa_at_breakpoint t" by blast
  with dispatch_continue [OF wf, of m t] s e show ?thesis by (auto simp: implements_def)
qed

lemma reply_status:
  "target_exception g = 0 \<Longrightarrow> gdb_send_stop_reason g = Some (reply g ''S05'')"
  by (simp add: gdb_send_stop_reason_def send_reply UNDEFINED_INSTRUCTION_def PREFETCH_ABORT_def
      DATA_ABORT_def)

lemma execute_step:
  assumes g: "implements g s" and lim: "isa_limits s" and st: "isa_step s = Some t"
  shows "\<exists>q. dispatch g ''s'' = Some (Done (reply (g\<lparr>arm := q\<rparr>) ''S05'')) \<and> implements (g\<lparr>arm := q\<rparr>) t"
proof -
  have wf: "wf_core (arm g)" and s: "s = isa_of (arm g)" and e: "target_exception g = 0"
    using g by (simp_all add: implements_def)
  from step_refines [OF wf] lim st s obtain q where q: "arm_step (arm g) = Some (0, q)" "isa_of q = t"
    by blast
  then have "wf_core q" using core_machine.step_inv [OF wf] by (simp add: core_step_def)
  moreover have "gdb_step g [] = Some (reply (g\<lparr>arm := q\<rparr>) ''S05'')"
    using q(1) e by (cases g) (simp add: gdb_step_def step_target_def reply_status)
  ultimately show ?thesis using q(2) e
    by (intro exI [of _ q]) (simp add: dispatch_def gdb_init_def implements_def)
qed

lemma execute_status:
  "implements g s \<Longrightarrow> dispatch g ''?'' = Some (Done (reply g ''S05''))"
  by (simp add: dispatch_def gdb_init_def reason_def reply_status implements_def)

lemma cstr_id: "\<forall>c \<in> set s. c \<noteq> NUL \<Longrightarrow> cstr s = s"
  by (simp add: cstr_def takeWhile_eq_all_conv)

lemma execute_query:
  assumes "\<forall>c \<in> set q. in_frame c \<and> c \<noteq> NUL"
  shows "dispatch g (CHR ''q'' # q) = Some (Done (reply g (query_reply q)))"
proof -
  have "cstr q = q" using assms by (intro cstr_id) blast
  then show ?thesis by (simp add: dispatch_def gdb_init_def query_def query_reply_def send_reply)
qed

lemma execute_select_thread:
  "dispatch g (CHR ''H'' # c # (if any then ''0'' else ''-1'')) =
     Some (Done (reply g (if c = CHR ''c'' \<or> c = CHR ''g'' then ''OK'' else ''E01'')))"
  by (simp add: dispatch_def gdb_init_def set_thread_def send_reply cstr_def NUL_def atoi_def
      isspace_def isdigit_def Let_def)

lemma execute_implemented:
  assumes "implements g s" "execute fuel c s = Some (payload, t)"
  shows "\<exists>q. dispatch g (request c) = Some (Done (reply (g\<lparr>arm := q\<rparr>) payload)) \<and>
    implements (g\<lparr>arm := q\<rparr>) t"
proof (cases c)
  case (Load a bs)
  with execute_load assms show ?thesis by blast
next
  case (Show b n)
  with execute_show [OF assms(1)] assms unchanged show ?thesis by blast
next
  case Show_registers
  with assms(2) have "payload = isa_registers_text s" "t = s" by auto
  with unchanged [OF assms(1) execute_show_registers [OF assms(1)]] Show_registers show ?thesis by simp
next
  case (Show_register k)
  with assms(2) have "k < 10" "payload = write_uint32 True (ireg s ! k)" "t = s" by (auto split: if_splits)
  with unchanged [OF assms(1) execute_show_register [OF assms(1)]] Show_register show ?thesis by simp
next
  case (Set_registers ws)
  with execute_set_registers [OF assms(1)] assms(2) show ?thesis by (auto split: if_splits)
next
  case (Set_register k v)
  with execute_set_register [OF assms(1)] assms(2) show ?thesis by (auto split: if_splits)
next
  case Continue
  with execute_continue [OF assms(1)] assms(2) show ?thesis by auto
next
  case Single_step
  with execute_step [OF assms(1)] assms(2) show ?thesis by (auto split: if_splits)
next
  case Status
  with assms(2) have "payload = ''S05''" "t = s" by auto
  with unchanged [OF assms(1) execute_status [OF assms(1)]] Status show ?thesis by simp
next
  case (Query q)
  with assms(2) have "\<forall>c \<in> set q. in_frame c \<and> c \<noteq> NUL" "payload = query_reply q" "t = s"
    by (auto split: if_splits)
  with unchanged [OF assms(1) execute_query] Query show ?thesis by simp
next
  case (Select_thread x any)
  with assms(2) have "payload = (if x = CHR ''c'' \<or> x = CHR ''g'' then ''OK'' else ''E01'')" "t = s"
    by (auto split: if_splits)
  with unchanged [OF assms(1) execute_select_thread] Select_thread show ?thesis by simp
qed (use assms in simp)

subsection \<open>Whole sessions\<close>

lemma message_tokens:
  assumes "\<forall>x \<in> set (request c). in_frame x"
  shows "tokens (message c @ s) = (if c = Again then Resend else Frame (frame (request c))) # tokens s"
  using assms by (simp add: message_def tokens_sign tokens_frame)

lemma implements_writes [simp]:
  "implements (gdb_send_ack g) s = implements g s" "implements (gdb_transmit_packet g) s = implements g s"
  "implements (reply g payload) s = implements g s"
  by (simp_all add: implements_def gdb_send_ack_def gdb_transmit_packet_def Rio_writen_def)

lemma run_implemented:
  assumes "debug_run fuel cs s l = Some (out, t, l')" "implements (gdb d) s" "packet (gdb d) = l" "buffer d = []"
  shows "\<exists>d'. scan_tokens d (tokens (concat (map message cs))) = Some (Scanned d') \<and>
    implements (gdb d') t \<and> packet (gdb d') = l' \<and> sent (gdb d') = sent (gdb d) @ out \<and>
    buffer d' = [] \<and> echoed d' = echoed d"
  using assms
proof (induction cs arbitrary: s l out d)
  case Nil
  then show ?case by simp
next
  case (Cons c cs)
  have no_error: "handle_error d = Some d" using Cons.prems(4) by (simp add: handle_error_def)
  show ?case
  proof (cases "c = Again")
    case True
    with Cons.prems obtain o' where o: "debug_run fuel cs s l = Some (o', t, l')" "out = l # o'"
      by auto
    let ?d = "d\<lparr>gdb := gdb_transmit_packet (gdb d)\<rparr>"
    have keep: "packet (gdb_transmit_packet g) = packet g" "sent (gdb_transmit_packet g) = sent g @ [packet g]" for g
      by (simp_all add: gdb_transmit_packet_def Rio_writen_def)
    from Cons.IH [OF o(1), of ?d] Cons.prems o(2) True no_error show ?thesis
      by (auto simp: message_def tokens_sign keep)
  next
    case False
    with Cons.prems obtain payload u o' where ex: "execute fuel c s = Some (payload, u)"
      and o: "debug_run fuel cs u (frame payload) = Some (o', t, l')" "out = ''+'' # frame payload # o'"
      by (auto simp: Option.bind_eq_Some_conv)
    let ?g = "gdb_send_ack (gdb d)"
    have "implements ?g s" using Cons.prems by simp
    from execute_implemented [OF this ex] obtain q where
      q: "dispatch ?g (request c) = Some (Done (reply (?g\<lparr>arm := q\<rparr>) payload))" "implements (?g\<lparr>arm := q\<rparr>) u"
      by blast
    let ?d = "d\<lparr>gdb := reply (?g\<lparr>arm := q\<rparr>) payload\<rparr>"
    have keep: "packet (reply g p) = frame p" "sent (gdb_send_ack g) = sent g @ [''+'']" for g p
      by (simp_all add: reply_def gdb_send_ack_def Rio_writen_def)
    have "tokens (message c @ m) = Frame (frame (request c)) # tokens m" for m
      using message_tokens [OF request_in_frame [of fuel c s]] ex False by simp
    with Cons.IH [OF o(1), of ?d] q Cons.prems(4) o(2) no_error show ?thesis
      by (auto simp: analysis_frame keep)
  qed
qed

subsection \<open>Properties\<close>

text \<open>
  C2: The simulator is a debugger of the reference machine: whatever list of commands a client
  sends (write and read memory or registers, run to a breakpoint, step, ask for the status,
  queries, threads, resends), if the abstract debugger of this theory answers it on the
  reference machine's state, within the limits of Isa, then the scanner serves the bytes of all
  these requests, sends exactly the acknowledgements, answers and repeated packets the abstract
  debugger names, and leaves the core in its final state; and the threads of the simulator reach
  that state, in steps that take and release the lock.
\<close>

lemma debugger_refines:
  assumes "wf_core p" and "debug_run fuel cs (isa_of p) [] = Some (out, t, l)"
  shows "\<exists>d. gdb_scanner p True (concat (map message cs)) = Some (Scanned d) \<and>
    sent (gdb d) = out \<and> isa_of (arm (gdb d)) = t \<and>
    sim_step\<^sup>*\<^sup>* (sim_initial p) ((sim_initial p)\<lparr>client := gdb d\<rparr>)"
proof -
  let ?d = "\<lparr>gdb = gdb_init_data p, buffer = [], echoed = []\<rparr>"
  have "implements (gdb ?d) (isa_of p)" using assms(1) by (simp add: implements_def gdb_init_data_def)
  from run_implemented [OF assms(2) this] obtain d where
    d: "scan_tokens ?d (tokens (concat (map message cs))) = Some (Scanned d)" "implements (gdb d) t"
      "sent (gdb d) = out" "buffer d = []"
    by (auto simp: gdb_init_data_def)
  have y: "yylex ?d (concat (map message cs)) = Some (Scanned d)"
    using d by (simp add: yylex_tokens scan_end_def handle_error_def)
  from sim_yylex [OF y, of "sim_initial p"] y d(2,3) show ?thesis
    by (auto simp: gdb_scanner_def sim_initial_def implements_def)
qed

lemma debugger_refines_witness:
  "\<exists>d. gdb_scanner (sample_core (replicate 8 0) []) True (concat (map message
      [Status, Select_thread CHR ''g'' True,
       Load 0 (concat (map (\<lambda>w. rev (host_bytes w)) [0xE3A00005, 0xE2800007, 0xE581001C, 0xE7F000F0])),
       Continue, Show 28 4, Again, Set_register 15 4, Single_step, Show_register 0])) = Some (Scanned d) \<and>
    sent (gdb d) = [''+'', frame ''S05'', ''+'', frame ''OK'', ''+'', frame ''OK'', ''+'', frame ''S05'',
      ''+'', frame ''0000000c'', frame ''0000000c'', ''+'', frame ''OK'', ''+'', frame ''S05'', ''+'', frame ''00000013'']"
proof -
  let ?p = "sample_core (replicate 8 0) []"
  let ?cs = "[Status, Select_thread CHR ''g'' True,
       Load 0 (concat (map (\<lambda>w. rev (host_bytes w)) [0xE3A00005, 0xE2800007, 0xE581001C, 0xE7F000F0])),
       Continue, Show 28 4, Again, Set_register 15 4, Single_step, Show_register 0]"
  let ?out = "[''+'', frame ''S05'', ''+'', frame ''OK'', ''+'', frame ''OK'', ''+'', frame ''S05'',
      ''+'', frame ''0000000c'', frame ''0000000c'', ''+'', frame ''OK'', ''+'', frame ''S05'', ''+'', frame ''00000013'']"
  have wf: "wf_core ?p" by code_simp
  have "map_option fst (debug_run 5 ?cs (isa_of ?p) []) = Some ?out" by code_simp
  then obtain t l where "debug_run 5 ?cs (isa_of ?p) [] = Some (?out, t, l)" by auto
  from debugger_refines [OF wf this] show ?thesis by blast
qed

end
