(* ===== verification/Atomicity.thy ===== *)
theory Atomicity
  imports Lifecycle
begin

text \<open>
  The two threads in small steps. \<open>Simulator\<close> runs a handler and raises an exception in one
  step each, as the lock allows; here each takes as many steps as the code has accesses to the
  core: one for each instruction of \<open>cont\<close>, for each register or byte read or written, and for
  each of the two writes of \<open>arm_exception\<close>, with the steps of the other thread in between. The
  lock makes the two relations the same wherever no thread is inside an operation.
\<close>

subsection \<open>Handlers and exceptions in small steps\<close>

text \<open>What is left of an operation.\<close>

datatype progress =
    Looping "u32 option"                          \<comment> \<open>\<open>cont\<close>, with \<open>instruction\<close>\<close>
  | Writing_bytes nat bool u32 string             \<comment> \<open>\<open>write_memory_binary\<close>: size, \<open>write_ok\<close>, address, content\<close>
  | Writing_registers "nat list" string           \<comment> \<open>\<open>write_general_registers\<close>\<close>
  | Reading_registers "nat list" string           \<comment> \<open>\<open>read_general_registers\<close>, with the text so far\<close>
  | Reading_bytes nat u32 "u8 option" string      \<comment> \<open>\<open>read_memory\<close>: size, address, \<open>value\<close>, the text so far\<close>
  | Running gdb_handler string                    \<comment> \<open>a handler with one access, or none\<close>
  | Resetting                                     \<comment> \<open>\<open>arm_exception\<close>, before the write of the status register\<close>
  | Resetting_pc                                  \<comment> \<open>and before the write of the program counter\<close>
  | Ignoring                                      \<comment> \<open>an exception without effect\<close>

fun enter_handler :: "gdb_handler \<times> string \<Rightarrow> gdb_data \<Rightarrow> progress option" where
  "enter_handler (h, data) g =
     (case h of
        Cont \<Rightarrow> Some (Looping None)
      | Write_memory_binary \<Rightarrow>
          (let (address, n) = scan_x_x (cstr data);
               content = (case index_after (CHR '':'') data of Some s \<Rightarrow> s | None \<Rightarrow> []) in
           do {
             address \<leftarrow> address;
             n \<leftarrow> n;
             Some (Writing_bytes (unat n) (ucast address < memory_get_size (mem (arm g))) address content)
           })
      | Write_general_registers \<Rightarrow> Some (Writing_registers [0..<16] data)
      | Read_general_registers \<Rightarrow> Some (Reading_registers [0..<15] [])
      | Read_memory \<Rightarrow>
          (let (address, n) = scan_x_x (cstr data) in
           do { n \<leftarrow> n; address \<leftarrow> address; Some (Reading_bytes (unat n) address None []) })
      | _ \<Rightarrow> Some (Running h data))"

definition enter_exception :: "u8 \<Rightarrow> gdb_data \<Rightarrow> progress option" where
  "enter_exception e g = Some (if e = word_of_int RESET then Resetting else Ignoring)"

definition finished :: "gdb_data option \<Rightarrow> (gdb_data \<times> progress option) option" where
  "finished r = map_option (\<lambda>g. (g, None)) r"

definition cont_tick :: "u32 option \<Rightarrow> gdb_data \<Rightarrow> (gdb_data \<times> progress option) option" where
  "cont_tick instruction g =
     do {
       instruction \<leftarrow> next_instruction (arm g) instruction;
       if breakpoint instruction then finished (gdb_send_stop_reason g)
       else do { g \<leftarrow> step_target g; Some (g, Some (Looping (Some instruction))) }
     }"

definition write_bytes_tick ::
  "nat \<Rightarrow> bool \<Rightarrow> u32 \<Rightarrow> string \<Rightarrow> gdb_data \<Rightarrow> (gdb_data \<times> progress option) option" where
  "write_bytes_tick n write_ok address content g =
     (if n = 0 \<or> \<not> write_ok then finished (gdb_send_data g (if write_ok then ''OK'' else ''E02''))
      else case content of
        [] \<Rightarrow> None
      | c # content \<Rightarrow> do {
          (v, content) \<leftarrow>
            (if byte_of c = 0x7d
             then (case content of [] \<Rightarrow> None | c # content \<Rightarrow> Some (byte_of c XOR 0x20, content))
             else Some (byte_of c, content));
          (result, m) \<leftarrow> memory_write_byte (mem (arm g)) address v;
          Some (g\<lparr>arm := (arm g)\<lparr>mem := m\<rparr>\<rparr>,
            Some (Writing_bytes (n - 1) (result = 0) (address + 1) content))
        })"

fun write_registers_tick ::
  "nat list \<Rightarrow> string \<Rightarrow> gdb_data \<Rightarrow> (gdb_data \<times> progress option) option" where
  "write_registers_tick [] data g =
     finished (do {
       v \<leftarrow> read_uint32 BIG_ENDIAN_SIMULATOR data (8 * (16 + 8 * 3 + 1));
       gdb_send_data (g\<lparr>arm := arm_write_cpsr (arm g) v\<rparr>) ''OK''
     })"
| "write_registers_tick (i # is) data g =
     do {
       v \<leftarrow> read_uint32 BIG_ENDIAN_SIMULATOR data (8 * i);
       p \<leftarrow> arm_write_register (arm g) (of_nat i) v;
       Some (g\<lparr>arm := p\<rparr>, Some (Writing_registers is data))
     }"

fun read_registers_tick ::
  "nat list \<Rightarrow> string \<Rightarrow> gdb_data \<Rightarrow> (gdb_data \<times> progress option) option" where
  "read_registers_tick [] s g =
     finished (do {
       pc \<leftarrow> arm_read_register (arm g) 15;
       gdb_send_buffer g
         (s @ write_uint32 BIG_ENDIAN_SIMULATOR (pc - 4) @ concat (replicate (8 * 3) ''xxxxxxxx'') @
          ''xxxxxxxx'' @ write_uint32 BIG_ENDIAN_SIMULATOR (arm_read_cpsr (arm g)))
     })"
| "read_registers_tick (i # is) s g =
     do {
       v \<leftarrow> arm_read_register (arm g) (of_nat i);
       Some (g, Some (Reading_registers is (s @ write_uint32 BIG_ENDIAN_SIMULATOR v)))
     }"

fun read_bytes_tick ::
  "nat \<Rightarrow> u32 \<Rightarrow> u8 option \<Rightarrow> string \<Rightarrow> gdb_data \<Rightarrow> (gdb_data \<times> progress option) option" where
  "read_bytes_tick 0 address value s g = finished (gdb_send_buffer g s)"
| "read_bytes_tick (Suc n) address value s g =
     do {
       (result, value) \<leftarrow> memory_read_byte (mem (arm g)) address value;
       if result \<noteq> - 1
       then do { v \<leftarrow> value; Some (g, Some (Reading_bytes n (address + 1) value (s @ format_02x v))) }
       else finished (gdb_send_buffer g s)
     }"

definition handler_tick :: "gdb_handler \<Rightarrow> string \<Rightarrow> gdb_data \<Rightarrow> (gdb_data \<times> progress option) option" where
  "handler_tick h data g = (case run_handler h g data of Some (Done g') \<Rightarrow> Some (g', None) | _ \<Rightarrow> None)"

definition reset_tick :: "gdb_data \<Rightarrow> (gdb_data \<times> progress option) option" where
  "reset_tick g = Some (g\<lparr>arm := arm_write_cpsr (arm g) (0x1d3 OR Exception_bit_9)\<rparr>, Some Resetting_pc)"

definition reset_pc_tick :: "gdb_data \<Rightarrow> (gdb_data \<times> progress option) option" where
  "reset_pc_tick g = do { p \<leftarrow> arm_write_usr_register (arm g) 15 0; Some (g\<lparr>arm := p\<rparr>, None) }"

fun tick :: "progress \<Rightarrow> gdb_data \<Rightarrow> (gdb_data \<times> progress option) option" where
  "tick (Looping instruction) = cont_tick instruction"
| "tick (Writing_bytes n write_ok address content) = write_bytes_tick n write_ok address content"
| "tick (Writing_registers is data) = write_registers_tick is data"
| "tick (Reading_registers is s) = read_registers_tick is s"
| "tick (Reading_bytes n address value s) = read_bytes_tick n address value s"
| "tick (Running h data) = handler_tick h data"
| "tick Resetting = reset_tick"
| "tick Resetting_pc = reset_pc_tick"
| "tick Ignoring = (\<lambda>g. Some (g, None))"

lemmas tick_defs [simp] = cont_tick_def write_bytes_tick_def handler_tick_def reset_tick_def reset_pc_tick_def

text \<open>What the operations do as a whole.\<close>

fun whole_handler :: "gdb_handler \<times> string \<Rightarrow> gdb_data \<Rightarrow> gdb_data option" where
  "whole_handler (h, data) g = (case run_handler h g data of Some (Done g') \<Rightarrow> Some g' | _ \<Rightarrow> None)"

definition whole_exception :: "u8 \<Rightarrow> gdb_data \<Rightarrow> gdb_data option" where
  "whole_exception e g = map_option (\<lambda>p. g\<lparr>arm := p\<rparr>) (arm_exception (arm g) e)"

text \<open>What is left of an operation, run to its end.\<close>

fun rest :: "progress \<Rightarrow> gdb_data \<Rightarrow> gdb_data option" where
  "rest (Looping i) g = do { g \<leftarrow> cont_loop g i; gdb_send_stop_reason g }"
| "rest (Writing_bytes n write_ok address content) g =
     do {
       (write_ok, p) \<leftarrow> write_memory_loop n write_ok (arm g) address content;
       gdb_send_data (g\<lparr>arm := p\<rparr>) (if write_ok then ''OK'' else ''E02'')
     }"
| "rest (Writing_registers is data) g =
     do {
       p \<leftarrow> write_registers_loop is (arm g) data;
       v \<leftarrow> read_uint32 BIG_ENDIAN_SIMULATOR data (8 * (16 + 8 * 3 + 1));
       gdb_send_data (g\<lparr>arm := arm_write_cpsr p v\<rparr>) ''OK''
     }"
| "rest (Reading_registers is s) g =
     do {
       low \<leftarrow> hex_registers (arm g) is;
       pc \<leftarrow> arm_read_register (arm g) 15;
       gdb_send_buffer g
         ((s @ low) @ write_uint32 BIG_ENDIAN_SIMULATOR (pc - 4) @ concat (replicate (8 * 3) ''xxxxxxxx'') @
          ''xxxxxxxx'' @ write_uint32 BIG_ENDIAN_SIMULATOR (arm_read_cpsr (arm g)))
     }"
| "rest (Reading_bytes n address value s) g =
     do { bytes \<leftarrow> read_memory_loop n (arm g) address value; gdb_send_buffer g (s @ bytes) }"
| "rest (Running h data) g = whole_handler (h, data) g"
| "rest Resetting g = whole_exception (word_of_int RESET) g"
| "rest Resetting_pc g = map_option (\<lambda>p. g\<lparr>arm := p\<rparr>) (arm_write_usr_register (arm g) 15 0)"
| "rest Ignoring g = Some g"

lemma rest_enter_handler:
  "whole_handler (h, data) g = do { c \<leftarrow> enter_handler (h, data) g; rest c g }"
  by (cases h) (auto simp: cont_def write_memory_binary_def write_general_registers_def
      read_general_registers_def read_memory_def Let_def map_option_case split: prod.splits option.splits
      Option.bind_splits)

lemma rest_enter_exception:
  "whole_exception e g = do { c \<leftarrow> enter_exception e g; rest c g }"
  by (simp add: enter_exception_def whole_exception_def arm_exception_def)

lemma rest_looping:
  "rest (Looping i) g = (case tick (Looping i) g of None \<Rightarrow> None
     | Some (g1, None) \<Rightarrow> Some g1 | Some (g1, Some c) \<Rightarrow> rest c g1)"
  by (simp add: finished_def cont_loop.simps [of g i] map_option_case split: option.splits Option.bind_splits)

lemma rest_writing_bytes:
  "rest (Writing_bytes n w a s) g = (case tick (Writing_bytes n w a s) g of None \<Rightarrow> None
     | Some (g1, None) \<Rightarrow> Some g1 | Some (g1, Some c) \<Rightarrow> rest c g1)"
  by (cases n) (auto simp: finished_def map_option_case split: option.splits Option.bind_splits list.splits)

lemma rest_registers:
  "rest (Writing_registers ks s) g = (case tick (Writing_registers ks s) g of None \<Rightarrow> None
     | Some (g1, None) \<Rightarrow> Some g1 | Some (g1, Some c) \<Rightarrow> rest c g1)"
  "rest (Reading_registers ks s) g = (case tick (Reading_registers ks s) g of None \<Rightarrow> None
     | Some (g1, None) \<Rightarrow> Some g1 | Some (g1, Some c) \<Rightarrow> rest c g1)"
  by (cases ks; auto simp: finished_def map_option_case split: option.splits Option.bind_splits)+

lemma rest_reading_bytes:
  "rest (Reading_bytes n a x s) g = (case tick (Reading_bytes n a x s) g of None \<Rightarrow> None
     | Some (g1, None) \<Rightarrow> Some g1 | Some (g1, Some c) \<Rightarrow> rest c g1)"
  by (cases n) (auto simp: finished_def map_option_case split: option.splits Option.bind_splits)

lemma rest_tick:
  "rest c g = (case tick c g of None \<Rightarrow> None | Some (g1, None) \<Rightarrow> Some g1 | Some (g1, Some c1) \<Rightarrow> rest c1 g1)"
proof (cases c)
  case (Running h data)
  then show ?thesis by (auto split: option.splits gdb_result.splits)
next
  case Resetting
  then show ?thesis by (simp add: whole_exception_def arm_exception_def Let_def map_option_case split: option.splits)
next
  case Resetting_pc
  then show ?thesis by (auto split: option.splits Option.bind_splits)
qed (simp_all only: rest_looping rest_writing_bytes rest_registers rest_reading_bytes, simp_all)

text \<open>What is left of an operation returns exactly when its small steps come to an end.\<close>

lemma cont_loop_finishes:
  assumes "cont_loop g i = Some g1" "gdb_send_stop_reason g1 = Some g'"
  shows "finishes tick (Looping i) g g'"
proof -
  have "gdb_send_stop_reason g1 = Some g' \<longrightarrow> finishes tick (Looping i) g g'"
  proof (rule cont_loop.raw_induct [where
        P = "\<lambda>g i g1. gdb_send_stop_reason g1 = Some g' \<longrightarrow> finishes tick (Looping i) g g'", OF _ assms(1)])
    fix loop g i g1
    assume IH: "\<And>g i g1. loop g i = Some g1 \<Longrightarrow> gdb_send_stop_reason g1 = Some g' \<longrightarrow> finishes tick (Looping i) g g'"
      and run: "do { instruction \<leftarrow> next_instruction (arm g) i;
              if breakpoint instruction then Some g
              else do { g \<leftarrow> step_target g; loop g (Some instruction) } } = Some g1"
    from run obtain w where w: "next_instruction (arm g) i = Some w"
      "(if breakpoint w then Some g else do { g \<leftarrow> step_target g; loop g (Some w) }) = Some g1"
      by (auto simp: Option.bind_eq_Some_conv)
    show "gdb_send_stop_reason g1 = Some g' \<longrightarrow> finishes tick (Looping i) g g'"
    proof (cases "breakpoint w")
      case True
      with w show ?thesis by (auto simp: finished_def intro: last_tick)
    next
      case False
      with w obtain g2 where "step_target g = Some g2" "loop g2 (Some w) = Some g1"
        by (auto simp: Option.bind_eq_Some_conv)
      with w(1) False IH show ?thesis by (auto intro: next_tick)
    qed
  qed
  with assms(2) show ?thesis by simp
qed

text \<open>All operations but \<open>cont\<close> have a bound on their steps.\<close>

fun left :: "progress \<Rightarrow> nat" where
  "left (Writing_bytes n w a s) = n"
| "left (Writing_registers is s) = length is"
| "left (Reading_registers is s) = length is"
| "left (Reading_bytes n a x s) = n"
| "left Resetting = 1"
| "left _ = 0"

lemma left_decreases:
  "tick c g = Some (g1, Some c1) \<Longrightarrow> (\<exists>i. c = Looping i) \<or> left c1 < left c \<and> (\<forall>i. c1 \<noteq> Looping i)"
proof (cases c)
  case (Writing_registers ks data)
  then show "tick c g = Some (g1, Some c1) \<Longrightarrow> ?thesis"
    by (cases ks) (auto simp: finished_def Option.bind_eq_Some_conv)
next
  case (Reading_registers ks s)
  then show "tick c g = Some (g1, Some c1) \<Longrightarrow> ?thesis"
    by (cases ks) (auto simp: finished_def Option.bind_eq_Some_conv)
next
  case (Reading_bytes n a x s)
  then show "tick c g = Some (g1, Some c1) \<Longrightarrow> ?thesis"
    by (cases n) (auto simp: finished_def Option.bind_eq_Some_conv split: if_splits)
qed (auto simp: finished_def Option.bind_eq_Some_conv split: if_splits list.splits option.splits gdb_result.splits)

lemma rest_finishes: "rest c g = Some g' \<Longrightarrow> finishes tick c g g'"
proof (cases "\<exists>i. c = Looping i")
  case True
  then show "rest c g = Some g' \<Longrightarrow> ?thesis"
    by (auto simp: Option.bind_eq_Some_conv intro: cont_loop_finishes)
next
  case False
  assume "rest c g = Some g'"
  with False show ?thesis
  proof (induction "left c" arbitrary: c g rule: less_induct)
    case less
    from less.prems(2) obtain g1 c1 where t: "tick c g = Some (g1, c1)"
      by (subst (asm) rest_tick) (auto split: option.splits)
    show ?case
    proof (cases c1)
      case None
      with t less.prems(2) show ?thesis by (subst (asm) rest_tick) (auto intro: last_tick)
    next
      case (Some c2)
      with left_decreases [of c g g1 c2] t less.prems(1) have "left c2 < left c" "\<not> (\<exists>i. c2 = Looping i)" by auto
      moreover have "rest c2 g1 = Some g'" using t Some less.prems(2) by (subst (asm) rest_tick) simp
      ultimately have "finishes tick c2 g1 g'" by (rule less.hyps)
      with t Some show ?thesis by (auto intro: next_tick)
    qed
  qed
qed

lemma rest_iff: "rest c g = Some g' \<longleftrightarrow> finishes tick c g g'"
  using rest_finishes finishes_value [where whole = rest and tick = tick, OF rest_tick] by blast

interpretation handlers: small_steps tick enter_handler whole_handler
proof
  fix op g g'
  show "whole_handler op g = Some g' \<longleftrightarrow> (\<exists>c. enter_handler op g = Some c \<and> finishes tick c g g')"
    by (cases op) (auto simp: rest_enter_handler Option.bind_eq_Some_conv rest_iff simp del: whole_handler.simps enter_handler.simps)
qed

interpretation raising: small_steps tick enter_exception whole_exception
  by unfold_locales (auto simp: rest_enter_exception Option.bind_eq_Some_conv rest_iff)

subsection \<open>The threads in small steps\<close>

record fine =
  coarse :: sim
  in_handler :: "progress option"
  in_exception :: "progress option"

definition at_rest :: "sim \<Rightarrow> fine" where
  "at_rest s = \<lparr>coarse = s, in_handler = None, in_exception = None\<rparr>"

text \<open>The steps of \<open>sim_step\<close> other than a whole handler or a whole exception.\<close>

definition between :: "sim \<Rightarrow> sim \<Rightarrow> bool" where
  "between s t \<longleftrightarrow> sim_step s t \<and> (gdb_at t = Gdb_served \<longrightarrow> gdb_at s = Gdb_served) \<and>
     (irq_at t = Irq_served \<longrightarrow> irq_at s = Irq_served)"

inductive fine_step :: "fine \<Rightarrow> fine \<Rightarrow> bool" where
  fine_between: "between (coarse s) t \<Longrightarrow> fine_step s (s\<lparr>coarse := t\<rparr>)"
| handler_enters: "gdb_at (coarse s) = Gdb_holds h data \<Longrightarrow> in_handler s = None \<Longrightarrow>
    enter_handler (h, data) (client (coarse s)) = Some c \<Longrightarrow> fine_step s (s\<lparr>in_handler := Some c\<rparr>)"
| handler_ticks: "in_handler s = Some c \<Longrightarrow> tick c (client (coarse s)) = Some (g, Some c') \<Longrightarrow>
    fine_step s (s\<lparr>coarse := (coarse s)\<lparr>client := g\<rparr>, in_handler := Some c'\<rparr>)"
| handler_ends: "in_handler s = Some c \<Longrightarrow> tick c (client (coarse s)) = Some (g, None) \<Longrightarrow>
    fine_step s (s\<lparr>coarse := (coarse s)\<lparr>client := g, gdb_at := Gdb_served\<rparr>, in_handler := None\<rparr>)"
| exception_enters: "irq_at (coarse s) = Irq_holds e \<Longrightarrow> in_exception s = None \<Longrightarrow>
    enter_exception e (client (coarse s)) = Some c \<Longrightarrow> fine_step s (s\<lparr>in_exception := Some c\<rparr>)"
| exception_ticks: "in_exception s = Some c \<Longrightarrow> tick c (client (coarse s)) = Some (g, Some c') \<Longrightarrow>
    fine_step s (s\<lparr>coarse := (coarse s)\<lparr>client := g\<rparr>, in_exception := Some c'\<rparr>)"
| exception_ends: "in_exception s = Some c \<Longrightarrow> tick c (client (coarse s)) = Some (g, None) \<Longrightarrow>
    fine_step s (s\<lparr>coarse := (coarse s)\<lparr>client := g, irq_at := Irq_served\<rparr>, in_exception := None\<rparr>)"

inductive_cases fine_stepE: "fine_step s t"

inductive fine_reachable :: "arm_core_data \<Rightarrow> fine \<Rightarrow> bool" for p where
  fine_start: "fine_reachable p (at_rest (sim_initial p))"
| fine_next: "fine_reachable p s \<Longrightarrow> fine_step s t \<Longrightarrow> fine_reachable p t"

text \<open>
  A state in small steps stands for the state in whole steps before the operation a thread is
  inside: the operation has made some of its steps from there.
\<close>

inductive started :: "fine \<Rightarrow> sim \<Rightarrow> bool" where
  rest_started: "started (at_rest s) s"
| handler_started: "gdb_at s = Gdb_holds h data \<Longrightarrow> enter_handler (h, data) (client s) = Some c0 \<Longrightarrow>
    ticks tick c0 (client s) c g \<Longrightarrow>
    started \<lparr>coarse = s\<lparr>client := g\<rparr>, in_handler = Some c, in_exception = None\<rparr> s"
| exception_started: "irq_at s = Irq_holds e \<Longrightarrow> enter_exception e (client s) = Some c0 \<Longrightarrow>
    ticks tick c0 (client s) c g \<Longrightarrow>
    started \<lparr>coarse = s\<lparr>client := g\<rparr>, in_handler = None, in_exception = Some c\<rparr> s"

lemma whole_handler_step:
  "gdb_at s = Gdb_holds h data \<Longrightarrow> whole_handler (h, data) (client s) = Some g \<Longrightarrow>
     sim_step s (s\<lparr>client := g, gdb_at := Gdb_served\<rparr>)"
  by (auto split: option.splits gdb_result.splits intro: gdb_serves)

lemma whole_exception_step:
  "irq_at s = Irq_holds e \<Longrightarrow> whole_exception e (client s) = Some g \<Longrightarrow>
     sim_step s (s\<lparr>client := g, irq_at := Irq_served\<rparr>)"
  by (auto simp: whole_exception_def intro: irq_raises)

text \<open>The steps of one thread while the other is inside its operation.\<close>

lemma between_in_handler:
  assumes "between s t" "lock_ok s" "gdb_at s = Gdb_holds h data"
  shows "\<exists>e. irq_at s = Irq_reading \<and> t = s\<lparr>irq_at := Irq_wants e\<rparr>"
proof -
  have "holder s = Some Gdb_thread" "\<not> irq_in (irq_at s)" using assms(2,3) by (auto simp: lock_ok_def)
  with assms(1,3) show ?thesis by (auto simp: between_def elim: sim_stepE)
qed

lemma between_in_exception:
  assumes "between s t" "lock_ok s" "irq_at s = Irq_holds e"
  shows "gdb_at s = Gdb_scanning \<and> irq_at t = irq_at s"
proof -
  have "holder s = Some Irq_thread" "\<not> gdb_in (gdb_at s)" using assms(2,3) by (auto simp: lock_ok_def)
  with assms(1,3) show ?thesis by (auto simp: between_def elim: sim_stepE)
qed

text \<open>An exception inside its operation has either done nothing or written the status register.\<close>

lemma exception_ticks_cases:
  "enter_exception e g0 = Some c0 \<Longrightarrow> ticks tick c0 g0 c g \<Longrightarrow>
     c = c0 \<and> g = g0 \<or> c0 = Resetting \<and> tick c0 g0 = Some (g, Some c) \<and> c = Resetting_pc"
  by (rotate_tac, induction rule: ticks.induct)
    (auto simp: enter_exception_def Option.bind_eq_Some_conv split: if_splits)

lemma exception_ticks_arm:
  assumes "enter_exception e g0 = Some c0" "ticks tick c0 g0 c g"
  shows "g = g0\<lparr>arm := arm g\<rparr>"
  using exception_ticks_cases [OF assms] by (elim disjE conjE) (simp, clarsimp)

lemma exception_ticks_put:
  assumes "enter_exception e g0 = Some c0" "ticks tick c0 g0 c g"
    and "arm g1 = arm g" "g2 = g1\<lparr>arm := arm g0\<rparr>"
  shows "enter_exception e g2 = Some c0" "ticks tick c0 g2 c g1"
proof -
  show "enter_exception e g2 = Some c0" using assms(1) by (simp add: enter_exception_def)
  from exception_ticks_cases [OF assms(1,2)] show "ticks tick c0 g2 c g1"
  proof
    assume "c = c0 \<and> g = g0"
    with assms(3,4) have "c = c0" "g2 = g1" by simp_all
    then show ?thesis by (simp add: no_tick)
  next
    assume "c0 = Resetting \<and> tick c0 g0 = Some (g, Some c) \<and> c = Resetting_pc"
    with assms(3,4) have "tick c0 g2 = Some (g1, Some c)" by (cases g1) auto
    with no_tick [of tick c0 g2] show ?thesis by (rule one_more_tick)
  qed
qed

text \<open>Each small step is a whole step, or none.\<close>

lemma rest_step:
  assumes "fine_step (at_rest s) t"
  shows "\<exists>t0. sim_step\<^sup>*\<^sup>* s t0 \<and> started t t0"
  using assms
proof (cases rule: fine_step.cases)
  case (fine_between u)
  then have "t = at_rest u" "sim_step s u" by (simp_all add: at_rest_def between_def)
  then show ?thesis by (auto intro: rest_started)
next
  case (handler_enters h data c)
  then have "gdb_at s = Gdb_holds h data" "enter_handler (h, data) (client s) = Some c"
    "t = \<lparr>coarse = s\<lparr>client := client s\<rparr>, in_handler = Some c, in_exception = None\<rparr>"
    by (simp_all add: at_rest_def)
  then have "started t s" by (blast intro: handler_started no_tick)
  then show ?thesis by blast
next
  case (exception_enters e c)
  then have "irq_at s = Irq_holds e" "enter_exception e (client s) = Some c"
    "t = \<lparr>coarse = s\<lparr>client := client s\<rparr>, in_handler = None, in_exception = Some c\<rparr>"
    by (simp_all add: at_rest_def)
  then have "started t s" by (blast intro: exception_started no_tick)
  then show ?thesis by blast
qed (simp_all add: at_rest_def)

lemma handler_step:
  assumes "fine_step \<lparr>coarse = s\<lparr>client := g\<rparr>, in_handler = Some c, in_exception = None\<rparr> t"
    and h: "gdb_at s = Gdb_holds h data" "enter_handler (h, data) (client s) = Some c0"
      "ticks tick c0 (client s) c g" and lock: "lock_ok s"
  shows "\<exists>t0. sim_step\<^sup>*\<^sup>* s t0 \<and> started t t0"
  using assms(1)
proof (cases rule: fine_step.cases)
  case (fine_between u)
  then have "between (s\<lparr>client := g\<rparr>) u" by simp
  moreover have "lock_ok (s\<lparr>client := g\<rparr>)" using lock by (simp add: lock_ok_def)
  ultimately obtain e where e: "irq_at s = Irq_reading" "u = s\<lparr>client := g, irq_at := Irq_wants e\<rparr>"
    using between_in_handler [of "s\<lparr>client := g\<rparr>"] h(1) by auto
  let ?t0 = "s\<lparr>irq_at := Irq_wants e\<rparr>"
  have "t = \<lparr>coarse = ?t0\<lparr>client := g\<rparr>, in_handler = Some c, in_exception = None\<rparr>"
    using fine_between(1) e(2) by (cases s) simp
  moreover have "started \<dots> ?t0" using h by (intro handler_started) simp_all
  moreover have "sim_step s ?t0" using e(1) by (rule irq_reads)
  ultimately show ?thesis by blast
next
  case (handler_ticks d g1 c1)
  then have "ticks tick c0 (client s) c1 g1"
    and t: "t = \<lparr>coarse = s\<lparr>client := g1\<rparr>, in_handler = Some c1, in_exception = None\<rparr>"
    using h(3) by (auto intro: one_more_tick)
  then have "started t s" using h(1,2) unfolding t by (blast intro: handler_started)
  then show ?thesis by blast
next
  case (handler_ends d g1)
  then have "tick c g = Some (g1, None)"
    and t: "t = at_rest (s\<lparr>client := g1, gdb_at := Gdb_served\<rparr>)" by (simp_all add: at_rest_def)
  with handlers.last_is_whole [OF h(2,3)] have "whole_handler (h, data) (client s) = Some g1" by blast
  with whole_handler_step [OF h(1)] show ?thesis unfolding t by (blast intro: rest_started)
next
  case (exception_enters e c)
  with lock h(1) show ?thesis by (auto simp: lock_ok_def)
qed simp_all

lemma exception_step:
  assumes "fine_step \<lparr>coarse = s\<lparr>client := g\<rparr>, in_handler = None, in_exception = Some c\<rparr> t"
    and e: "irq_at s = Irq_holds e" "enter_exception e (client s) = Some c0"
      "ticks tick c0 (client s) c g" and lock: "lock_ok s"
  shows "\<exists>t0. sim_step\<^sup>*\<^sup>* s t0 \<and> started t t0"
  using assms(1)
proof (cases rule: fine_step.cases)
  case (fine_between u)
  let ?s = "s\<lparr>client := g\<rparr>"
  have "lock_ok ?s" using lock by (simp add: lock_ok_def)
  moreover have b: "between ?s u" "irq_at ?s = Irq_holds e" using fine_between e(1) by simp_all
  ultimately have u: "gdb_at ?s = Gdb_scanning" "irq_at u = irq_at ?s"
    using between_in_exception by blast+
  from b(1) have "sim_step ?s u" by (simp add: between_def)
  note same = scanning_step [OF this u]
  let ?t0 = "u\<lparr>client := (client u)\<lparr>arm := arm (client s)\<rparr>\<rparr>"
  have "g = (client s)\<lparr>arm := arm g\<rparr>" by (rule exception_ticks_arm [OF e(2,3)])
  then have "g\<lparr>arm := arm (client s)\<rparr> = client s" by (cases "client s"; cases g) simp
  then have "sim_step s ?t0" using same(3) [of "arm (client s)"] by simp
  moreover have "t = \<lparr>coarse = ?t0\<lparr>client := client u\<rparr>, in_handler = None, in_exception = Some c\<rparr>"
    using fine_between(1) by simp
  moreover have "started \<dots> ?t0"
    using exception_ticks_put [OF e(2,3), of "client u" "client ?t0"] same(1) u(2) e(1)
    by (intro exception_started) simp_all
  ultimately show ?thesis by blast
next
  case (exception_ticks d g1 c1)
  then have "ticks tick c0 (client s) c1 g1"
    and t: "t = \<lparr>coarse = s\<lparr>client := g1\<rparr>, in_handler = None, in_exception = Some c1\<rparr>"
    using e(3) by (auto intro: one_more_tick)
  then have "started t s" using e(1,2) unfolding t by (blast intro: exception_started)
  then show ?thesis by blast
next
  case (exception_ends d g1)
  then have "tick c g = Some (g1, None)"
    and t: "t = at_rest (s\<lparr>client := g1, irq_at := Irq_served\<rparr>)" by (simp_all add: at_rest_def)
  with raising.last_is_whole [OF e(2,3)] have "whole_exception e (client s) = Some g1" by blast
  with whole_exception_step [OF e(1)] show ?thesis unfolding t by (blast intro: rest_started)
next
  case (handler_enters h data c)
  with lock e(1) show ?thesis by (auto simp: lock_ok_def)
qed simp_all

lemma fine_step_started:
  assumes "fine_step s t" "started s s0" "lock_ok s0"
  shows "\<exists>t0. sim_step\<^sup>*\<^sup>* s0 t0 \<and> started t t0"
  using assms(2)
proof (cases rule: started.cases)
  case rest_started
  with assms(1) show ?thesis by (simp add: rest_step)
next
  case (handler_started h data c0 c g)
  with assms(1,3) handler_step show ?thesis by blast
next
  case (exception_started e c0 c g)
  with assms(1,3) exception_step show ?thesis by blast
qed

lemma sim_reachable_steps: "sim_step\<^sup>*\<^sup>* s t \<Longrightarrow> sim_reachable p s \<Longrightarrow> sim_reachable p t"
  by (induction rule: rtranclp_induct) (auto intro: sim_next)

lemma fine_reachable_started: "fine_reachable p s \<Longrightarrow> \<exists>s0. sim_reachable p s0 \<and> started s s0"
proof (induction rule: fine_reachable.induct)
  case fine_start
  show ?case by (blast intro: sim_start rest_started)
next
  case (fine_next s t)
  from fine_next.IH obtain s0 where s0: "sim_reachable p s0" "started s s0" by blast
  with fine_step_started [OF fine_next.hyps(2) s0(2)] show ?case
    by (blast intro: lock_ok_reachable sim_reachable_steps)
qed

text \<open>Conversely, an operation of a whole step can be made in small ones.\<close>

lemma handler_ticks_steps:
  "ticks tick c0 (client s) c g \<Longrightarrow>
     fine_step\<^sup>*\<^sup>* \<lparr>coarse = s, in_handler = Some c0, in_exception = x\<rparr>
       \<lparr>coarse = s\<lparr>client := g\<rparr>, in_handler = Some c, in_exception = x\<rparr>"
proof (induction rule: ticks.induct)
  case no_tick
  show ?case by simp
next
  case (one_more_tick c1 g1 g2 c2)
  let ?f = "\<lparr>coarse = s\<lparr>client := g1\<rparr>, in_handler = Some c1, in_exception = x\<rparr>"
  have "fine_step ?f \<lparr>coarse = s\<lparr>client := g2\<rparr>, in_handler = Some c2, in_exception = x\<rparr>"
    using handler_ticks [of ?f c1 g2 c2] one_more_tick.hyps(2) by simp
  with one_more_tick.IH show ?case by (rule rtranclp.rtrancl_into_rtrancl)
qed

lemma exception_ticks_steps:
  "ticks tick c0 (client s) c g \<Longrightarrow>
     fine_step\<^sup>*\<^sup>* \<lparr>coarse = s, in_handler = x, in_exception = Some c0\<rparr>
       \<lparr>coarse = s\<lparr>client := g\<rparr>, in_handler = x, in_exception = Some c\<rparr>"
proof (induction rule: ticks.induct)
  case no_tick
  show ?case by simp
next
  case (one_more_tick c1 g1 g2 c2)
  let ?f = "\<lparr>coarse = s\<lparr>client := g1\<rparr>, in_handler = x, in_exception = Some c1\<rparr>"
  have "fine_step ?f \<lparr>coarse = s\<lparr>client := g2\<rparr>, in_handler = x, in_exception = Some c2\<rparr>"
    using exception_ticks [of ?f c1 g2 c2] one_more_tick.hyps(2) by simp
  with one_more_tick.IH show ?case by (rule rtranclp.rtrancl_into_rtrancl)
qed

lemma whole_handler_fine:
  assumes "gdb_at s = Gdb_holds h data" "whole_handler (h, data) (client s) = Some g"
  shows "fine_step\<^sup>*\<^sup>* (at_rest s) (at_rest (s\<lparr>client := g, gdb_at := Gdb_served\<rparr>))"
proof -
  from handlers.whole_in_steps [OF assms(2)] obtain c0 c g1 where
    c: "enter_handler (h, data) (client s) = Some c0" "ticks tick c0 (client s) c g1" "tick c g1 = Some (g, None)"
    by blast
  let ?f = "\<lambda>g c. \<lparr>coarse = s\<lparr>client := g\<rparr>, in_handler = Some c, in_exception = None\<rparr>"
  have "fine_step (at_rest s) \<lparr>coarse = s, in_handler = Some c0, in_exception = None\<rparr>"
    using handler_enters [of "at_rest s" h data c0] assms(1) c(1) by (simp add: at_rest_def)
  moreover have "fine_step (?f g1 c) (at_rest (s\<lparr>client := g, gdb_at := Gdb_served\<rparr>))"
    using handler_ends [of "?f g1 c" c g] c(3) by (simp add: at_rest_def)
  moreover note handler_ticks_steps [OF c(2), of None]
  ultimately show ?thesis by (meson converse_rtranclp_into_rtranclp rtranclp.rtrancl_into_rtrancl)
qed

lemma whole_exception_fine:
  assumes "irq_at s = Irq_holds e" "whole_exception e (client s) = Some g"
  shows "fine_step\<^sup>*\<^sup>* (at_rest s) (at_rest (s\<lparr>client := g, irq_at := Irq_served\<rparr>))"
proof -
  from raising.whole_in_steps [OF assms(2)] obtain c0 c g1 where
    c: "enter_exception e (client s) = Some c0" "ticks tick c0 (client s) c g1" "tick c g1 = Some (g, None)"
    by blast
  let ?f = "\<lambda>g c. \<lparr>coarse = s\<lparr>client := g\<rparr>, in_handler = None, in_exception = Some c\<rparr>"
  have "fine_step (at_rest s) \<lparr>coarse = s, in_handler = None, in_exception = Some c0\<rparr>"
    using exception_enters [of "at_rest s" e c0] assms(1) c(1) by (simp add: at_rest_def)
  moreover have "fine_step (?f g1 c) (at_rest (s\<lparr>client := g, irq_at := Irq_served\<rparr>))"
    using exception_ends [of "?f g1 c" c g] c(3) by (simp add: at_rest_def)
  moreover note exception_ticks_steps [OF c(2), of None]
  ultimately show ?thesis by (meson converse_rtranclp_into_rtranclp rtranclp.rtrancl_into_rtrancl)
qed

lemma sim_step_fine: "sim_step s t \<Longrightarrow> fine_step\<^sup>*\<^sup>* (at_rest s) (at_rest t)"
proof (cases "between s t")
  case True
  with fine_between [of "at_rest s" t] show ?thesis by (auto simp: at_rest_def)
next
  case False
  assume step: "sim_step s t"
  then show ?thesis
  proof (cases rule: sim_step.cases)
    case (gdb_serves h data g)
    then show ?thesis using whole_handler_fine [of s h data g] by simp
  next
    case (irq_raises e p)
    then show ?thesis
      using whole_exception_fine [of s e "(client s)\<lparr>arm := p\<rparr>"] by (simp add: whole_exception_def)
  qed (use False step in \<open>auto simp: between_def\<close>)
qed

lemma fine_reachable_steps: "fine_step\<^sup>*\<^sup>* s t \<Longrightarrow> fine_reachable p s \<Longrightarrow> fine_reachable p t"
  by (induction rule: rtranclp_induct) (auto intro: fine_next)

lemma sim_reachable_fine: "sim_reachable p s \<Longrightarrow> fine_reachable p (at_rest s)"
  by (induction rule: sim_reachable.induct) (auto intro: fine_start fine_reachable_steps sim_step_fine)

lemma started_rest: "started (at_rest s) s0 \<Longrightarrow> s0 = s"
  by (cases rule: started.cases) (auto simp: at_rest_def)

text \<open>A continue over the program that loops.\<close>

lemma loop_core_tick:
  assumes "arm g = loop_core 0"
  shows "tick (Looping None) g =
    Some (g\<lparr>arm := loop_core 1, target_exception := 0\<rparr>, Some (Looping (Some 0xEAFFFFFE)))"
proof -
  have "\<not> breakpoint 0xEAFFFFFE" by code_simp
  moreover have "loop_core (0 + 1) = loop_core 1" by (simp only: add_0)
  moreover note loop_core_step [of 0] loop_core_instruction [of 0 None]
  ultimately show ?thesis using assms
    by (simp only: tick.simps cont_tick_def Option.bind.simps if_False step_target_def prod.case)
qed

subsection \<open>A request that does not return\<close>

text \<open>
  The gdb thread holds the lock for a request it met in the state \<open>g0\<close>: what it has done since is
  its own steps.
\<close>

definition waits :: "gdb_handler \<Rightarrow> string \<Rightarrow> gdb_data \<Rightarrow> fine \<Rightarrow> bool" where
  "waits h data g0 f \<longleftrightarrow>
     gdb_at (coarse f) = Gdb_holds h data \<and> lock_ok (coarse f) \<and> in_exception f = None \<and>
     (case in_handler f of
        None \<Rightarrow> client (coarse f) = g0
      | Some c \<Rightarrow> \<exists>c0. enter_handler (h, data) g0 = Some c0 \<and> ticks tick c0 g0 c (client (coarse f)))"

lemma fine_lock_ok:
  assumes "fine_reachable p f"
  shows "lock_ok (coarse f)"
proof -
  from fine_reachable_started [OF assms] obtain s0 where s0: "sim_reachable p s0" "started f s0" by blast
  from s0(2) lock_ok_reachable [OF s0(1)] show ?thesis
    by (cases rule: started.cases) (auto simp: at_rest_def lock_ok_def)
qed

lemma holding_no_exception:
  assumes "fine_reachable p f" "gdb_at (coarse f) = Gdb_holds h data"
  shows "in_exception f = None"
proof -
  from fine_reachable_started [OF assms(1)] obtain s0 where s0: "sim_reachable p s0" "started f s0" by blast
  from s0(2) lock_ok_reachable [OF s0(1)] assms(2) show ?thesis
    by (cases rule: started.cases) (auto simp: at_rest_def lock_ok_def)
qed

lemma waits_step:
  assumes "fine_step f f'" "waits h data g0 f" "\<forall>g. run_handler h g0 data \<noteq> Some (Done g)"
  shows "waits h data g0 f'"
  using assms(1)
proof (cases rule: fine_step.cases)
  case (fine_between u)
  with assms(2) between_in_handler [of "coarse f" u h data] show ?thesis
    by (auto simp: waits_def lock_ok_def split: option.splits)
next
  case (handler_enters h' data' c)
  with assms(2) show ?thesis by (auto simp: waits_def intro: no_tick)
next
  case (handler_ticks c g c')
  with assms(2) show ?thesis by (auto simp: waits_def lock_ok_def intro: one_more_tick)
next
  case (handler_ends c g)
  with assms(2) obtain c0 where "enter_handler (h, data) g0 = Some c0"
    "ticks tick c0 g0 c (client (coarse f))" by (auto simp: waits_def)
  from handlers.last_is_whole [OF this handler_ends(3)] assms(3) show ?thesis
    by (auto split: option.splits gdb_result.splits)
next
  case (exception_enters e c)
  with assms(2) show ?thesis by (auto simp: waits_def lock_ok_def)
qed (use assms(2) in \<open>auto simp: waits_def\<close>)

lemma waits_steps:
  assumes "fine_step\<^sup>*\<^sup>* f f'" "waits h data g0 f" "\<forall>g. run_handler h g0 data \<noteq> Some (Done g)"
  shows "waits h data g0 f'"
  using assms by (induction rule: rtranclp_induct) (auto intro: waits_step)

subsection \<open>Properties\<close>

text \<open>
  C4: The lock makes requests and interrupts atomic. With the threads interleaved access by
  access (each instruction a continue runs, each byte or register a request reads or writes,
  each of the two writes of a reset), the states with the lock free are those of the threads
  that run each request and each exception in one step, and so are all states in which no thread
  is inside an operation; while one is, the operation has made some of its steps from such a
  state, and the other thread is not inside its own.
\<close>

lemma operations_are_atomic:
  assumes "fine_reachable p f"
  shows "(\<exists>s. sim_reachable p s \<and> started f s) \<and>
    (holder (coarse f) = None \<longrightarrow> sim_reachable p (coarse f)) \<and>
    (in_handler f = None \<or> in_exception f = None) \<and>
    (\<forall>s. fine_reachable p (at_rest s) \<longleftrightarrow> sim_reachable p s)"
proof -
  from fine_reachable_started [OF assms] obtain s0 where s0: "sim_reachable p s0" "started f s0" by blast
  from lock_ok_reachable [OF s0(1)] have lock: "lock_ok s0" .
  from s0(2) have "in_handler f = None \<or> in_exception f = None"
    by (cases rule: started.cases) (simp_all add: at_rest_def)
  moreover from s0(2,1) lock have "holder (coarse f) = None \<longrightarrow> sim_reachable p (coarse f)"
    by (cases rule: started.cases) (auto simp: at_rest_def lock_ok_def)
  moreover have "fine_reachable p (at_rest s) \<longleftrightarrow> sim_reachable p s" for s
    using fine_reachable_started [of p "at_rest s"] started_rest sim_reachable_fine by blast
  ultimately show ?thesis using s0 by blast
qed

lemma operations_are_atomic_witness:
  "\<exists>f. fine_reachable (loop_core 0) f \<and> in_handler f = Some (Looping (Some 0xEAFFFFFE)) \<and>
    arm (client (coarse f)) = loop_core 1 \<and> (\<exists>s. sim_reachable (loop_core 0) s \<and> started f s)"
proof -
  from stuck_in_loop obtain s where s: "sim_reachable (loop_core 0) s" "gdb_at s = Gdb_holds Cont ''''"
    "arm (client s) = loop_core 0" by blast
  let ?g = "(client s)\<lparr>arm := loop_core 1, target_exception := 0\<rparr>"
  let ?f1 = "\<lparr>coarse = s, in_handler = Some (Looping None), in_exception = None\<rparr>"
  let ?f2 = "\<lparr>coarse = s\<lparr>client := ?g\<rparr>, in_handler = Some (Looping (Some 0xEAFFFFFE)), in_exception = None\<rparr>"
  have "fine_reachable (loop_core 0) (at_rest s)" using s(1) by (rule sim_reachable_fine)
  moreover have "fine_step (at_rest s) ?f1"
    using handler_enters [of "at_rest s" Cont "''''"] s(2) by (simp add: at_rest_def)
  moreover have "fine_step ?f1 ?f2"
    using handler_ticks [of ?f1 "Looping None" ?g "Looping (Some 0xEAFFFFFE)"] loop_core_tick [OF s(3)] by simp
  ultimately have f: "fine_reachable (loop_core 0) ?f2" by (blast intro: fine_next)
  from operations_are_atomic [OF f] f show ?thesis by (intro exI [of _ ?f2]) simp
qed

text \<open>
  C33: While the gdb thread runs, inside the lock, a request that does not return, as a continue
  over a program without a breakpoint, no interrupt is raised: in every state the threads reach
  from there, access by access, the request is still at work, the core and what was sent are
  what its own accesses made them, one after the other from the state it found, and the
  interrupt thread is outside the lock.
\<close>

lemma interrupts_wait:
  assumes "fine_reachable p f" "gdb_at (coarse f) = Gdb_holds h data" "in_handler f = None"
    and "\<forall>g. run_handler h (client (coarse f)) data \<noteq> Some (Done g)" "fine_step\<^sup>*\<^sup>* f f'"
  shows "gdb_at (coarse f') = Gdb_holds h data \<and> in_exception f' = None \<and> \<not> irq_in (irq_at (coarse f')) \<and>
    (case in_handler f' of
       None \<Rightarrow> client (coarse f') = client (coarse f)
     | Some c \<Rightarrow> \<exists>c0. enter_handler (h, data) (client (coarse f)) = Some c0 \<and>
         ticks tick c0 (client (coarse f)) c (client (coarse f')))"
proof -
  have "waits h data (client (coarse f)) f"
    using assms(1-3) fine_lock_ok by (auto simp: waits_def dest: holding_no_exception)
  from waits_steps [OF assms(5) this assms(4)] show ?thesis
    by (auto simp: waits_def lock_ok_def split: option.splits)
qed

lemma interrupts_wait_witness:
  "\<exists>f f'. fine_reachable (loop_core 0) f \<and> fine_step\<^sup>*\<^sup>* f f' \<and> arm (client (coarse f')) = loop_core 1 \<and>
    (\<forall>f''. fine_step\<^sup>*\<^sup>* f f'' \<longrightarrow> in_exception f'' = None \<and> \<not> irq_in (irq_at (coarse f'')))"
proof -
  from stuck_in_loop obtain s where s: "sim_reachable (loop_core 0) s" "gdb_at s = Gdb_holds Cont ''''"
    "arm (client s) = loop_core 0" by blast
  let ?g = "(client s)\<lparr>arm := loop_core 1, target_exception := 0\<rparr>"
  let ?f1 = "\<lparr>coarse = s, in_handler = Some (Looping None), in_exception = None\<rparr>"
  let ?f2 = "\<lparr>coarse = s\<lparr>client := ?g\<rparr>, in_handler = Some (Looping (Some 0xEAFFFFFE)), in_exception = None\<rparr>"
  have "fine_step (at_rest s) ?f1"
    using handler_enters [of "at_rest s" Cont "''''"] s(2) by (simp add: at_rest_def)
  moreover have "fine_step ?f1 ?f2"
    using handler_ticks [of ?f1 "Looping None" ?g "Looping (Some 0xEAFFFFFE)"] loop_core_tick [OF s(3)] by simp
  ultimately have "fine_step\<^sup>*\<^sup>* (at_rest s) ?f2" by (meson converse_rtranclp_into_rtranclp rtranclp.rtrancl_refl)
  moreover have "arm (client (coarse ?f2)) = loop_core 1" by simp
  moreover from loop_core_continue [OF s(3)] have "\<forall>g. run_handler Cont (client s) '''' \<noteq> Some (Done g)"
    by (simp only: run_handler.simps option.map) blast
  with interrupts_wait [OF sim_reachable_fine [OF s(1)], of Cont "''''"] s(2) have
    "\<forall>f''. fine_step\<^sup>*\<^sup>* (at_rest s) f'' \<longrightarrow> in_exception f'' = None \<and> \<not> irq_in (irq_at (coarse f''))"
    by (simp add: at_rest_def)
  ultimately show ?thesis using sim_reachable_fine [OF s(1)] by blast
qed

end
