(* ===== verification/Service.thy ===== *)
theory Service
  imports Debugger Atomicity
begin

text \<open>
  The service of the simulator as a whole: requests and interrupts, in the order in which they
  take effect. Every state the threads reach is the result of such an order, one whole request
  or exception after the other, and the abstract debugger with interrupts gives what is sent
  and the state of the machine for each.
\<close>

subsection \<open>Whole requests and exceptions in order\<close>

datatype event = Packet string | Resent | Rejected | Raised u8

fun serial_event :: "event \<Rightarrow> gdb_data \<Rightarrow> gdb_data option" where
  "serial_event (Packet f) g = (case gdb_packet_analysis g f of Some (Done g') \<Rightarrow> Some g' | _ \<Rightarrow> None)"
| "serial_event Resent g = Some (gdb_transmit_packet g)"
| "serial_event Rejected g = Some (gdb_require_retransmission g)"
| "serial_event (Raised e) g = whole_exception e g"

fun serial :: "event list \<Rightarrow> gdb_data \<Rightarrow> gdb_data option" where
  "serial [] g = Some g"
| "serial (e # es) g = do { g \<leftarrow> serial_event e g; serial es g }"

lemma serial_append: "serial (es @ es') g = do { g \<leftarrow> serial es g; serial es' g }"
  by (induction es arbitrary: g) (auto split: Option.bind_splits)

subsection \<open>The history of a schedule\<close>

text \<open>
  The steps of \<open>sim_step\<close>, with the list of what has taken effect, and the packet that has been
  acknowledged and not yet served. A request takes effect when it is served, an exception when
  it is raised.
\<close>

inductive history :: "arm_core_data \<Rightarrow> sim \<Rightarrow> event list \<Rightarrow> string option \<Rightarrow> bool" for p where
  hist_start: "history p (sim_initial p) [] None"
| hist_answers: "history p s es None \<Longrightarrow> gdb_at s = Gdb_scanning \<Longrightarrow>
    gdb_accept (client s) f = Some (Answers g) \<Longrightarrow> history p (s\<lparr>client := g\<rparr>) (es @ [Packet f]) None"
| hist_resends: "history p s es None \<Longrightarrow> gdb_at s = Gdb_scanning \<Longrightarrow>
    history p (s\<lparr>client := gdb_transmit_packet (client s)\<rparr>) (es @ [Resent]) None"
| hist_rejects: "history p s es None \<Longrightarrow> gdb_at s = Gdb_scanning \<Longrightarrow>
    history p (s\<lparr>client := gdb_require_retransmission (client s)\<rparr>) (es @ [Rejected]) None"
| hist_accepts: "history p s es None \<Longrightarrow> gdb_at s = Gdb_scanning \<Longrightarrow>
    gdb_accept (client s) f = Some (Runs g h data) \<Longrightarrow>
    history p (s\<lparr>client := g, gdb_at := Gdb_wants h data\<rparr>) es (Some f)"
| hist_locks: "history p s es (Some f) \<Longrightarrow> gdb_at s = Gdb_wants h data \<Longrightarrow> holder s = None \<Longrightarrow>
    history p (s\<lparr>holder := Some Gdb_thread, gdb_at := Gdb_holds h data\<rparr>) es (Some f)"
| hist_serves: "history p s es (Some f) \<Longrightarrow> gdb_at s = Gdb_holds h data \<Longrightarrow>
    run_handler h (client s) data = Some (Done g) \<Longrightarrow>
    history p (s\<lparr>client := g, gdb_at := Gdb_served\<rparr>) (es @ [Packet f]) None"
| hist_unlocks: "history p s es None \<Longrightarrow> gdb_at s = Gdb_served \<Longrightarrow>
    history p (s\<lparr>holder := None, gdb_at := Gdb_scanning\<rparr>) es None"
| hist_irq_reads: "history p s es x \<Longrightarrow> irq_at s = Irq_reading \<Longrightarrow> history p (s\<lparr>irq_at := Irq_wants e\<rparr>) es x"
| hist_irq_locks: "history p s es x \<Longrightarrow> irq_at s = Irq_wants e \<Longrightarrow> holder s = None \<Longrightarrow>
    history p (s\<lparr>holder := Some Irq_thread, irq_at := Irq_holds e\<rparr>) es x"
| hist_raises: "history p s es x \<Longrightarrow> irq_at s = Irq_holds e \<Longrightarrow> arm_exception (arm (client s)) e = Some q \<Longrightarrow>
    history p (s\<lparr>client := (client s)\<lparr>arm := q\<rparr>, irq_at := Irq_served\<rparr>) (es @ [Raised e]) x"
| hist_irq_unlocks: "history p s es x \<Longrightarrow> irq_at s = Irq_served \<Longrightarrow>
    history p (s\<lparr>holder := None, irq_at := Irq_reading\<rparr>) es x"

text \<open>Where the gdb thread is tells whether a packet waits to be served.\<close>

fun waiting :: "gdb_place \<Rightarrow> bool" where
  "waiting (Gdb_wants h data) = True"
| "waiting (Gdb_holds h data) = True"
| "waiting _ = False"

lemma history_waiting: "history p s es x \<Longrightarrow> waiting (gdb_at s) \<longleftrightarrow> x \<noteq> None"
  by (induction rule: history.induct) (simp_all add: sim_initial_def)

lemma history_steps: "history p s es x \<Longrightarrow> sim_reachable p s"
  by (induction rule: history.induct) (blast intro: sim_start sim_next sim_step.intros)+

lemma history_next:
  assumes "history p s es x" "sim_step s t"
  shows "\<exists>es y. history p t es y"
proof -
  note w = history_waiting [OF assms(1)]
  from assms(2) show ?thesis
  proof (cases rule: sim_step.cases)
    case (gdb_locks h data)
    with w assms(1) hist_locks show ?thesis by fastforce
  next
    case (gdb_serves h data g)
    with w assms(1) hist_serves show ?thesis by fastforce
  qed (use w assms(1) in \<open>auto intro: history.intros\<close>)
qed

lemma reachable_history: "sim_reachable p s \<Longrightarrow> \<exists>es x. history p s es x"
  by (induction rule: sim_reachable.induct) (blast intro: hist_start history_next)+

text \<open>The result of an order is the state of the threads, but for a packet that waits.\<close>

definition outcome_ok :: "gdb_data \<Rightarrow> string option \<Rightarrow> sim \<Rightarrow> bool" where
  "outcome_ok g x s \<longleftrightarrow> (case x of
       None \<Rightarrow> client s = g
     | Some f \<Rightarrow> \<exists>h data. gdb_accept g f = Some (Runs (client s) h data) \<and>
         (gdb_at s = Gdb_wants h data \<or> gdb_at s = Gdb_holds h data))"

lemma accept_acknowledges: "gdb_accept g f = Some (Runs g' h data) \<Longrightarrow> g' = gdb_send_ack g"
  by (auto simp: gdb_accept_def Let_def Option.bind_eq_Some_conv split: if_splits list.splits option.splits)

lemma serial_event_packet:
  "gdb_accept g f = Some (Answers g') \<Longrightarrow> serial_event (Packet f) g = Some g'"
  "gdb_accept g f = Some (Runs g1 h data) \<Longrightarrow> run_handler h g1 data = Some (Done g') \<Longrightarrow>
     serial_event (Packet f) g = Some g'"
  by (simp_all add: packet_analysis_accept)

lemma history_serial:
  "history p s es x \<Longrightarrow> \<exists>g. serial es (gdb_init_data p) = Some g \<and> outcome_ok g x s"
proof (induction rule: history.induct)
  case hist_start
  show ?case by (simp add: outcome_ok_def sim_initial_def)
next
  case (hist_answers s es f g)
  then show ?case by (auto simp: outcome_ok_def serial_append serial_event_packet simp del: serial_event.simps)
next
  case (hist_accepts s es f g h data)
  then show ?case by (auto simp: outcome_ok_def)
next
  case (hist_serves s es f h data g)
  then obtain g0 where g0: "serial es (gdb_init_data p) = Some g0"
    "gdb_accept g0 f = Some (Runs (client s) h data)" by (auto simp: outcome_ok_def)
  from serial_event_packet(2) [OF g0(2) hist_serves.hyps(3)] g0(1)
  show ?case by (simp add: outcome_ok_def serial_append del: serial_event.simps)
next
  case (hist_raises s es x e q)
  then obtain g where g: "serial es (gdb_init_data p) = Some g" "outcome_ok g x s" by blast
  have same: "arm (client s) = arm g"
    using g(2) accept_arm(2) by (auto simp: outcome_ok_def split: option.splits)
  let ?s = "s\<lparr>client := (client s)\<lparr>arm := q\<rparr>, irq_at := Irq_served\<rparr>"
  have "serial (es @ [Raised e]) (gdb_init_data p) = Some (g\<lparr>arm := q\<rparr>)"
    using g(1) hist_raises.hyps(3) same by (simp add: serial_append whole_exception_def)
  moreover have "outcome_ok (g\<lparr>arm := q\<rparr>) x ?s"
    using g(2) by (auto simp: outcome_ok_def accept_put_arm split: option.splits)
  ultimately show ?case by blast
qed (auto simp: outcome_ok_def serial_append split: option.splits)

text \<open>Every order has a schedule: one event after the other, the threads idle between them.\<close>

definition idle :: "gdb_data \<Rightarrow> sim" where
  "idle g = \<lparr>client = g, holder = None, gdb_at = Gdb_scanning, irq_at = Irq_reading\<rparr>"

lemma history_event:
  assumes h: "history p (idle g) es None" and e: "serial_event e g = Some g'"
  shows "history p (idle g') (es @ [e]) None"
proof (cases e)
  case (Packet f)
  with e obtain a where a: "gdb_accept g f = Some a"
    by (auto simp: packet_analysis_accept split: option.splits)
  show ?thesis
  proof (cases a)
    case (Answers g1)
    with a e Packet have "gdb_accept (client (idle g)) f = Some (Answers g')"
      by (simp add: packet_analysis_accept idle_def)
    from hist_answers [OF h _ this] Packet show ?thesis by (simp add: idle_def)
  next
    case (Runs g1 k data)
    with a e Packet have r: "run_handler k g1 data = Some (Done g')"
      by (auto simp: packet_analysis_accept split: option.splits gdb_result.splits)
    have "gdb_accept (client (idle g)) f = Some (Runs g1 k data)" using a Runs by (simp add: idle_def)
    from hist_accepts [OF h _ this] have "history p ((idle g1)\<lparr>gdb_at := Gdb_wants k data\<rparr>) es (Some f)"
      by (simp add: idle_def)
    from hist_locks [OF this, of k data]
    have "history p ((idle g1)\<lparr>holder := Some Gdb_thread, gdb_at := Gdb_holds k data\<rparr>) es (Some f)"
      by (simp add: idle_def)
    from hist_serves [OF this, of k data g'] r
    have "history p ((idle g')\<lparr>holder := Some Gdb_thread, gdb_at := Gdb_served\<rparr>) (es @ [Packet f]) None"
      by (simp add: idle_def)
    from hist_unlocks [OF this] Packet show ?thesis by (simp add: idle_def)
  qed
next
  case Resent
  with hist_resends [OF h] e show ?thesis by (simp add: idle_def)
next
  case Rejected
  with hist_rejects [OF h] e show ?thesis by (simp add: idle_def)
next
  case (Raised x)
  with e obtain q where q: "arm_exception (arm g) x = Some q" "g' = g\<lparr>arm := q\<rparr>"
    by (auto simp: whole_exception_def)
  from hist_irq_reads [OF h, of x] have "history p ((idle g)\<lparr>irq_at := Irq_wants x\<rparr>) es None" by (simp add: idle_def)
  from hist_irq_locks [OF this, of x]
  have "history p ((idle g)\<lparr>holder := Some Irq_thread, irq_at := Irq_holds x\<rparr>) es None" by (simp add: idle_def)
  from hist_raises [OF this, of x q] q
  have "history p ((idle g')\<lparr>holder := Some Irq_thread, irq_at := Irq_served\<rparr>) (es @ [Raised x]) None"
    by (simp add: idle_def)
  from hist_irq_unlocks [OF this] Raised show ?thesis by (simp add: idle_def)
qed

lemma serial_history: "serial es (gdb_init_data p) = Some g \<Longrightarrow> history p (idle g) es None"
proof (induction es arbitrary: g rule: rev_induct)
  case Nil
  then show ?case using hist_start [of p] by (simp add: idle_def sim_initial_def)
next
  case (snoc e es)
  then obtain g1 where "serial es (gdb_init_data p) = Some g1" "serial_event e g1 = Some g"
    by (auto simp: serial_append Option.bind_eq_Some_conv)
  with snoc.IH history_event show ?case by blast
qed

subsection \<open>The abstract debugger with interrupts\<close>

datatype occurrence = Request command | Interrupt u8

fun event_of :: "occurrence \<Rightarrow> event" where
  "event_of (Request c) = (if c = Again then Resent else Packet (message c))"
| "event_of (Interrupt e) = Raised e"

definition isa_interrupt :: "u8 \<Rightarrow> isa \<Rightarrow> isa" where
  "isa_interrupt e s = (if e = 1 then s\<lparr>ipc := 0\<rparr> else s)"

fun service_run :: "nat \<Rightarrow> occurrence list \<Rightarrow> isa \<Rightarrow> string \<Rightarrow> (string list \<times> isa \<times> string) option" where
  "service_run fuel [] s l = Some ([], s, l)"
| "service_run fuel (Request c # es) s l =
     (case debug_run fuel [c] s l of
        None \<Rightarrow> None
      | Some (out, t, l) \<Rightarrow> map_option (\<lambda>(out', r). (out @ out', r)) (service_run fuel es t l))"
| "service_run fuel (Interrupt e # es) s l = service_run fuel es (isa_interrupt e s) l"

text \<open>Without interrupts it is the debugger of \<open>Debugger\<close>.\<close>

lemma debug_run_append:
  "debug_run fuel (cs @ cs') s l =
     do {
       (out, t, l) \<leftarrow> debug_run fuel cs s l;
       (out', r) \<leftarrow> debug_run fuel cs' t l;
       Some (out @ out', r)
     }"
  by (induction cs arbitrary: s l)
    (auto simp: map_option_case split: Option.bind_splits option.splits prod.splits)

lemma service_run_requests: "service_run fuel (map Request cs) s l = debug_run fuel cs s l"
proof (induction cs arbitrary: s l)
  case (Cons c cs)
  have "debug_run fuel (c # cs) s l = debug_run fuel ([c] @ cs) s l" by simp
  then show ?case
    by (auto simp: debug_run_append [of fuel "[c]" cs, simplified append.simps] Cons.IH map_option_case simp del: debug_run.simps
        split: Option.bind_splits option.splits prod.splits)
qed simp

lemma command_served:
  assumes "debug_run fuel [c] s l = Some (out, t, l')" "implements g s" "packet g = l"
  shows "\<exists>g'. serial_event (event_of (Request c)) g = Some g' \<and> implements g' t \<and> packet g' = l' \<and>
    sent g' = sent g @ out"
proof (cases "c = Again")
  case True
  have "packet (gdb_transmit_packet g) = packet g" "sent (gdb_transmit_packet g) = sent g @ [packet g]"
    by (simp_all add: gdb_transmit_packet_def Rio_writen_def)
  with True assms show ?thesis by auto
next
  case False
  with assms(1) obtain payload where ex: "execute fuel c s = Some (payload, t)"
    and out: "out = [''+'', frame payload]" "l' = frame payload"
    by (auto simp: Option.bind_eq_Some_conv)
  have "implements (gdb_send_ack g) s" using assms(2) by simp
  from execute_implemented [OF this ex] obtain q where
    q: "dispatch (gdb_send_ack g) (request c) = Some (Done (reply ((gdb_send_ack g)\<lparr>arm := q\<rparr>) payload))"
      "implements ((gdb_send_ack g)\<lparr>arm := q\<rparr>) t" by blast
  let ?g = "reply ((gdb_send_ack g)\<lparr>arm := q\<rparr>) payload"
  have "serial_event (event_of (Request c)) g = Some ?g"
    using False q(1) by (simp add: message_def analysis_frame)
  moreover have "packet ?g = l'" "sent ?g = sent g @ out"
    using out by (simp_all add: reply_def gdb_send_ack_def Rio_writen_def)
  moreover have "implements ?g t" using q(2) by simp
  ultimately show ?thesis by blast
qed

lemma interrupt_served:
  assumes "implements g s"
  shows "\<exists>g'. serial_event (Raised e) g = Some g' \<and> implements g' (isa_interrupt e s) \<and>
    packet g' = packet g \<and> sent g' = sent g"
  using assms arm_exception_reset [of "arm g"] arm_exception_other [of e "arm g"]
  by (cases "e = 1") (auto simp: whole_exception_def isa_interrupt_def implements_def isa_of_def pc_word_def
      wf_core_def wf_registers_def)

lemma service_implemented:
  assumes "service_run fuel es s l = Some (out, t, l')" "implements g s" "packet g = l"
  shows "\<exists>g'. serial (map event_of es) g = Some g' \<and> implements g' t \<and> packet g' = l' \<and> sent g' = sent g @ out"
  using assms
proof (induction fuel es s l arbitrary: g out rule: service_run.induct)
  case (1 fuel s l)
  then show ?case by simp
next
  case (2 fuel c es s l)
  from 2(2) obtain out1 u l1 out2 where r: "debug_run fuel [c] s l = Some (out1, u, l1)"
    "service_run fuel es u l1 = Some (out2, t, l')" "out = out1 @ out2"
    by (auto simp del: debug_run.simps split: option.splits)
  from command_served [OF r(1) 2(3,4)] obtain g1 where
    g1: "serial_event (event_of (Request c)) g = Some g1" "implements g1 u" "packet g1 = l1" "sent g1 = sent g @ out1"
    by blast
  from 2(1) [OF r(1) refl refl r(2) g1(2,3)] g1 r(3) show ?case by auto
next
  case (3 fuel e es s l)
  from interrupt_served [OF 3(3), of e] obtain g1 where
    g1: "serial_event (Raised e) g = Some g1" "implements g1 (isa_interrupt e s)" "packet g1 = packet g"
      "sent g1 = sent g" by blast
  from 3(1) [of out g1] g1 3(2,4) show ?case by auto
qed

subsection \<open>Everything that is sent\<close>

lemma accept_answers:
  assumes "answering g"
  shows "gdb_accept g f = Some (Answers g') \<Longrightarrow> answering g'"
    and "gdb_accept g f = Some (Runs g' h data) \<Longrightarrow> answering g'"
proof -
  have "answering g'" if "gdb_send_data (gdb_send_ack g) [] = Some g'" for g'
    using that answers_writes(1) [OF assms] answers_send [of "gdb_send_ack g" "[]" g'] by simp
  then show "gdb_accept g f = Some (Answers g') \<Longrightarrow> answering g'"
    using answers_writes [OF assms]
    by (auto simp: gdb_accept_def Let_def Option.bind_eq_Some_conv split: if_splits list.splits option.splits)
  show "gdb_accept g f = Some (Runs g' h data) \<Longrightarrow> answering g'"
    using answers_writes [OF assms]
    by (auto simp: gdb_accept_def Let_def Option.bind_eq_Some_conv split: if_splits list.splits option.splits)
qed

lemma sim_answers: "sim_reachable p s \<Longrightarrow> answering (client s)"
proof (induction rule: sim_reachable.induct)
  case sim_start
  show ?case by (simp add: sim_initial_def answers_init)
next
  case (sim_next s t)
  from sim_next.hyps(2) sim_next.IH show ?case
    by (cases rule: sim_step.cases) (auto intro: accept_answers answers_writes run_handler_answers)
qed

text \<open>An operation that is not at its end has sent nothing yet.\<close>

lemma tick_sends_nothing:
  assumes "tick c g = Some (g1, Some c1)"
  shows "packet g1 = packet g \<and> sent g1 = sent g"
proof (cases c)
  case (Writing_registers ks data)
  with assms show ?thesis by (cases ks) (auto simp: finished_def Option.bind_eq_Some_conv)
next
  case (Reading_registers ks s)
  with assms show ?thesis by (cases ks) (auto simp: finished_def Option.bind_eq_Some_conv)
next
  case (Reading_bytes n a x s)
  with assms show ?thesis by (cases n) (auto simp: finished_def Option.bind_eq_Some_conv split: if_splits)
qed (use assms in \<open>auto simp: finished_def step_target_def Option.bind_eq_Some_conv
    split: if_splits list.splits option.splits gdb_result.splits\<close>)

lemma ticks_send_nothing: "ticks tick c0 g0 c g \<Longrightarrow> packet g = packet g0 \<and> sent g = sent g0"
  by (induction rule: ticks.induct) (auto dest: tick_sends_nothing)

lemma fine_answers:
  assumes "fine_reachable p f"
  shows "answering (client (coarse f))"
proof -
  from fine_reachable_started [OF assms] obtain s where s: "sim_reachable p s" "started f s" by blast
  from s(2) sim_answers [OF s(1)] show ?thesis
    by (cases rule: started.cases) (auto simp: at_rest_def answering_def dest: ticks_send_nothing)
qed

text \<open>A state after a request for the status.\<close>

lemma status_served:
  "\<exists>f. fine_reachable (sample_core [0] []) f \<and> holder (coarse f) = None \<and> gdb_at (coarse f) = Gdb_scanning \<and>
     sent (client (coarse f)) = [''+'', frame ''S05'']"
proof -
  let ?p = "sample_core [0] []"
  have "wf_core ?p" by code_simp
  then have "implements (gdb_send_ack (gdb_init_data ?p)) (isa_of ?p)"
    by (simp add: implements_def gdb_init_data_def gdb_send_ack_def Rio_writen_def)
  from execute_status [OF this]
  have "serial [Packet (frame ''?'')] (gdb_init_data ?p) = Some (reply (gdb_send_ack (gdb_init_data ?p)) ''S05'')"
    by (simp add: analysis_frame)
  from sim_reachable_fine [OF history_steps [OF serial_history [OF this]]] show ?thesis
    by (auto simp: at_rest_def idle_def sim_initial_def reply_def gdb_send_ack_def Rio_writen_def gdb_init_data_def)
qed

subsection \<open>Properties\<close>

text \<open>
  C3: The simulator with interrupts implements the abstract debugger with interrupts. For any
  sequence of commands and interrupts that it answers, within the limits of Isa, the threads
  have a schedule in which they take effect in this order; and in every schedule in which they
  do, however the steps of the threads interleave, the state of the machine is the abstract one,
  and what has been sent is the abstract output, followed by the acknowledgement of a request
  that still waits for the lock or is being served.
\<close>

lemma service_refines:
  assumes "wf_core p" and "service_run fuel es (isa_of p) [] = Some (out, t, l)"
  shows "(\<exists>s. history p s (map event_of es) None \<and> holder s = None) \<and>
    (\<forall>s x. history p s (map event_of es) x \<longrightarrow>
       isa_of (arm (client s)) = t \<and> sent (client s) = out @ (if x = None then [] else [''+'']))"
proof -
  have "implements (gdb_init_data p) (isa_of p)" "packet (gdb_init_data p) = []" "sent (gdb_init_data p) = []"
    using assms(1) by (simp_all add: implements_def gdb_init_data_def)
  with service_implemented [OF assms(2)] obtain g where
    g: "serial (map event_of es) (gdb_init_data p) = Some g" "implements g t" "sent g = out" by fastforce
  have "isa_of (arm (client s)) = t \<and> sent (client s) = out @ (if x = None then [] else [''+''])"
    if "history p s (map event_of es) x" for s x
  proof -
    from history_serial [OF that] g(1) have "outcome_ok g x s" by simp
    then have "client s = (if x = None then g else gdb_send_ack g)"
      by (auto simp: outcome_ok_def split: option.splits dest: accept_acknowledges)
    with g(2,3) show ?thesis by (auto simp: implements_def gdb_send_ack_def Rio_writen_def)
  qed
  with serial_history [OF g(1)] show ?thesis by (auto simp: idle_def)
qed

lemma service_refines_witness:
  "\<exists>s. history (sample_core [0xE3A00005, 0xE7F000F0] []) s
      (map event_of [Request (Set_register 15 8), Interrupt 1, Interrupt 6, Request Continue]) None \<and>
    sent (client s) = [''+'', frame ''OK'', ''+'', frame ''S05''] \<and> ireg (isa_of (arm (client s))) ! 0 = 5"
proof -
  let ?p = "sample_core [0xE3A00005, 0xE7F000F0] []"
  let ?es = "[Request (Set_register 15 8), Interrupt 1, Interrupt 6, Request Continue]"
  let ?out = "[''+'', frame ''OK'', ''+'', frame ''S05'']"
  have wf: "wf_core ?p" by code_simp
  have "map_option (\<lambda>(out, t, l). (out, ireg t ! 0)) (service_run 1 ?es (isa_of ?p) []) = Some (?out, 5)"
    by code_simp
  then obtain t l where "service_run 1 ?es (isa_of ?p) [] = Some (?out, t, l)" "ireg t ! 0 = 5" by auto
  with service_refines [OF wf this(1)] show ?thesis by fastforce
qed

text \<open>
  C5: Whenever the lock is free, however the accesses of the two threads have interleaved, there
  is an order of whole requests and exceptions, each served from the result of the one before
  it, that gives the data of the client with the core, but for the acknowledgement of a request
  that has not entered the lock; and the same order is that of a schedule in which the threads
  never overlap.
\<close>

lemma threads_are_serialisable:
  assumes "fine_reachable p f" and "holder (coarse f) = None"
  shows "\<exists>es x g. history p (coarse f) es x \<and> serial es (gdb_init_data p) = Some g \<and>
    client (coarse f) = (if x = None then g else gdb_send_ack g) \<and> history p (idle g) es None"
proof -
  from fine_reachable_started [OF assms(1)] obtain s where "sim_reachable p s" "started f s" by blast
  with assms(2) have "sim_reachable p (coarse f)"
    using lock_ok_reachable [of p s] by (elim started.cases) (auto simp: at_rest_def lock_ok_def)
  with reachable_history obtain es x where h: "history p (coarse f) es x" by blast
  from history_serial [OF h] obtain g where
    g: "serial es (gdb_init_data p) = Some g" "outcome_ok g x (coarse f)" by blast
  from g(2) have "client (coarse f) = (if x = None then g else gdb_send_ack g)"
    by (auto simp: outcome_ok_def split: option.splits dest: accept_acknowledges)
  with h g(1) serial_history [OF g(1)] show ?thesis by blast
qed

lemma threads_are_serialisable_witness:
  "\<exists>f es g. fine_reachable (sample_core [0] []) f \<and> sent (client (coarse f)) = [''+'', frame ''S05''] \<and>
    serial es (gdb_init_data (sample_core [0] [])) = Some g \<and> client (coarse f) = g"
proof -
  obtain f where f: "fine_reachable (sample_core [0] []) f" "holder (coarse f) = None"
    "gdb_at (coarse f) = Gdb_scanning" "sent (client (coarse f)) = [''+'', frame ''S05'']"
    using status_served by blast
  from threads_are_serialisable [OF f(1,2)] obtain es x g where
    r: "history (sample_core [0] []) (coarse f) es x" "serial es (gdb_init_data (sample_core [0] [])) = Some g"
      "client (coarse f) = (if x = None then g else gdb_send_ack g)" by blast
  moreover from history_waiting [OF r(1)] have "x = None" by (simp add: f(3))
  ultimately show ?thesis using f(1,4) by auto
qed

text \<open>
  C24: At every moment of every schedule of the two threads, whatever packets, retransmission
  requests and noise the client has sent and whatever interrupts have come, and also before or
  inside a request that then aborts, never returns or overflows the packet array, all that was
  sent until then is a list of acknowledgements, requests for retransmission and frames whose
  payload is at most 1019 characters without a start or end mark (a resend asked for before the
  first answer sends nothing); and a peer that splits the stream by the scanner's own rules
  reads back exactly these.
\<close>

lemma answers_are_well_formed:
  assumes "fine_reachable p f"
  shows "\<exists>xs. list_all proper xs \<and> sent (client (coarse f)) = map answer_text xs \<and>
    tokens (concat (sent (client (coarse f)))) = concat (map answer_tokens xs)"
proof -
  have "list_all is_answer (sent (client (coarse f)))"
    using fine_answers [OF assms] by (simp add: answering_def)
  from answer_list [OF this] obtain xs where "list_all proper xs" "sent (client (coarse f)) = map answer_text xs"
    by blast
  then show ?thesis by (intro exI [of _ xs]) (simp add: tokens_answers)
qed

lemma answers_are_well_formed_witness:
  "\<exists>f xs. fine_reachable (sample_core [0] []) f \<and> list_all proper xs \<and>
     sent (client (coarse f)) = [''+'', frame ''S05''] \<and> sent (client (coarse f)) = map answer_text xs \<and>
     tokens (''+'' @ frame ''S05'') = concat (map answer_tokens xs)"
proof -
  obtain f where f: "fine_reachable (sample_core [0] []) f" "sent (client (coarse f)) = [''+'', frame ''S05'']"
    using status_served by blast
  from answers_are_well_formed [OF f(1)] obtain xs where xs: "list_all proper xs"
    "sent (client (coarse f)) = map answer_text xs"
    "tokens (concat (sent (client (coarse f)))) = concat (map answer_tokens xs)" by blast
  moreover have "tokens (''+'' @ frame ''S05'') = concat (map answer_tokens xs)"
    using xs(3) unfolding f(2) by simp
  ultimately show ?thesis using f by blast
qed

end
