(* ===== verification/MemoryTest.thy ===== *)
theory MemoryTest
  imports Memory
begin

text \<open>
  \<open>memory_test.c\<close>: the test program of the memory, with its eight tests. A value of the program
  is compared through its host bytes. Of the texts it prints, only the verdicts are kept.
\<close>

definition half_bytes :: "u16 \<Rightarrow> u8 list" where
  "half_bytes h = [ucast h, ucast (drop_bit 8 h)]"

definition byte_at :: "u8 list \<Rightarrow> int \<Rightarrow> u8 option" where
  "byte_at bs i = (if 0 \<le> i \<and> nat i < length bs then Some (bs ! nat i) else None)"

text \<open>The loop of \<open>compare\<close>, with \<open>n\<close> iterations left.\<close>

fun compare_loop :: "nat \<Rightarrow> int \<Rightarrow> int \<Rightarrow> int \<Rightarrow> u8 list \<Rightarrow> u8 list \<Rightarrow> int option" where
  "compare_loop 0 i j j_step a b = Some 1"
| "compare_loop (Suc n) i j j_step a b =
     do {
       x \<leftarrow> byte_at a i;
       y \<leftarrow> byte_at b j;
       if x \<noteq> y then Some 0 else compare_loop n (i + 1) (j + j_step) j_step a b
     }"

definition compare :: "u8 list \<Rightarrow> u8 list \<Rightarrow> nat \<Rightarrow> int \<Rightarrow> int option" where
  "compare a b n reverse =
     (if reverse \<noteq> 0 then compare_loop n 0 (int n - 1) (- 1) a b else compare_loop n 0 0 1 a b)"

fun compare_sim_loop ::
  "nat \<Rightarrow> int \<Rightarrow> int \<Rightarrow> int \<Rightarrow> u8 list \<Rightarrow> memory_data \<Rightarrow> u8 option \<Rightarrow> int option" where
  "compare_sim_loop 0 i j j_step a m value = Some 1"
| "compare_sim_loop (Suc n) i j j_step a m value =
     do {
       (_, value) \<leftarrow> memory_read_byte m (word_of_int j) value;
       x \<leftarrow> byte_at a i;
       v \<leftarrow> value;
       if x \<noteq> v then Some 0 else compare_sim_loop n (i + 1) (j + j_step) j_step a m value
     }"

definition compare_with_sim :: "u8 list \<Rightarrow> memory_data \<Rightarrow> nat \<Rightarrow> int \<Rightarrow> int option" where
  "compare_with_sim a m n reverse =
     (if reverse \<noteq> 0 then compare_sim_loop n 0 (int n - 1) (- 1) a m None
      else compare_sim_loop n 0 0 1 a m None)"

text \<open>The array \<open>m\<close> of the two memories, indexed by the endianness.\<close>

definition pick :: "int \<Rightarrow> memory_data \<times> memory_data \<Rightarrow> memory_data" where
  "pick k m = (if k = 0 then fst m else snd m)"

definition put :: "int \<Rightarrow> memory_data \<Rightarrow> memory_data \<times> memory_data \<Rightarrow> memory_data \<times> memory_data" where
  "put k x m = (if k = 0 then (x, snd m) else (fst m, x))"

fun write_bytes :: "nat list \<Rightarrow> u8 list \<Rightarrow> memory_data \<times> memory_data \<Rightarrow> (memory_data \<times> memory_data) option"
  where
  "write_bytes [] bs m = Some m"
| "write_bytes (i # is) bs m =
     do {
       b \<leftarrow> byte_at bs (int i);
       (_, m0) \<leftarrow> memory_write_byte (pick 0 m) (of_nat i) b;
       (_, m1) \<leftarrow> memory_write_byte (pick 1 m) (of_nat i) b;
       write_bytes is bs (m0, m1)
     }"

text \<open>The verdicts, in the order they are printed.\<close>

definition memory_test_main :: "(nat \<Rightarrow> u8) \<Rightarrow> (nat \<Rightarrow> u8) \<Rightarrow> int list option" where
  "memory_test_main fresh0 fresh1 =
     do {
       let word_value = 0x11223344;
       let half_value = 0x5566;
       let m = (memory_create fresh0 4 False, memory_create fresh1 4 True);
       let be = is_big_endian;
       m \<leftarrow> write_bytes [0, 1, 2, 3] (host_bytes word_value) m;
       (_, word_read) \<leftarrow> memory_read_word (pick be m) 0 None;
       w \<leftarrow> word_read;
       t1 \<leftarrow> compare (host_bytes word_value) (host_bytes w) 4 0;
       (_, half_read) \<leftarrow> memory_read_half (pick be m) 0 None;
       h \<leftarrow> half_read;
       t2 \<leftarrow> compare (host_bytes word_value) (half_bytes h) 2 0;
       (_, word_read) \<leftarrow> memory_read_word (pick (1 - be) m) 0 word_read;
       w \<leftarrow> word_read;
       t3 \<leftarrow> compare (host_bytes word_value) (host_bytes w) 4 1;
       (_, half_read) \<leftarrow> memory_read_half (pick (1 - be) m) 0 half_read;
       h \<leftarrow> half_read;
       t4 \<leftarrow> compare (host_bytes word_value) (half_bytes h) 2 1;
       (_, x) \<leftarrow> memory_write_word (pick be m) 0 word_value;
       let m = put be x m;
       t5 \<leftarrow> compare_with_sim (host_bytes word_value) (pick be m) 4 0;
       (_, x) \<leftarrow> memory_write_half (pick be m) 0 half_value;
       let m = put be x m;
       t6 \<leftarrow> compare_with_sim (half_bytes half_value) (pick be m) 2 0;
       (_, x) \<leftarrow> memory_write_word (pick (1 - be) m) 0 word_value;
       let m = put (1 - be) x m;
       t7 \<leftarrow> compare_with_sim (host_bytes word_value) (pick (1 - be) m) 4 1;
       (_, x) \<leftarrow> memory_write_half (pick (1 - be) m) 0 half_value;
       let m = put (1 - be) x m;
       t8 \<leftarrow> compare_with_sim (half_bytes half_value) (pick (1 - be) m) 2 1;
       Some [t1, t2, t3, t4, t5, t6, t7, t8]
     }"

definition print_test :: "int \<Rightarrow> string" where
  "print_test result = (if result \<noteq> 0 then ''Test succeded'' else ''TEST FAILED !!'') @ [CHR 0x0A]"

text \<open>Both memories pass every test, whatever bytes their allocation leaves in them.\<close>

lemma memory_tests_succeed: "memory_test_main fresh0 fresh1 = Some [1, 1, 1, 1, 1, 1, 1, 1]"
  by code_simp

lemma memory_tests_print:
  "map_option (map print_test) (memory_test_main fresh0 fresh1) =
     Some (replicate 8 (''Test succeded'' @ [CHR 0x0A]))"
  by (simp add: memory_tests_succeed print_test_def numeral_eq_Suc)

end
