(* ===== verification/Memory2.thy ===== *)
theory Memory2
  imports Prelude
begin

text \<open>
  \<open>memory_2.c\<close>: the memory as it was before \<open>memory.c\<close> replaced it, an array of \<open>size\<close> words of
  which each address is one. No target builds the file, and it does not compile: the text of
  \<open>memory_write_half\<close> is cut in its last statement, so this function is not modelled. The
  creation asks \<open>malloc\<close> for the size of a pointer, 8 bytes, for an object of 24; the blocks of
  the host's \<open>malloc\<close> have at least 24, so the object fits. Conventions as in \<open>Memory\<close>: \<open>None\<close>
  is an access outside the array; a write also gives its return code, a read the new content
  of the caller's variable.
\<close>

record memory_2_data =
  size_2 :: u64
  memo_2 :: "u32 list"
  is_big_endian_2 :: bool

definition memory_2_create :: "(nat \<Rightarrow> u32) \<Rightarrow> u64 \<Rightarrow> bool \<Rightarrow> memory_2_data" where
  "memory_2_create fresh n be =
     \<lparr>size_2 = n, memo_2 = map fresh [0..<unat n], is_big_endian_2 = be\<rparr>"

definition memory_2_get_size :: "memory_2_data \<Rightarrow> u64" where
  "memory_2_get_size m = size_2 m"

definition memory_2_destroy :: "memory_2_data \<Rightarrow> memory_2_data option" where
  "memory_2_destroy m = None"

definition memo_2_at :: "memory_2_data \<Rightarrow> u32 \<Rightarrow> u32 option" where
  "memo_2_at m a = (if unat a < length (memo_2 m) then Some (memo_2 m ! unat a) else None)"

definition memo_2_set :: "memory_2_data \<Rightarrow> u32 \<Rightarrow> u32 \<Rightarrow> memory_2_data option" where
  "memo_2_set m a v =
     (if unat a < length (memo_2 m) then Some (m\<lparr>memo_2 := (memo_2 m)[unat a := v]\<rparr>) else None)"

text \<open>\<open>address < 0 || address > n * mem->size\<close>, with an unsigned address.\<close>

definition past_end_2 :: "memory_2_data \<Rightarrow> u64 \<Rightarrow> u32 \<Rightarrow> bool" where
  "past_end_2 m n a = (a < 0 \<or> (ucast a :: u64) > n * size_2 m)"

definition memory_2_read_byte :: "memory_2_data \<Rightarrow> u32 \<Rightarrow> u8 option \<Rightarrow> (int \<times> u8 option) option" where
  "memory_2_read_byte m a x =
     (if past_end_2 m 1 a then Some (- 1, x)
      else do { v \<leftarrow> memo_2_at m a; Some (0, Some (ucast (v AND 255))) })"

definition memory_2_read_half :: "memory_2_data \<Rightarrow> u32 \<Rightarrow> u16 option \<Rightarrow> (int \<times> u16 option) option" where
  "memory_2_read_half m a x =
     (if past_end_2 m 1 a then Some (- 1, x)
      else do { v \<leftarrow> memo_2_at m a; Some (0, Some (ucast (v AND 65535))) })"

definition memory_2_read_word :: "memory_2_data \<Rightarrow> u32 \<Rightarrow> u32 option \<Rightarrow> (int \<times> u32 option) option" where
  "memory_2_read_word m a x =
     (if past_end_2 m 4 a then Some (- 1, x)
      else do { v \<leftarrow> memo_2_at m a; Some (0, Some v) })"

text \<open>The three reversals: the bytes of the value, copied in the other order.\<close>

definition reverse_endianess_8_bit :: "u8 \<Rightarrow> u8" where
  "reverse_endianess_8_bit v = hd (rev [v])"

definition reverse_endianess_16_bit :: "u16 \<Rightarrow> u16" where
  "reverse_endianess_16_bit v =
     (let bytes = rev [ucast v :: u8, ucast (drop_bit 8 v)]
      in ucast (bytes ! 0) OR push_bit 8 (ucast (bytes ! 1)))"

definition reverse_endianess_32_bit :: "u32 \<Rightarrow> u32" where
  "reverse_endianess_32_bit v = host_word (rev (host_bytes v))"

text \<open>The code returned is the truth of a comparison: 1 for a write that was made.\<close>

definition memory_2_write_byte :: "memory_2_data \<Rightarrow> u32 \<Rightarrow> u8 \<Rightarrow> (int \<times> memory_2_data) option" where
  "memory_2_write_byte m a v =
     (if past_end_2 m 1 a then Some (- 1, m)
      else do {
        let v = (if is_big_endian_2 m then v else reverse_endianess_8_bit v);
        m \<leftarrow> memo_2_set m a (ucast v);
        w \<leftarrow> memo_2_at m a;
        Some (if w = ucast v then 1 else 0, m)
      })"

definition memory_2_write_word :: "memory_2_data \<Rightarrow> u32 \<Rightarrow> u32 \<Rightarrow> (int \<times> memory_2_data) option" where
  "memory_2_write_word m a v =
     (if past_end_2 m 4 a then Some (- 1, m)
      else do {
        let v = (if is_big_endian_2 m then v else reverse_endianess_32_bit v);
        m \<leftarrow> memo_2_set m a v;
        w \<leftarrow> memo_2_at m a;
        Some (if w = v then 1 else 0, m)
      })"

definition wf_memory_2 :: "memory_2_data \<Rightarrow> bool" where
  "wf_memory_2 m \<longleftrightarrow> length (memo_2 m) = unat (size_2 m) \<and> unat (size_2 m) < 2 ^ 32"

lemma wf_create_2: "unat n < 2 ^ 32 \<Longrightarrow> wf_memory_2 (memory_2_create fresh n be)"
  by (simp add: wf_memory_2_def memory_2_create_def)

lemma reverse_endianess_8_same [simp]: "reverse_endianess_8_bit v = v"
  by (simp add: reverse_endianess_8_bit_def)

lemma reverse_endianess_16_twice: "reverse_endianess_16_bit (reverse_endianess_16_bit v) = v"
  by (rule bit_word_eqI) (auto simp: reverse_endianess_16_bit_def bit_simps)

lemma reverse_endianess_32_twice: "reverse_endianess_32_bit (reverse_endianess_32_bit v) = v"
  by (simp add: reverse_endianess_32_bit_def del: host_word.simps)

lemma past_end_2_iff:
  assumes "wf_memory_2 m" "n \<in> {1, 4}"
  shows "past_end_2 m n a \<longleftrightarrow> unat n * unat (size_2 m) < unat a"
proof -
  have a: "unat (ucast a :: u64) = unat a"
    using unsigned_less [of a, where ?'a = nat] by (simp add: unsigned_ucast_eq take_bit_nat_eq_self)
  have "unat (n * size_2 m) = unat n * unat (size_2 m)"
    using assms by (auto simp: wf_memory_2_def unat_word_ariths)
  with a show ?thesis by (simp add: past_end_2_def word_less_nat_alt)
qed

lemma write_word_2:
  assumes "wf_memory_2 m" "unat a < unat (size_2 m)"
  shows "memory_2_write_word m a v = Some (1, m\<lparr>memo_2 := (memo_2 m)
    [unat a := if is_big_endian_2 m then v else reverse_endianess_32_bit v]\<rparr>)"
proof -
  have "\<not> past_end_2 m 4 a" using past_end_2_iff [OF assms(1), of 4 a] assms(2) by simp
  with assms show ?thesis
    by (simp add: memory_2_write_word_def memo_2_set_def memo_2_at_def wf_memory_2_def Let_def)
qed

lemma read_2:
  assumes "wf_memory_2 m" "unat a < unat (size_2 m)"
  shows "memory_2_read_word m a x = Some (0, Some (memo_2 m ! unat a))"
    "memory_2_read_byte m a y = Some (0, Some (ucast (memo_2 m ! unat a AND 255)))"
  using past_end_2_iff [OF assms(1), of 4 a] past_end_2_iff [OF assms(1), of 1 a] assms
  by (simp_all add: memory_2_read_word_def memory_2_read_byte_def memo_2_at_def wf_memory_2_def)

text \<open>The guards let the reads of words through up to four times the array.\<close>

lemma read_word_2_outside:
  assumes "wf_memory_2 m" "unat (size_2 m) \<le> unat a" "unat a \<le> 4 * unat (size_2 m)"
  shows "memory_2_read_word m a x = None"
  using past_end_2_iff [OF assms(1), of 4 a] assms
  by (simp add: memory_2_read_word_def memo_2_at_def wf_memory_2_def)

text \<open>
  The superseded memory does not keep the contract of memory.h: a write in the array returns 1
  instead of 0; a word written to a little-endian memory reads back with its bytes reversed; the
  bytes after the written one are unchanged, each address being a word of its own; and a word
  read from the end of the array to four times its size leaves the array.
\<close>

lemma memory_2_breaks_the_contract:
  assumes wf: "wf_memory_2 m" and a: "unat a < unat (size_2 m)"
  shows "\<exists>m'. memory_2_write_word m a v = Some (1, m') \<and> wf_memory_2 m' \<and>
    memory_2_read_word m' a x =
      Some (0, Some (if is_big_endian_2 m then v else reverse_endianess_32_bit v)) \<and>
    (\<forall>b y. unat b < unat (size_2 m) \<and> b \<noteq> a \<longrightarrow>
      memory_2_read_byte m' b y = memory_2_read_byte m b y) \<and>
    (\<forall>b z. unat (size_2 m) \<le> unat b \<and> unat b \<le> 4 * unat (size_2 m) \<longrightarrow>
      memory_2_read_word m' b z = None)"
proof -
  let ?m = "m\<lparr>memo_2 := (memo_2 m)[unat a := if is_big_endian_2 m then v else reverse_endianess_32_bit v]\<rparr>"
  have wf': "wf_memory_2 ?m" using wf by (simp add: wf_memory_2_def)
  have "unat a < length (memo_2 m)" using wf a by (simp add: wf_memory_2_def)
  then have "memory_2_read_word ?m a x =
      Some (0, Some (if is_big_endian_2 m then v else reverse_endianess_32_bit v))"
    using read_2(1) [OF wf', of a x] a by simp
  moreover have "memory_2_read_byte ?m b y = memory_2_read_byte m b y"
    if "unat b < unat (size_2 m)" "b \<noteq> a" for b y
    using that read_2(2) [OF wf', of b y] read_2(2) [OF wf, of b y] by (simp add: word_unat_eq_iff)
  moreover have "memory_2_read_word ?m b z = None"
    if "unat (size_2 m) \<le> unat b" "unat b \<le> 4 * unat (size_2 m)" for b z
    using that read_word_2_outside [OF wf', of b z] by simp
  ultimately show ?thesis using write_word_2 [OF wf a] wf' by blast
qed

end
