(* ===== verification/Rio.thy ===== *)
theory Rio
  imports Prelude
begin

text \<open>
  The robust I/O routines of \<open>csapp.c\<close>, which write the answers of the protocol to the client.
  The system's answers to \<open>write\<close> and \<open>read\<close> are a script, consumed one call at a time: a call
  with the script at its end does not return (\<open>None\<close>). A \<open>write\<close> gives its return code, with
  whether \<open>errno\<close> is \<open>EINTR\<close> when it is not positive; a \<open>read\<close> gives the bytes it delivers, the
  end of the file, or a failure with the same information. The system is assumed to write and
  deliver no more than it is asked for: an excess in the script is left for the next call.
\<close>

subsection \<open>Writing\<close>

type_synonym write_script = "(int \<times> bool) list"

text \<open>The loop, with the bytes left of the buffer and those written: return code, output, script.\<close>

fun rio_writen_loop :: "nat \<Rightarrow> write_script \<Rightarrow> string \<Rightarrow> string \<Rightarrow> (int \<times> string \<times> write_script) option" where
  "rio_writen_loop n script [] out = Some (int n, out, script)"
| "rio_writen_loop n [] (b # bs) out = None"
| "rio_writen_loop n ((nwritten, eintr) # script) (b # bs) out =
     (if nwritten \<le> 0
      then (if eintr then rio_writen_loop n script (b # bs) out else Some (- 1, out, script))
      else rio_writen_loop n script (drop (nat nwritten) (b # bs)) (out @ take (nat nwritten) (b # bs)))"

definition rio_writen :: "write_script \<Rightarrow> string \<Rightarrow> (int \<times> string \<times> write_script) option" where
  "rio_writen script usrbuf = rio_writen_loop (length usrbuf) script usrbuf []"

text \<open>The wrapper ends the process on an error.\<close>

datatype io_outcome = Written string write_script | Exits_unix_error

definition Rio_writen_wrapper :: "write_script \<Rightarrow> string \<Rightarrow> io_outcome option" where
  "Rio_writen_wrapper script usrbuf =
     do {
       (r, out, script) \<leftarrow> rio_writen script usrbuf;
       Some (if r \<noteq> int (length usrbuf) then Exits_unix_error else Written out script)
     }"

lemma rio_writen_loop_result:
  "rio_writen_loop n script bs out = Some (r, out', rest) \<Longrightarrow>
     (r = int n \<and> out' = out @ bs) \<or> (r = - 1 \<and> (\<exists>k \<le> length bs. out' = out @ take k bs))"
proof (induction n script bs out rule: rio_writen_loop.induct)
  case (3 n nwritten eintr script b bs out)
  show ?case
  proof (cases "nwritten \<le> 0")
    case True
    with 3 show ?thesis by (auto split: if_splits)
  next
    case False
    let ?k = "nat nwritten"
    from 3 False have "(r = int n \<and> out' = (out @ take ?k (b # bs)) @ drop ?k (b # bs)) \<or>
        (r = - 1 \<and> (\<exists>j \<le> length (drop ?k (b # bs)).
           out' = (out @ take ?k (b # bs)) @ take j (drop ?k (b # bs))))"
      by simp
    then show ?thesis
    proof
      assume "r = - 1 \<and> (\<exists>j \<le> length (drop ?k (b # bs)).
           out' = (out @ take ?k (b # bs)) @ take j (drop ?k (b # bs)))"
      then obtain j where j: "r = - 1" "j \<le> length (drop ?k (b # bs))"
        "out' = out @ take ?k (b # bs) @ take j (drop ?k (b # bs))" by auto
      have "take ?k (b # bs) @ take j (drop ?k (b # bs)) = take (?k + j) (b # bs)"
        by (simp only: take_add)
      with j show ?thesis
        by (intro disjI2 conjI exI [of _ "min (?k + j) (length (b # bs))"])
          (simp_all add: min_def)
    qed simp
  qed
qed auto

text \<open>Interruptions and short writes only delay: the bytes the script accepts are what counts.\<close>

definition accepted :: "write_script \<Rightarrow> nat" where
  "accepted script = sum_list (map (\<lambda>(r, _). nat r) script)"

lemma rio_writen_loop_total:
  "\<forall>(r, eintr) \<in> set script. r \<le> 0 \<longrightarrow> eintr \<Longrightarrow> length bs \<le> accepted script \<Longrightarrow>
     \<exists>rest. rio_writen_loop n script bs out = Some (int n, out @ bs, rest)"
proof (induction n script bs out rule: rio_writen_loop.induct)
  case (1 n script out)
  then show ?case by simp
next
  case (2 n b bs out)
  then show ?case by (simp add: accepted_def)
next
  case (3 n nwritten eintr script b bs out)
  show ?case
  proof (cases "nwritten \<le> 0")
    case True
    with 3 show ?thesis by (auto simp: accepted_def)
  next
    case False
    have "\<exists>rest. rio_writen_loop n script (drop (nat nwritten) (b # bs)) (out @ take (nat nwritten) (b # bs))
        = Some (int n, (out @ take (nat nwritten) (b # bs)) @ drop (nat nwritten) (b # bs), rest)"
      using 3 False by (intro "3.IH"(2)) (auto simp: accepted_def)
    with False show ?thesis by simp
  qed
qed

subsection \<open>Reading\<close>

datatype read_result = Got string | Eof | Failed bool

text \<open>One call of \<open>read\<close> for at most \<open>n\<close> bytes (\<open>n > 0\<close>); no byte delivered is the end of the file.\<close>

fun sys_read :: "nat \<Rightarrow> read_result list \<Rightarrow> (read_result \<times> read_result list) option" where
  "sys_read n [] = None"
| "sys_read n (Got bs # script) =
     (if bs = [] then Some (Eof, script)
      else if length bs \<le> n then Some (Got bs, script)
      else Some (Got (take n bs), Got (drop n bs) # script))"
| "sys_read n (r # script) = Some (r, script)"

definition script_size :: "read_result list \<Rightarrow> nat" where
  "script_size script = sum_list (map (\<lambda>r. case r of Got bs \<Rightarrow> Suc (length bs) | _ \<Rightarrow> 1) script)"

lemma sys_read_less: "0 < n \<Longrightarrow> sys_read n script = Some (r, script') \<Longrightarrow> script_size script' < script_size script"
  by (cases "(n, script)" rule: sys_read.cases) (auto simp: script_size_def split: if_splits)

function rio_readn_loop :: "read_result list \<Rightarrow> nat \<Rightarrow> string \<Rightarrow> (int \<times> string \<times> read_result list) option" where
  "rio_readn_loop script nleft out =
     (if nleft > 0
      then (case sys_read nleft script of
              None \<Rightarrow> None
            | Some (Failed eintr, script) \<Rightarrow>
                if eintr then rio_readn_loop script nleft out else Some (- 1, out, script)
            | Some (Eof, script) \<Rightarrow> Some (int (length out), out, script)
            | Some (Got bs, script) \<Rightarrow> rio_readn_loop script (nleft - length bs) (out @ bs))
      else Some (int (length out), out, script))"
  by pat_completeness auto
termination
  by (relation "measure (\<lambda>(script, nleft, out). script_size script)") (auto dest: sys_read_less)

declare rio_readn_loop.simps [simp del]

text \<open>\<open>n - nleft\<close>, the value returned, is the number of bytes read.\<close>

definition rio_readn :: "read_result list \<Rightarrow> nat \<Rightarrow> (int \<times> string \<times> read_result list) option" where
  "rio_readn script n = rio_readn_loop script n []"

text \<open>The bytes a script delivers before its first end of file.\<close>

fun stream :: "read_result list \<Rightarrow> string" where
  "stream [] = []"
| "stream (Got bs # script) = (if bs = [] then [] else bs @ stream script)"
| "stream (Eof # script) = []"
| "stream (Failed e # script) = stream script"

lemma sys_read_stream:
  "sys_read n script = Some (r, script') \<Longrightarrow> 0 < n \<Longrightarrow>
     (case r of Got bs \<Rightarrow> bs \<noteq> [] \<and> length bs \<le> n \<and> stream script = bs @ stream script'
      | Eof \<Rightarrow> stream script = [] | Failed e \<Rightarrow> stream script' = stream script)"
  by (cases "(n, script)" rule: sys_read.cases) (auto split: if_splits)

lemma rio_readn_loop_result:
  "rio_readn_loop script nleft out = Some (r, out', script') \<Longrightarrow> r \<noteq> - 1 \<Longrightarrow>
     out' = out @ take nleft (stream script) \<and> r = int (length out')"
proof (induction script nleft out rule: rio_readn_loop.induct)
  case (1 script nleft out)
  show ?case
  proof (cases "nleft > 0")
    case False
    with "1.prems" show ?thesis by (auto simp: rio_readn_loop.simps [of _ 0])
  next
    case True
    with "1.prems" obtain res script1 where s: "sys_read nleft script = Some (res, script1)"
      by (subst (asm) rio_readn_loop.simps) (auto split: option.splits)
    note st = sys_read_stream [OF s True]
    show ?thesis
    proof (cases res)
      case (Got bs)
      then have "rio_readn_loop script nleft out = rio_readn_loop script1 (nleft - length bs) (out @ bs)"
        using True s by (subst rio_readn_loop.simps) simp
      with "1.prems" "1.IH"(1) [OF True s refl Got] st Got show ?thesis by auto
    next
      case Eof
      with True s "1.prems" st show ?thesis
        by (subst (asm) rio_readn_loop.simps) auto
    next
      case (Failed e)
      have "rio_readn_loop script nleft out
          = (if e then rio_readn_loop script1 nleft out else Some (- 1, out, script1))"
        using True s Failed by (subst rio_readn_loop.simps) simp
      with "1.prems" "1.IH"(2) [OF True s refl Failed] st Failed show ?thesis
        by (auto split: if_splits)
    qed
  qed
qed

subsection \<open>Buffered reading\<close>

definition RIO_BUFSIZE :: nat where "RIO_BUFSIZE = 8192"

lemma RIO_BUFSIZE_pos: "0 < RIO_BUFSIZE"
  by (simp add: RIO_BUFSIZE_def)

text \<open>
  The buffer is the list of its unread bytes; the count left negative by a failed refill is read
  as an empty buffer by the next call.
\<close>

definition rio_readinitb :: string where
  "rio_readinitb = []"

function rio_refill :: "read_result list \<Rightarrow> (int \<times> string \<times> read_result list) option" where
  "rio_refill script =
     (case sys_read RIO_BUFSIZE script of
        None \<Rightarrow> None
      | Some (Failed eintr, script) \<Rightarrow> if eintr then rio_refill script else Some (- 1, [], script)
      | Some (Eof, script) \<Rightarrow> Some (0, [], script)
      | Some (Got bs, script) \<Rightarrow> Some (1, bs, script))"
  by pat_completeness auto
termination
  by (relation "measure script_size") (auto dest: sys_read_less [OF RIO_BUFSIZE_pos])

declare rio_refill.simps [simp del]

definition rio_read ::
  "string \<Rightarrow> read_result list \<Rightarrow> nat \<Rightarrow> (int \<times> string \<times> string \<times> read_result list) option" where
  "rio_read unread script n =
     do {
       (r, unread, script) \<leftarrow> (if unread = [] then rio_refill script else Some (1, unread, script));
       if r \<le> 0 then Some (r, [], [], script)
       else let cnt = min n (length unread)
            in Some (int cnt, take cnt unread, drop cnt unread, script)
     }"

text \<open>A failure of \<open>rio_read\<close> is never an interruption, so the loop does not retry it.\<close>

function rio_readnb_loop ::
  "string \<Rightarrow> read_result list \<Rightarrow> nat \<Rightarrow> string \<Rightarrow> (int \<times> string \<times> string \<times> read_result list) option" where
  "rio_readnb_loop unread script nleft out =
     (if nleft > 0
      then (case rio_read unread script nleft of
              None \<Rightarrow> None
            | Some (nread, bs, unread, script) \<Rightarrow>
                if nread < 0 then Some (- 1, out, unread, script)
                else if nread = 0 then Some (int (length out), out, unread, script)
                else rio_readnb_loop unread script (nleft - nat nread) (out @ bs))
      else Some (int (length out), out, unread, script))"
  by pat_completeness auto
termination
  by (relation "measure (\<lambda>(unread, script, nleft, out). nleft)") auto

declare rio_readnb_loop.simps [simp del]

definition rio_readnb ::
  "string \<Rightarrow> read_result list \<Rightarrow> nat \<Rightarrow> (int \<times> string \<times> string \<times> read_result list) option" where
  "rio_readnb unread script n = rio_readnb_loop unread script n []"

text \<open>The loop of \<open>rio_readlineb\<close>: \<open>k\<close> iterations are left, the counter is \<open>n\<close>.\<close>

fun rio_readlineb_loop ::
  "nat \<Rightarrow> nat \<Rightarrow> string \<Rightarrow> read_result list \<Rightarrow> string \<Rightarrow> (int \<times> string \<times> string \<times> read_result list) option"
  where
  "rio_readlineb_loop 0 n unread script out = Some (int n, out, unread, script)"
| "rio_readlineb_loop (Suc k) n unread script out =
     do {
       (rc, bs, unread, script) \<leftarrow> rio_read unread script 1;
       if rc = 1
       then (if bs = [CHR 0x0A] then Some (int n, out @ bs, unread, script)
             else rio_readlineb_loop k (n + 1) unread script (out @ bs))
       else if rc = 0
       then (if n = 1 then Some (0, out, unread, script) else Some (int n, out, unread, script))
       else Some (- 1, out, unread, script)
     }"

definition rio_readlineb ::
  "string \<Rightarrow> read_result list \<Rightarrow> nat \<Rightarrow> (int \<times> string \<times> string \<times> read_result list) option" where
  "rio_readlineb unread script maxlen = rio_readlineb_loop (maxlen - 1) 1 unread script []"

text \<open>
  The buffer as the structure \<open>rio_t\<close> keeps it: an array, a count and a place in it, the count
  left by a failed refill included. The string above is what it holds unread.
\<close>

record rio_t =
  rio_fd :: int
  rio_cnt :: int
  rio_bufptr :: nat
  rio_buf :: string

definition unread_of :: "rio_t \<Rightarrow> string" where
  "unread_of rp = take (nat (rio_cnt rp)) (drop (rio_bufptr rp) (rio_buf rp))"

definition wf_rio :: "rio_t \<Rightarrow> bool" where
  "wf_rio rp \<longleftrightarrow> length (rio_buf rp) = RIO_BUFSIZE \<and>
     (0 < rio_cnt rp \<longrightarrow> rio_bufptr rp + nat (rio_cnt rp) \<le> RIO_BUFSIZE)"

definition rio_t_readinitb :: "rio_t \<Rightarrow> int \<Rightarrow> rio_t" where
  "rio_t_readinitb rp fd = rp\<lparr>rio_fd := fd, rio_cnt := 0, rio_bufptr := 0\<rparr>"

text \<open>The refill: \<open>read\<close> stores at the start of the array and leaves the rest of it.\<close>

function rio_t_refill :: "rio_t \<Rightarrow> read_result list \<Rightarrow> (int \<times> rio_t \<times> read_result list) option" where
  "rio_t_refill rp script =
     (if rio_cnt rp \<le> 0
      then (case sys_read RIO_BUFSIZE script of
          None \<Rightarrow> None
        | Some (Failed eintr, script) \<Rightarrow>
            if eintr then rio_t_refill (rp\<lparr>rio_cnt := - 1\<rparr>) script
            else Some (- 1, rp\<lparr>rio_cnt := - 1\<rparr>, script)
        | Some (Eof, script) \<Rightarrow> Some (0, rp\<lparr>rio_cnt := 0\<rparr>, script)
        | Some (Got bs, script) \<Rightarrow>
            Some (1, rp\<lparr>rio_cnt := int (length bs), rio_bufptr := 0,
              rio_buf := bs @ drop (length bs) (rio_buf rp)\<rparr>, script))
      else Some (1, rp, script))"
  by pat_completeness auto
termination
  by (relation "measure (\<lambda>(rp, script). script_size script)") (auto dest: sys_read_less [OF RIO_BUFSIZE_pos])

declare rio_t_refill.simps [simp del]

definition rio_t_read ::
  "rio_t \<Rightarrow> read_result list \<Rightarrow> nat \<Rightarrow> (int \<times> string \<times> rio_t \<times> read_result list) option" where
  "rio_t_read rp script n =
     do {
       (r, rp, script) \<leftarrow> rio_t_refill rp script;
       if r \<le> 0 then Some (r, [], rp, script)
       else let cnt = (if rio_cnt rp < int n then rio_cnt rp else int n) in
         Some (cnt, take (nat cnt) (drop (rio_bufptr rp) (rio_buf rp)),
           rp\<lparr>rio_bufptr := rio_bufptr rp + nat cnt, rio_cnt := rio_cnt rp - cnt\<rparr>, script)
     }"

lemma rio_refill_stream:
  "rio_refill script = Some (r, bs, script') \<Longrightarrow>
     (r = - 1 \<and> bs = []) \<or> (r = 0 \<and> bs = [] \<and> stream script = []) \<or>
     (r = 1 \<and> bs \<noteq> [] \<and> stream script = bs @ stream script')"
proof (induction script rule: rio_refill.induct)
  case (1 script)
  then obtain res script1 where s: "sys_read RIO_BUFSIZE script = Some (res, script1)"
    by (subst (asm) (2) rio_refill.simps) (auto split: option.splits)
  note st = sys_read_stream [OF s RIO_BUFSIZE_pos]
  have step: "rio_refill script = (case res of
      Failed e \<Rightarrow> if e then rio_refill script1 else Some (- 1, [], script1)
    | Eof \<Rightarrow> Some (0, [], script1) | Got bs \<Rightarrow> Some (1, bs, script1))"
    using s by (subst rio_refill.simps) (simp split: read_result.split)
  show ?case
  proof (cases res)
    case (Failed e)
    with "1.IH" [OF s refl Failed] "1.prems" st step show ?thesis by (cases e) auto
  qed (use "1.prems" st step in auto)
qed

lemma rio_t_refill_refines:
  assumes "wf_rio rp"
  shows "(case rio_t_refill rp script of
      None \<Rightarrow> unread_of rp = [] \<and> rio_refill script = None
    | Some (r, rp', script') \<Rightarrow> wf_rio rp' \<and> (r \<le> 0 \<longrightarrow> rio_cnt rp' \<le> 0) \<and>
        (if unread_of rp = [] then rio_refill script else Some (1, unread_of rp, script)) =
          Some (r, unread_of rp', script'))"
  using assms
proof (induction rp script rule: rio_t_refill.induct)
  case (1 rp script)
  show ?case
  proof (cases "rio_cnt rp \<le> 0")
    case False
    then have "unread_of rp \<noteq> []" using "1.prems" RIO_BUFSIZE_pos by (auto simp: unread_of_def wf_rio_def)
    with False "1.prems" show ?thesis by (simp add: rio_t_refill.simps [of rp])
  next
    case True
    then have no: "unread_of rp = []" by (simp add: unread_of_def)
    have w: "wf_rio (rp\<lparr>rio_cnt := - 1\<rparr>)" "unread_of (rp\<lparr>rio_cnt := - 1\<rparr>) = []"
      using "1.prems" by (simp_all add: wf_rio_def unread_of_def)
    show ?thesis
    proof (cases "sys_read RIO_BUFSIZE script")
      case None
      with True no show ?thesis by (simp add: rio_t_refill.simps [of rp] rio_refill.simps [of script])
    next
      case (Some res)
      then obtain x s1 where x: "sys_read RIO_BUFSIZE script = Some (x, s1)" by (cases res) auto
      note st = sys_read_stream [OF x RIO_BUFSIZE_pos]
      show ?thesis
      proof (cases x)
        case (Failed e)
        show ?thesis
        proof (cases e)
          case e: True
          have "rio_t_refill rp script = rio_t_refill (rp\<lparr>rio_cnt := - 1\<rparr>) s1"
            using True x Failed e by (subst rio_t_refill.simps) simp
          moreover have "rio_refill script = rio_refill s1"
            using x Failed e by (subst rio_refill.simps) simp
          moreover note "1.IH" [OF True x refl Failed e w(1)]
          ultimately show ?thesis using w(2) no by (auto split: option.splits)
        next
          case False
          with True no x Failed w show ?thesis
            by (simp add: rio_t_refill.simps [of rp] rio_refill.simps [of script])
        qed
      next
        case Eof
        with True no x "1.prems" show ?thesis
          by (simp add: rio_t_refill.simps [of rp] rio_refill.simps [of script] wf_rio_def unread_of_def)
      next
        case (Got bs)
        with True no x "1.prems" st show ?thesis
          by (simp add: rio_t_refill.simps [of rp] rio_refill.simps [of script] wf_rio_def unread_of_def)
      qed
    qed
  qed
qed

lemma rio_t_readinitb_refines:
  "length (rio_buf rp) = RIO_BUFSIZE \<Longrightarrow> wf_rio (rio_t_readinitb rp fd) \<and> unread_of (rio_t_readinitb rp fd) = rio_readinitb"
  by (simp add: wf_rio_def rio_t_readinitb_def unread_of_def rio_readinitb_def)

text \<open>The read of the code is the read of the string.\<close>

lemma rio_t_read_refines:
  assumes "wf_rio rp"
  shows "rio_read (unread_of rp) script n =
      map_option (\<lambda>(r, bs, rp, script). (r, bs, unread_of rp, script)) (rio_t_read rp script n)"
    and "rio_t_read rp script n = Some (r, bs, rp', script') \<Longrightarrow> wf_rio rp'"
proof -
  note f = rio_t_refill_refines [OF assms, of script]
  show "rio_read (unread_of rp) script n =
      map_option (\<lambda>(r, bs, rp, script). (r, bs, unread_of rp, script)) (rio_t_read rp script n)"
  proof (cases "rio_t_refill rp script")
    case None
    with f show ?thesis by (simp add: rio_read_def rio_t_read_def)
  next
    case (Some res)
    then obtain k rp1 s1 where k: "rio_t_refill rp script = Some (k, rp1, s1)" by (cases res) auto
    with f have wf1: "wf_rio rp1" and le: "k \<le> 0 \<Longrightarrow> rio_cnt rp1 \<le> 0" and
      e: "(if unread_of rp = [] then rio_refill script else Some (1, unread_of rp, script)) =
        Some (k, unread_of rp1, s1)" by simp_all
    show ?thesis
    proof (cases "k \<le> 0")
      case True
      with le have "unread_of rp1 = []" by (simp add: unread_of_def)
      with True k e show ?thesis by (simp add: rio_read_def rio_t_read_def)
    next
      case False
      let ?u = "unread_of rp1"
      let ?c = "if rio_cnt rp1 < int n then rio_cnt rp1 else int n"
      let ?rp = "rp1\<lparr>rio_bufptr := rio_bufptr rp1 + nat ?c, rio_cnt := rio_cnt rp1 - ?c\<rparr>"
      have pos: "0 < rio_cnt rp1"
      proof (rule ccontr)
        assume "\<not> 0 < rio_cnt rp1"
        then have "?u = []" by (simp add: unread_of_def)
        with e rio_refill_stream [of script k ?u s1] False show False by (auto split: if_splits)
      qed
      have len: "length ?u = nat (rio_cnt rp1)"
        using wf1 by (auto simp: unread_of_def wf_rio_def)
      then have c: "nat ?c = min n (length ?u)" by simp
      have "take (nat ?c) (drop (rio_bufptr rp1) (rio_buf rp1)) = take (min n (length ?u)) ?u"
        unfolding c len by (simp add: unread_of_def min.commute)
      moreover have "unread_of ?rp = drop (min n (length ?u)) ?u"
        unfolding c [symmetric] by (simp add: unread_of_def drop_take add.commute nat_diff_distrib)
      moreover have "?c = int (min n (length ?u))" unfolding len using pos by (simp add: min_def le_nat_iff)
      moreover have "rio_read (unread_of rp) script n =
          Some (int (min n (length ?u)), take (min n (length ?u)) ?u, drop (min n (length ?u)) ?u, s1)"
        using False e by (simp add: rio_read_def Let_def)
      moreover have "rio_t_read rp script n =
          Some (?c, take (nat ?c) (drop (rio_bufptr rp1) (rio_buf rp1)), ?rp, s1)"
        using False k by (simp add: rio_t_read_def Let_def)
      ultimately show ?thesis by simp
    qed
  qed
  show "rio_t_read rp script n = Some (r, bs, rp', script') \<Longrightarrow> wf_rio rp'"
    using f by (auto simp: rio_t_read_def wf_rio_def Let_def Option.bind_eq_Some_conv split: if_splits)
qed

lemma rio_read_stream:
  assumes "rio_read unread script n = Some (r, bs, unread', script')" "0 < n"
  shows "r = - 1 \<or> (r = int (length bs) \<and> length bs \<le> n \<and>
    (if bs = [] then unread @ stream script = []
     else unread @ stream script = bs @ unread' @ stream script'))"
proof (cases "unread = []")
  case True
  with assms obtain r1 u1 s1 where f: "rio_refill script = Some (r1, u1, s1)"
    by (auto simp: rio_read_def Option.bind_eq_Some_conv)
  from rio_refill_stream [OF f] f True assms show ?thesis
    by (auto simp: rio_read_def Let_def min_def split: if_splits simp flip: append_assoc)
next
  case False
  with assms have "r = int (length bs)" "bs = take n unread" "unread' = drop n unread" "script' = script"
    by (auto simp: rio_read_def Let_def min_def)
  with False assms(2) show ?thesis by (auto simp flip: append_assoc)
qed

lemma rio_readnb_loop_result:
  "rio_readnb_loop unread script nleft out = Some (r, out', unread', script') \<Longrightarrow> r \<noteq> - 1 \<Longrightarrow>
     out' = out @ take nleft (unread @ stream script) \<and> r = int (length out')"
proof (induction unread script nleft out rule: rio_readnb_loop.induct)
  case (1 unread script nleft out)
  show ?case
  proof (cases "nleft > 0")
    case False
    with "1.prems" show ?thesis by (auto simp: rio_readnb_loop.simps [of _ _ 0])
  next
    case True
    with "1.prems" obtain nread bs u1 s1 where s: "rio_read unread script nleft = Some (nread, bs, u1, s1)"
      by (subst (asm) rio_readnb_loop.simps) (auto split: option.splits)
    note st = rio_read_stream [OF s True]
    have step: "rio_readnb_loop unread script nleft out =
      (if nread < 0 then Some (- 1, out, u1, s1)
       else if nread = 0 then Some (int (length out), out, u1, s1)
       else rio_readnb_loop u1 s1 (nleft - nat nread) (out @ bs))"
      using s True by (subst rio_readnb_loop.simps) simp
    show ?thesis
    proof (cases "nread \<le> 0")
      case le: True
      with step st "1.prems" show ?thesis by (auto split: if_splits)
    next
      case gt: False
      then have "rio_readnb_loop u1 s1 (nleft - nat nread) (out @ bs) = Some (r, out', unread', script')"
        using step "1.prems" by simp
      with "1.IH" [OF True s refl refl refl] gt "1.prems"(2)
      have "out' = (out @ bs) @ take (nleft - nat nread) (u1 @ stream s1) \<and> r = int (length out')"
        by simp
      with st gt show ?thesis by auto
    qed
  qed
qed

text \<open>
  A line: it is a prefix of what is left, only its last byte may be a newline, it fits with its
  null, and it is short of a newline only at the end of the file or of the buffer. The value
  returned is the line's length with a newline, and one more without.
\<close>

lemma rio_readlineb_loop_result:
  assumes "rio_readlineb_loop k n unread script out = Some (r, out', unread', script')" "r \<noteq> - 1"
    and "length out + 1 = n"
  shows "\<exists>line rest. out' = out @ line \<and> unread @ stream script = line @ rest \<and>
    length line \<le> k \<and> CHR 0x0A \<notin> set (butlast line) \<and>
    (if line \<noteq> [] \<and> last line = CHR 0x0A
     then r = int (length out') \<and> rest = unread' @ stream script'
     else (length line = k \<or> rest = []) \<and> (r = int (length out') + 1 \<or> r = 0 \<and> out' = []))"
  using assms
proof (induction k arbitrary: n unread script out)
  case 0
  then show ?case by simp
next
  case (Suc k)
  then obtain rc bs u1 s1 where rd: "rio_read unread script 1 = Some (rc, bs, u1, s1)"
    by (auto simp: Option.bind_eq_Some_conv)
  note st = rio_read_stream [OF rd zero_less_one]
  consider "rc = 1" "bs = [CHR 0x0A]" | c where "rc = 1" "bs = [c]" "c \<noteq> CHR 0x0A" | "rc = 0" "bs = []"
    | "rc = - 1"
    using st by (cases bs) fastforce+
  then show ?case
  proof cases
    case 1
    with Suc.prems rd st show ?thesis
      by - (rule exI [of _ "[CHR 0x0A]"], rule exI [of _ "u1 @ stream s1"], auto)
  next
    case (2 c)
    then have "rio_readlineb_loop k (n + 1) u1 s1 (out @ [c]) = Some (r, out', unread', script')"
      using Suc.prems(1) rd by simp
    from Suc.IH [OF this Suc.prems(2)] Suc.prems(3) obtain line rest where
      l: "out' = (out @ [c]) @ line" "u1 @ stream s1 = line @ rest"
      "length line \<le> k" "CHR 0x0A \<notin> set (butlast line)"
      "if line \<noteq> [] \<and> last line = CHR 0x0A
       then r = int (length out') \<and> rest = unread' @ stream script'
       else (length line = k \<or> rest = []) \<and> (r = int (length out') + 1 \<or> r = 0 \<and> out' = [])"
      by auto
    with 2 st show ?thesis
      by - (rule exI [of _ "c # line"], rule exI [of _ rest], auto split: if_splits)
  next
    case 3
    with Suc.prems rd st show ?thesis
      by - (rule exI [of _ "[]"], rule exI [of _ "[]"], auto split: if_splits)
  next
    case 4
    with Suc.prems rd show ?thesis by simp
  qed
qed

subsection \<open>Reads that come to their end\<close>

text \<open>A script without failures other than interruptions that reaches an end of file.\<close>

definition readable :: "read_result list \<Rightarrow> bool" where
  "readable script \<longleftrightarrow> Eof \<in> set script \<and> Failed False \<notin> set script"

lemma sys_read_readable:
  assumes "readable script" "0 < n"
  shows "\<exists>r script'. sys_read n script = Some (r, script') \<and> r \<noteq> Failed False \<and> (r \<noteq> Eof \<longrightarrow> readable script')"
  using assms by (cases "(n, script)" rule: sys_read.cases) (auto simp: readable_def)

lemma rio_readn_loop_returns:
  "readable script \<Longrightarrow> \<exists>r out' script'. rio_readn_loop script nleft out = Some (r, out', script') \<and> r \<noteq> - 1"
proof (induction script nleft out rule: rio_readn_loop.induct)
  case (1 script nleft out)
  show ?case
  proof (cases "nleft > 0")
    case False
    then show ?thesis by (simp add: rio_readn_loop.simps [of _ 0])
  next
    case True
    from sys_read_readable [OF "1.prems" True] obtain res script1 where
      s: "sys_read nleft script = Some (res, script1)" "res \<noteq> Failed False" "res \<noteq> Eof \<longrightarrow> readable script1"
      by auto
    show ?thesis
    proof (cases res)
      case (Got bs)
      then have "rio_readn_loop script nleft out = rio_readn_loop script1 (nleft - length bs) (out @ bs)"
        using True s by (subst rio_readn_loop.simps) simp
      with "1.IH"(1) [OF True s(1) refl Got] s Got show ?thesis by simp
    next
      case Eof
      with True s show ?thesis by (subst rio_readn_loop.simps) simp
    next
      case (Failed e)
      then have "rio_readn_loop script nleft out = rio_readn_loop script1 nleft out"
        using True s by (subst rio_readn_loop.simps) simp
      with "1.IH"(2) [OF True s(1) refl Failed] s Failed show ?thesis by simp
    qed
  qed
qed

lemma rio_refill_returns:
  "readable script \<Longrightarrow> \<exists>r bs script'. rio_refill script = Some (r, bs, script') \<and> r \<noteq> - 1 \<and>
     (r \<noteq> 0 \<longrightarrow> readable script')"
proof (induction script rule: rio_refill.induct)
  case (1 script)
  from sys_read_readable [OF "1.prems" RIO_BUFSIZE_pos] obtain res script1 where
    s: "sys_read RIO_BUFSIZE script = Some (res, script1)" "res \<noteq> Failed False" "res \<noteq> Eof \<longrightarrow> readable script1"
    by auto
  show ?case
  proof (cases res)
    case (Failed e)
    then have "rio_refill script = rio_refill script1"
      using s by (subst rio_refill.simps) simp
    with "1.IH" [OF s(1) refl Failed] s Failed show ?thesis by simp
  qed (use s in \<open>subst rio_refill.simps, simp\<close>)+
qed

lemma rio_read_returns:
  assumes "readable script" "0 < n"
  shows "\<exists>r bs unread' script'. rio_read unread script n = Some (r, bs, unread', script') \<and> r \<noteq> - 1 \<and>
    (r \<noteq> 0 \<longrightarrow> readable script')"
proof (cases "unread = []")
  case True
  from rio_refill_returns [OF assms(1)] obtain r bs script' where
    "rio_refill script = Some (r, bs, script')" "r \<noteq> - 1" "r \<noteq> 0 \<longrightarrow> readable script'" by auto
  with True rio_refill_stream [OF this(1)] show ?thesis
    by (auto simp: rio_read_def Let_def)
next
  case False
  with assms show ?thesis by (simp add: rio_read_def Let_def)
qed

lemma rio_readnb_loop_returns:
  "readable script \<Longrightarrow> \<exists>r out' unread' script'.
     rio_readnb_loop unread script nleft out = Some (r, out', unread', script') \<and> r \<noteq> - 1"
proof (induction unread script nleft out rule: rio_readnb_loop.induct)
  case (1 unread script nleft out)
  show ?case
  proof (cases "nleft > 0")
    case False
    then show ?thesis by (simp add: rio_readnb_loop.simps [of _ _ 0])
  next
    case True
    from rio_read_returns [OF "1.prems" True] obtain nread bs u1 s1 where
      s: "rio_read unread script nleft = Some (nread, bs, u1, s1)" "nread \<noteq> - 1" "nread \<noteq> 0 \<longrightarrow> readable s1"
      by blast
    from rio_read_stream [OF s(1) True] s(2) have nn: "0 \<le> nread" by auto
    have step: "rio_readnb_loop unread script nleft out =
      (if nread = 0 then Some (int (length out), out, u1, s1)
       else rio_readnb_loop u1 s1 (nleft - nat nread) (out @ bs))"
      using s(1) True nn by (subst rio_readnb_loop.simps) simp
    show ?thesis
    proof (cases "nread = 0")
      case False
      with "1.IH" [OF True s(1) refl refl refl] nn s(3) step show ?thesis by simp
    qed (simp add: step)
  qed
qed

lemma rio_readlineb_loop_returns:
  "readable script \<Longrightarrow> \<exists>r out' unread' script'.
     rio_readlineb_loop k n unread script out = Some (r, out', unread', script') \<and> r \<noteq> - 1"
proof (induction k arbitrary: n unread script out)
  case (Suc k)
  from rio_read_returns [OF Suc.prems zero_less_one] obtain rc bs u1 s1 where
    s: "rio_read unread script 1 = Some (rc, bs, u1, s1)" "rc \<noteq> - 1" "rc \<noteq> 0 \<longrightarrow> readable s1"
    by blast
  from rio_read_stream [OF s(1) zero_less_one] s(2) have "rc = 0 \<or> rc = 1" by (cases bs) auto
  with s Suc.IH [of s1 "n + 1" u1 "out @ bs"] show ?case by auto
qed simp

subsection \<open>The wrappers of the reads\<close>

text \<open>They end the process on an error, and otherwise give what the routine gives.\<close>

datatype 'a wrapped = Returns int 'a | Unix_error_exit

definition unless_negative :: "(int \<times> 'a) option \<Rightarrow> 'a wrapped option" where
  "unless_negative r = map_option (\<lambda>(rc, x). if rc < 0 then Unix_error_exit else Returns rc x) r"

definition Rio_readn :: "read_result list \<Rightarrow> nat \<Rightarrow> (string \<times> read_result list) wrapped option" where
  "Rio_readn script nbytes = unless_negative (rio_readn script nbytes)"

definition Rio_readinitb :: string where
  "Rio_readinitb = rio_readinitb"

definition Rio_readnb ::
  "string \<Rightarrow> read_result list \<Rightarrow> nat \<Rightarrow> (string \<times> string \<times> read_result list) wrapped option" where
  "Rio_readnb unread script n = unless_negative (rio_readnb unread script n)"

definition Rio_readlineb ::
  "string \<Rightarrow> read_result list \<Rightarrow> nat \<Rightarrow> (string \<times> string \<times> read_result list) wrapped option" where
  "Rio_readlineb unread script maxlen = unless_negative (rio_readlineb unread script maxlen)"

lemma Rio_readn_returns:
  assumes "readable script"
  shows "\<exists>out script'. Rio_readn script n = Some (Returns (int (length out)) (out, script'))"
proof -
  from rio_readn_loop_returns [OF assms] obtain r out s where
    r: "rio_readn_loop script n [] = Some (r, out, s)" "r \<noteq> - 1" by blast
  with rio_readn_loop_result [OF r] show ?thesis
    by (auto simp: Rio_readn_def unless_negative_def rio_readn_def)
qed

lemma Rio_readnb_returns:
  assumes "readable script"
  shows "\<exists>out u s. Rio_readnb unread script n = Some (Returns (int (length out)) (out, u, s))"
proof -
  from rio_readnb_loop_returns [OF assms] obtain r out u s where
    r: "rio_readnb_loop unread script n [] = Some (r, out, u, s)" "r \<noteq> - 1" by blast
  with rio_readnb_loop_result [OF r] show ?thesis
    by (auto simp: Rio_readnb_def unless_negative_def rio_readnb_def)
qed

lemma Rio_readlineb_returns:
  assumes "readable script"
  shows "\<exists>r out u s. Rio_readlineb unread script maxlen = Some (Returns r (out, u, s))"
proof -
  from rio_readlineb_loop_returns [OF assms] obtain r out u s where
    r: "rio_readlineb_loop (maxlen - 1) 1 unread script [] = Some (r, out, u, s)" "r \<noteq> - 1" by blast
  from rio_readlineb_loop_result [OF r] have "0 \<le> r" by (auto split: if_splits)
  with r(1) show ?thesis by (simp add: Rio_readlineb_def unless_negative_def rio_readlineb_def)
qed

text \<open>
  Reading a line returns under the same conditions, with a prefix of what is left to read that
  has no newline before its last byte and fits with its null; without a newline it fills the
  buffer or ends the file. The value returned is the number of bytes read for a line with its
  newline, and one more than that for a line cut by the end of the file or by the size of the
  buffer.
\<close>

lemma lines_are_read:
  assumes "readable script"
  shows "\<exists>r line unread' script' rest. rio_readlineb unread script maxlen = Some (r, line, unread', script') \<and>
    unread @ stream script = line @ rest \<and> length line \<le> maxlen - 1 \<and> CHR 0x0A \<notin> set (butlast line) \<and>
    (if line \<noteq> [] \<and> last line = CHR 0x0A
     then r = int (length line) \<and> rest = unread' @ stream script'
     else (length line = maxlen - 1 \<or> rest = []) \<and> (r = int (length line) + 1 \<or> r = 0 \<and> line = []))"
proof -
  from rio_readlineb_loop_returns [OF assms] obtain r line u' s' where
    r: "rio_readlineb_loop (maxlen - 1) 1 unread script [] = Some (r, line, u', s')" "r \<noteq> - 1" by blast
  from rio_readlineb_loop_result [OF r] r(1) show ?thesis by (auto simp: rio_readlineb_def)
qed

subsection \<open>Properties\<close>

text \<open>
  C25: When every write that fails is an interruption and the writes accept enough bytes, the
  wrapper of the robust write returns with exactly the buffer written; and whenever the routine
  returns at all, it returns the length with the buffer written, or -1 with a prefix of it.
\<close>

lemma writes_complete:
  assumes "\<forall>(r, eintr) \<in> set script. r \<le> 0 \<longrightarrow> eintr" "length usrbuf \<le> accepted script"
  shows "(\<exists>rest. Rio_writen_wrapper script usrbuf = Some (Written usrbuf rest)) \<and>
    (rio_writen any usrbuf = Some (r, out, rest') \<longrightarrow>
      (r = int (length usrbuf) \<and> out = usrbuf) \<or> (r = - 1 \<and> (\<exists>k \<le> length usrbuf. out = take k usrbuf)))"
  using rio_writen_loop_total [OF assms, of "length usrbuf" "[]"]
    rio_writen_loop_result [of "length usrbuf" any usrbuf "[]" r out rest']
  by (auto simp: rio_writen_def Rio_writen_wrapper_def)

lemma writes_complete_witness:
  "\<exists>rest. Rio_writen_wrapper [(1, False), (- 1, True), (2, False)] ''+$!'' = Some (Written ''+$!'' rest)"
proof -
  let ?s = "[(1, False), (- 1, True), (2, False)] :: write_script"
  have "\<forall>(r, eintr) \<in> set ?s. r \<le> 0 \<longrightarrow> eintr" "length ''+$!'' \<le> accepted ?s" by code_simp+
  from writes_complete [OF this] show ?thesis by blast
qed

text \<open>
  C26: When the system only fails by interruptions and comes to the end of the file, the
  unbuffered and the buffered read of n bytes both return, with the same bytes and count: the
  first n bytes the system delivers, or all of them when the file is shorter, however they are
  split among the reads.
\<close>

lemma reads_agree:
  assumes "readable script"
  shows "(\<exists>script'. rio_readn script n =
      Some (int (length (take n (stream script))), take n (stream script), script')) \<and>
    (\<exists>unread' script'. rio_readnb rio_readinitb script n =
      Some (int (length (take n (stream script))), take n (stream script), unread', script'))"
proof
  from rio_readn_loop_returns [OF assms] obtain r out' s' where
    r: "rio_readn_loop script n [] = Some (r, out', s')" "r \<noteq> - 1" by blast
  from rio_readn_loop_result [OF r] r(1)
  show "\<exists>script'. rio_readn script n =
      Some (int (length (take n (stream script))), take n (stream script), script')"
    by (simp add: rio_readn_def)
  from rio_readnb_loop_returns [OF assms] obtain r out' u' s' where
    r: "rio_readnb_loop [] script n [] = Some (r, out', u', s')" "r \<noteq> - 1" by blast
  from rio_readnb_loop_result [OF r] r(1)
  show "\<exists>unread' script'. rio_readnb rio_readinitb script n =
      Some (int (length (take n (stream script))), take n (stream script), unread', script')"
    by (simp add: rio_readnb_def rio_readinitb_def)
qed

lemma reads_agree_witness:
  "\<exists>unread' script'. rio_readnb rio_readinitb [Got ''$g'', Failed True, Got ''#67'', Eof] 4 =
     Some (4, ''$g#6'', unread', script')"
proof -
  have "readable [Got ''$g'', Failed True, Got ''#67'', Eof]" by code_simp
  from reads_agree [OF this, of 4] show ?thesis by simp
qed

end
