(* ===== verification/Spec2Isabelle.thy ===== *)
theory Spec2Isabelle
  imports Service MemoryTest Memory2 Rio
begin

text \<open>
  A verification development of the ARM instruction set simulator under
  \<open>src/arm_simulator-1.4/\<close>. The simulator is a server for the gdb debugger: a client reads and
  writes the registers and the memory of a simulated ARMv5 core, steps it and lets it run to a
  breakpoint, while a second connection raises interrupts.

  \<^bold>\<open>The program and its theories.\<close>

  \<^item> \<open>Prelude\<close>: the machine integers, the host's shifts, the instruction fields, and the host's
    bytes of a word; \<open>Interfaces\<close>: the contracts between components as locales (addressable
    cells, a register file, a machine with an invariant, one with a frame and one that simulates
    an abstract machine, an operation in small steps, a table of names), each interpreted on the
    program's own operations in the theory that provides them.
  \<^item> \<open>Util\<close> (\<open>util.c\<close>, \<open>util.h\<close>), \<open>Constants\<close> (\<open>arm_constants.*\<close>), \<open>Memory\<close> (\<open>memory.c\<close>),
    \<open>Registers\<close> (\<open>registers.c\<close>), \<open>ArmCore\<close> (\<open>arm_core.c\<close>, \<open>arm_exception.c\<close>): the state of the
    core, a record of the cycle counter, the register file and the memory, with every access.
  \<^item> \<open>DataProcessing\<close>, \<open>LoadStore\<close>, \<open>BranchOther\<close> (\<open>arm_data_processing.c\<close>, \<open>arm_load_store.c\<close>,
    \<open>arm_branch_other.c\<close>): one definition for each C function; \<open>Instruction\<close>
    (\<open>arm_instruction.c\<close>): conditions, shifter operand, decoders, and \<open>arm_step\<close>.
  \<^item> \<open>Step\<close> and \<open>Transfers\<close>: what a whole step keeps, and what it does for each class of
    instruction.
  \<^item> \<open>Isa\<close>: the part of the ARMv5 instruction set the core implements, as the architecture defines
    it and apart from the code, with its own decoder, memory and step; \<open>Refinement\<close>: the
    abstraction of a core, the limits within which it implements this machine, and the simulation.
  \<^item> \<open>Cformat\<close>: the conversions of \<open>printf\<close>, \<open>sscanf\<close> and \<open>atoi\<close> that the protocol uses; \<open>Gdb\<close>
    (\<open>gdb_protocol.c\<close>): frames, checksums, the twelve request handlers and their dispatch.
  \<^item> \<open>Scanner\<close> (\<open>scanner.l\<close>): the rules, the longest match among them, their actions, the buffer
    of erroneous bytes, and the loop that hands frames to the packet analysis of \<open>Gdb\<close>; \<open>Output\<close>:
    the shape of everything the simulator sends; \<open>Session\<close>: the requests a client writes to load
    a program, run it and read memory back; \<open>Debugger\<close>: the abstract debugger of the machine of
    \<open>Isa\<close>, and that the simulator implements it, from the bytes received to the bytes sent.
  \<^item> \<open>Debug\<close> (\<open>debug.c\<close>, \<open>debug.h\<close>), \<open>Trace\<close> (\<open>trace.c\<close>, \<open>trace_location.h\<close>,
    \<open>no_trace_location.h\<close>, the traced accessors and the state dump of \<open>arm_core.c\<close>),
    \<open>SendIrq\<close> (\<open>send_irq.c\<close>: the choice of the byte), \<open>Options\<close> (the command line of
    \<open>arm_simulator.c\<close> as \<open>getopt_long\<close> reads it).
  \<^item> \<open>Simulator\<close> (\<open>arm_simulator.c\<close>: \<open>main\<close> up to the threads, and the two threads with their
    lock as a step relation); \<open>Lifecycle\<close>: the scanner's loop as steps of the gdb thread, and the
    process around the threads, to the destruction of the core; \<open>Atomicity\<close>: the threads in
    steps of one access to the core, and the proof that the lock makes requests and exceptions
    atomic; \<open>Service\<close>: the orders in which requests and interrupts take effect, and the abstract
    debugger with interrupts.
  \<^item> \<open>Csapp\<close>: the wrappers of \<open>csapp.c\<close> around system and library calls, over a script of the
    system's answers; \<open>Server\<close>: the servers of \<open>arm_simulator.c\<close> and the connection of
    \<open>send_irq.c\<close> over them; \<open>Rio\<close>: the robust I/O routines, over scripts of reads and writes.
  \<^item> \<open>MemoryTest\<close>: the test program \<open>memory_test.c\<close>, all of whose tests pass; \<open>Memory2\<close>: the
    superseded memory \<open>memory_2.c\<close>, and how it breaks the contract of \<open>Memory\<close>.

  \<^bold>\<open>Conventions.\<close> A C function is a definition of the same name over explicit state in the option
  monad. \<open>None\<close> stands for behaviour C does not define and the host does not settle: an access
  outside every object, the use of a variable never set. Return codes are \<open>int\<close> values; a
  variable set through a pointer is passed in and out as an option. Where the host settles what
  C leaves open, its rule is written out: the host is an x86-64 Linux machine, as the ELF core
  file kept beside the sources shows, so integers are little-endian and wrap, a 32-bit shift
  takes its count modulo 32, and \<open>regs[15]\<close> of the register file is the word after the array,
  \<open>cpsr\<close>. The simulated memory is big-endian in the build of \<open>Makefile.am\<close>; the memory and the
  text of words are modelled for both orders. The core, its instructions and the requests are
  modelled without the calls to the traces; \<open>Trace\<close> has each access of the core with its trace,
  and shows that the trace changes nothing of the access.

  \<^bold>\<open>What is shown.\<close> Of the core: it implements whole programs of the
  reference machine of \<open>Isa\<close> within limits computed from the abstract state (no
  flags, so neither comparisons nor failed conditions; operands that fit the variables they go
  through; the addressing modes the code gets right), and a debugging session answers from the
  state that machine reaches, interrupts included, however the threads interleave; runs keep the
  state well-formed and the memory's geometry; a data-processing step is the register transfer
  the architecture's ALU gives for the computed operand, and the operand is the architecture's
  within stated ranges; loads and stores of words, halfwords and bytes, with immediate and
  register offsets, and branches act on exactly the cells they should, with the deviations of
  the code stated as they are (the base register every load writes back, the address of
  post-indexed transfers, the carry of SBC and RSC, shifts by the number of a register,
  comparisons, failed conditions that reset the core, misdecoded immediates, instructions taken
  as no-operations). Of the memory: writes read back, byte orders, frames, and the outcomes of a
  read at every address. Of the protocol: words, frames and requests round trip; the continue
  request returns exactly at a breakpoint; long reads overflow the packet; the requests that
  misbehave are characterised; every answer is well-formed and read back by a peer. Of the
  scanner: it takes the token flex promises, stays within its buffer, does for any input what
  its tokens stand for, in order, with the rejections that the noise between them asks for, and
  has no result only when the request of a frame has none; a session of frames and noise is
  served as the frames one by one, which is what the gdb thread does in steps. Of the process:
  the lock makes requests and exceptions atomic, so that every interleaving of their accesses is
  an order of whole ones; the core's invariant holds in every reachable state, the core lives
  while a client is served, interrupts wait for a request that does not return while it goes on
  stepping the core, and one can be written to the core after its destruction. Of the servers:
  their creation and its errors, and the exceptions they raise; a name given to
  \<open>send_irq\<close> has its effect in the simulator. Of the tables: insertion, binary
  search and the cached flag. Of the robust I/O: writes are complete, the two reads agree, the
  lines read, and the buffer with its count and place is the string the reads are stated on. Of
  the command line: the ports, the trace file, the trace flags and the names it leaves the
  program with, or the status it ends it with. Of the traces: the line of every access of the
  core, and the text of its state, which determines its registers.

  \<^bold>\<open>Loops and bounds.\<close> Loops over a bounded index are structural recursions; the searches of
  \<open>Debug\<close> and \<open>SendIrq\<close> are total functions with a measure. The continue loop may run forever:
  it is a partial function without a value then, and its property names the number of steps
  after which it returns. The fuel 5 of \<open>byte_indices\<close> is one more than the four bytes.

  The loop of the scanner and \<open>getopt_long\<close> are total functions on the length of their input, as
  each token and each argument is shorter than what it is taken from. The loops of \<open>Server\<close> and
  \<open>Rio\<close> end with their scripts of answers: a call without an answer blocks.

  \<^bold>\<open>Not modelled.\<close> The code flex generates, for which
  \<open>scanner.l\<close> stands with flex's documented rule of the longest match; the content
  of the structures system calls fill beyond the numbers the program uses; the texts of debug
  and progress messages; the traces made inside the instructions and the requests, and the
  switching of them off and on again around the look-ahead of the continue request; the halfword
  write of \<open>memory_2.c\<close>, whose text is cut; the prototypes of
  \<open>instructions.h\<close>, which nothing defines. The protocol's write to the client is
  taken to succeed, as \<open>Rio\<close> shows of the robust write when the system only
  interrupts it. Allocation is assumed to succeed. The reference machine has no flags: the code
  never changes them, and takes them from the program counter, so the limits keep it below 2^28.
\<close>

subsection \<open>Properties\<close>

text \<open>
  C38: When send_irq called with a name ends with success, it has written one byte, and a
  simulator that receives that byte sets its program counter to 0 when the name is reset, and
  keeps its core as it is for every other name.
\<close>

lemma interrupt_by_name:
  assumes "send_irq_program [prog, host, port, name] w = Finishes 0 w'"
  shows "\<exists>e sock. (''write'', [sock, 1, uint e]) \<in> set (calls w') \<and>
    arm_get_exception_name e = Some name \<and>
    (\<forall>as c w2 p irq_port. server_answers as \<and> 0 \<le> c \<and> answers w2 = as @ connection_answers (c, [e]) \<longrightarrow>
      (\<exists>w3. irq_listener irq_port p w2 =
        Some (if name = ''reset'' then p\<lparr>reg := (reg p)\<lparr>cpsr := 0\<rparr>\<rparr> else p, Blocks w3)))"
proof -
  from assms obtain e where e: "send_irq_main [prog, host, port, name] = Sends e"
    "send_irq_connection host port e w = Finishes 0 w'"
    by (auto simp: send_irq_program_def send_irq_main_def io_return_def numeral_eq_Suc split: option.splits)
  then have n: "arm_get_exception_name e = Some name"
    using find_irq_iff [of name e] by (auto simp: send_irq_main_def split: option.splits)
  have r: "e = 1 \<longleftrightarrow> name = ''reset''"
    using exception_name_of [OF n] n
    by (elim insertE emptyE) (auto simp: arm_get_exception_name_def arm_exception_names_def)
  have "\<exists>w3. irq_listener irq_port p w2 =
      Some (if name = ''reset'' then p\<lparr>reg := (reg p)\<lparr>cpsr := 0\<rparr>\<rparr> else p, Blocks w3)"
    if "server_answers as" "0 \<le> c" "answers w2 = as @ connection_answers (c, [e])" for as c w2 p irq_port
    using irq_listener_connection [OF that(1), of "[(c, [e])]" w2 irq_port p] that(2,3) r by auto
  with send_irq_connection_writes [OF e(2)] n show ?thesis by blast
qed

lemma interrupt_by_name_witness:
  "\<exists>e sock. (''write'', [sock, 1, uint e]) \<in> set (calls (world_of
      (send_irq_program [''send_irq'', ''localhost'', ''1234'', ''reset'']
        \<lparr>answers = replicate 7 (succeeds 1), calls = [], errno = 0, h_errno = 0\<rparr>))) \<and>
    arm_get_exception_name e = Some ''reset''"
proof -
  let ?w = "\<lparr>answers = replicate 7 (succeeds 1), calls = [], errno = 0, h_errno = 0\<rparr>"
  have "find_irq 1 ''reset'' = Some 1"
    unfolding find_irq_iff by (simp add: arm_get_exception_name_def arm_exception_names_def)
  then have "\<exists>w'. send_irq_program [''send_irq'', ''localhost'', ''1234'', ''reset''] ?w = Finishes 0 w'"
    by (simp add: send_irq_program_def send_irq_main_def send_irq_connection_def Socket_def Setsockopt_def
        Gethostbyname_def Connect_def Write_def io_defs succeeds_def RESET_def numeral_eq_Suc)
  then obtain w' where "send_irq_program [''send_irq'', ''localhost'', ''1234'', ''reset''] ?w = Finishes 0 w'"
    by blast
  with interrupt_by_name [OF this] show ?thesis by auto
qed

end
